(* ===== verification/Prelude.thy ===== *)
theory Prelude
  imports Main "HOL-Library.Word" "HOL-Library.Monad_Syntax"
begin

text \<open>
  Shared vocabulary of the development: the machine types of the sources, little-endian byte
  sequences, and the generic facts on words, numbers and lists that the component theories use.

  The collection \<open>unat_simps\<close> turns statements on words into statements on natural numbers with
  the wrap-around written out; the component proofs use it through \<open>simp add:\<close>.
\<close>

unbundle bit_operations_syntax

type_synonym byte = "8 word"
type_synonym u8 = "8 word"
type_synonym u16 = "16 word"
type_synonym u32 = "32 word"
type_synonym u64 = "64 word"
type_synonym i64 = "64 word"

named_theorems unat_simps \<open>words read as natural numbers\<close>

section \<open>Words as natural numbers\<close>

lemma unat_less: "unat (w::'a::len word) < 2 ^ LENGTH('a)"
  by (rule unsigned_less)

lemma unat_drop_bit [unat_simps]: "unat (drop_bit n (w::'a::len word)) = unat w div 2 ^ n"
  unfolding unat_drop_bit_eq by (rule drop_bit_eq_div)

lemma unat_and_mask: "unat (w AND mask n :: 'a::len word) = unat w mod 2 ^ n"
  unfolding take_bit_eq_mask[symmetric] unsigned_take_bit_eq by (rule take_bit_eq_mod)

lemma unat_push_bit [unat_simps]:
  "unat (push_bit n (w::'a::len word)) = unat w * 2 ^ n mod 2 ^ LENGTH('a)"
  unfolding unsigned_push_bit_eq by (simp add: take_bit_eq_mod push_bit_eq_mult)

lemma unat_plus [unat_simps]: "unat (a + b :: 'a::len word) = (unat a + unat b) mod 2 ^ LENGTH('a)"
  by (simp add: unat_word_ariths)

lemma unat_times [unat_simps]: "unat (a * b :: 'a::len word) = (unat a * unat b) mod 2 ^ LENGTH('a)"
  by (simp add: unat_word_ariths)

lemma unat_ucast [unat_simps]:
  "unat (ucast (w :: 'a::len word) :: 'b::len word) = unat w mod 2 ^ LENGTH('b)"
  by (simp add: unsigned_ucast_eq take_bit_eq_mod)

lemma unat_ucast_up:
  "LENGTH('a) \<le> LENGTH('b) \<Longrightarrow> unat (ucast (w :: 'a::len word) :: 'b::len word) = unat w"
  by (simp add: unsigned_ucast_eq take_bit_nat_eq_self less_le_trans[OF unat_less])

lemma unat_power2: "k < LENGTH('a) \<Longrightarrow> unat (2 ^ k :: 'a::len word) = 2 ^ k"
  using unat_of_nat[of "2 ^ k", where ?'a = 'a] by simp

lemma unat_minus_1: "unat (- 1 :: 'a::len word) = 2 ^ LENGTH('a) - 1"
  by (simp add: unsigned_minus_1_eq_mask mask_eq_exp_minus_1)

text \<open>The idiom \<open>a + b < a\<close> of the sources detects exactly the additions that wrap.\<close>

lemma add_carry_iff: "(a::'a::len word) + b < a \<longleftrightarrow> 2 ^ LENGTH('a) \<le> unat a + unat b"
  by (metis linorder_not_le no_olen_add_nat)

lemma div_of_bool: "(x::nat) < 2 * K \<Longrightarrow> x div K = of_bool (K \<le> x)"
  using less_mult_imp_div_less[of x 2 K] div_eq_0_iff[of x K] by (cases "K \<le> x") auto

lemma unat_carry:
  "unat ((if (a::'a::len word) + b < a then 1 else 0) :: 'b::len word)
   = (unat a + unat b) div 2 ^ LENGTH('a)"
proof -
  have "unat a + unat b < 2 * 2 ^ LENGTH('a)"
    using unat_less[of a] unat_less[of b] by linarith
  then show ?thesis by (simp add: div_of_bool add_carry_iff)
qed

lemma unat_or_disjoint:
  "a AND b = (0::'a::len word) \<Longrightarrow> unat (a OR b) = unat a + unat b"
  by (metis disjunctive_add_eq_or unat_0 unsigned_and_eq unsigned_or_eq)

lemma unat_push_bit_or:
  fixes a b :: "'a::len word"
  assumes b: "unat b < 2 ^ n" and a: "unat a * 2 ^ n < 2 ^ LENGTH('a)"
  shows "unat (push_bit n a OR b) = unat a * 2 ^ n + unat b"
proof -
  have "take_bit n (unat b) = unat b" using b by (simp add: take_bit_nat_eq_self)
  then have "take_bit n b = b" by (metis unsigned_take_bit_eq unsigned_word_eqI)
  then have "push_bit n a AND b = push_bit n a AND take_bit n b" by simp
  also have "\<dots> = 0" by (rule bit_eqI) (auto simp: bit_simps)
  finally have "push_bit n a AND b = 0" .
  then show ?thesis using a by (simp add: unat_or_disjoint unat_push_bit)
qed

section \<open>Digits in an arbitrary base\<close>

lemma base_digits_unique:
  fixes a b c d B :: nat
  assumes "a + b * B = c + d * B" "a < B" "c < B"
  shows "a = c" "b = d"
proof -
  have "(a + b * B) mod B = (c + d * B) mod B" "(a + b * B) div B = (c + d * B) div B"
    using assms(1) by simp_all
  then show "a = c" "b = d" using assms(2,3) by simp_all
qed

section \<open>Little-endian byte sequences\<close>

fun le_nat :: "byte list \<Rightarrow> nat" where
  "le_nat [] = 0"
| "le_nat (b # bs) = unat b + 256 * le_nat bs"

primrec le_bytes :: "nat \<Rightarrow> nat \<Rightarrow> byte list" where
  "le_bytes 0 v = []"
| "le_bytes (Suc n) v = word_of_nat v # le_bytes n (v div 256)"

lemma length_le_bytes [simp]: "length (le_bytes n v) = n"
  by (induction n arbitrary: v) simp_all

lemma unat_byte_less: "unat (b::byte) < 256"
  using unat_less[of b] by simp

lemma le_nat_less: "le_nat bs < 256 ^ length bs"
proof (induction bs)
  case (Cons b bs)
  then show ?case using unat_byte_less[of b] by simp
qed simp

lemma le_nat_le_bytes [simp]: "le_nat (le_bytes n v) = v mod 256 ^ n"
proof (induction n arbitrary: v)
  case (Suc n)
  have "unat (word_of_nat v :: byte) = v mod 256" by (simp add: unat_of_nat)
  then show ?case using Suc by (simp add: mod_mult2_eq add.commute)
qed simp

lemma le_bytes_le_nat: "length bs = n \<Longrightarrow> le_bytes n (le_nat bs) = bs"
proof (induction bs arbitrary: n)
  case (Cons b bs)
  have "word_of_nat (unat b + 256 * le_nat bs) = (b :: byte)"
    by (rule unsigned_word_eqI[where ?'a = nat])
      (use unat_byte_less[of b] in \<open>simp add: unat_of_nat del: of_nat_add of_nat_mult\<close>)
  then show ?case using Cons unat_byte_less[of b] by (auto simp del: of_nat_add of_nat_mult)
qed simp

lemma le_nat_append: "le_nat (as @ bs) = le_nat as + 256 ^ length as * le_nat bs"
  by (induction as) (simp_all add: algebra_simps)

lemma le_nat_replicate_0 [simp]: "le_nat (replicate n 0) = 0"
  by (induction n) simp_all

end
