(* ===== verification/DynexCNTypes.thy ===== *)
theory DynexCNTypes
  imports Prelude
begin

text \<open>
  The data of a CryptoNote block chain, as \<open>src/include/DynexCN.h\<close> and \<open>src/include/CryptoTypes.h\<close>
  declare it, and the constants of \<open>src/src/DynexCNConfig.h\<close> the components use. Hashes, keys and key
  images are sequences of 32 bytes and signatures of 64; the well-formedness predicates state these
  lengths. A C++ structure is a record, inheritance is record extension, and a variant is a datatype.
\<close>

type_synonym Hash = "byte list"
type_synonym PublicKey = "byte list"
type_synonym SecretKey = "byte list"
type_synonym KeyImage = "byte list"
type_synonym Signature = "byte list"
type_synonym BinaryArray = "byte list"

abbreviation (input) NULL_HASH :: Hash where
  "NULL_HASH \<equiv> replicate 32 0"

section \<open>Transactions and blocks\<close>

datatype TransactionInput =
    BaseInput (base_blockIndex: u32)
  | KeyInput (ki_amount: u64) (ki_outputIndexes: "u32 list") (ki_keyImage: KeyImage)
  | MultisignatureInput (ms_amount: u64) (ms_signatureCount: u8) (ms_outputIndex: u32)

datatype TransactionOutputTarget =
    KeyOutput (ko_key: PublicKey)
  | MultisignatureOutput (mo_keys: "PublicKey list") (mo_requiredSignatureCount: u8)

record TransactionOutput =
  out_amount :: u64
  out_target :: TransactionOutputTarget

record TransactionPrefix =
  tx_version :: u8
  tx_unlockTime :: u64
  tx_inputs :: "TransactionInput list"
  tx_outputs :: "TransactionOutput list"
  tx_extra :: "byte list"

record Transaction = TransactionPrefix +
  tx_signatures :: "Signature list list"

record ParentBlock =
  pb_majorVersion :: u8
  pb_minorVersion :: u8
  pb_previousBlockHash :: Hash
  pb_transactionCount :: u16
  pb_baseTransactionBranch :: "Hash list"
  pb_baseTransaction :: Transaction
  pb_blockchainBranch :: "Hash list"

record BlockHeader =
  blk_majorVersion :: u8
  blk_minorVersion :: u8
  blk_nonce :: u32
  blk_timestamp :: u64
  blk_previousBlockHash :: Hash

record Block = BlockHeader +
  blk_parentBlock :: ParentBlock
  blk_baseTransaction :: Transaction
  blk_transactionHashes :: "Hash list"

record AccountPublicAddress =
  spendPublicKey :: PublicKey
  viewPublicKey :: PublicKey

record AccountKeys =
  ak_address :: AccountPublicAddress
  ak_spendSecretKey :: SecretKey
  ak_viewSecretKey :: SecretKey

record KeyPair =
  kp_publicKey :: PublicKey
  kp_secretKey :: SecretKey

section \<open>Constants\<close>

abbreviation (input) "CURRENT_TRANSACTION_VERSION \<equiv> 1 :: u8"
abbreviation (input) "BLOCK_MAJOR_VERSION_1 \<equiv> 1 :: u8"
abbreviation (input) "BLOCK_MAJOR_VERSION_2 \<equiv> 2 :: u8"
abbreviation (input) "BLOCK_MAJOR_VERSION_3 \<equiv> 3 :: u8"
abbreviation (input) "BLOCK_MAJOR_VERSION_4 \<equiv> 4 :: u8"
abbreviation (input) "BLOCK_MINOR_VERSION_0 \<equiv> 0 :: u8"
abbreviation (input) "BLOCK_MINOR_VERSION_1 \<equiv> 1 :: u8"


section \<open>Well-formedness\<close>

fun wf_input :: "TransactionInput \<Rightarrow> bool" where
  "wf_input (BaseInput i) = True"
| "wf_input (KeyInput a idx ki) = (length idx < 2 ^ 64 \<and> length ki = 32)"
| "wf_input (MultisignatureInput a c i) = True"

fun wf_target :: "TransactionOutputTarget \<Rightarrow> bool" where
  "wf_target (KeyOutput k) = (length k = 32)"
| "wf_target (MultisignatureOutput ks n) = (length ks < 2 ^ 64 \<and> list_all (\<lambda>k. length k = 32) ks)"

definition wf_output :: "TransactionOutput \<Rightarrow> bool" where
  "wf_output out = wf_target (out_target out)"

definition wf_prefix :: "'a TransactionPrefix_scheme \<Rightarrow> bool" where
  "wf_prefix tx \<longleftrightarrow> length (tx_inputs tx) < 2 ^ 64 \<and> list_all wf_input (tx_inputs tx)
    \<and> length (tx_outputs tx) < 2 ^ 64 \<and> list_all wf_output (tx_outputs tx)
    \<and> length (tx_extra tx) < 2 ^ 64"

text \<open>
  The signatures of a transaction are one list per input, except that a transaction whose only input
  is a \<open>BaseInput\<close> (a coinbase transaction) carries none.
\<close>

definition is_base_only :: "TransactionInput list \<Rightarrow> bool" where
  "is_base_only ins \<longleftrightarrow> (case ins of [BaseInput _] \<Rightarrow> True | _ \<Rightarrow> False)"

definition wf_Transaction :: "Transaction \<Rightarrow> bool" where
  "wf_Transaction tx \<longleftrightarrow> wf_prefix tx
    \<and> (if is_base_only (tx_inputs tx) then tx_signatures tx = []
       else length (tx_signatures tx) = length (tx_inputs tx))
    \<and> list_all (list_all (\<lambda>s. length s = 64)) (tx_signatures tx)"

end
