(* ===== verification/TreeHash.thy ===== *)
theory TreeHash
  imports DynexCNTypes
begin

text \<open>
  Merkle trees over transaction hashes, \<open>src/src/crypto/tree-hash.c\<close>. The hash \<open>cn_fast_hash\<close> is the
  argument \<open>H\<close>, a function on byte sequences. The scratch array \<open>ints\<close> is a list updated by index,
  in the order of the C loops, so that the in-place passes of the code are visible; \<open>hash_pairs\<close> and
  \<open>merkle\<close> are the reference definitions the code is compared with.
\<close>

section \<open>Definitions\<close>

definition tree_hash_cnt :: "u64 \<Rightarrow> u64" where
  "tree_hash_cnt count =
    (let cnt = count - 1;
         cnt = fold (\<lambda>i cnt. cnt OR drop_bit i cnt) [1, 2, 4, 8, 16, 32] cnt
     in cnt AND NOT (drop_bit 1 cnt))"

text \<open>One in-place pass: \<open>ints[j] = H(ints[i], ints[i + 1])\<close> for \<open>j < m\<close> and \<open>i = off + 2 * j\<close>.\<close>

definition hash_pass :: "(byte list \<Rightarrow> Hash) \<Rightarrow> nat \<Rightarrow> nat \<Rightarrow> Hash list \<Rightarrow> Hash list" where
  "hash_pass H off m ints =
    fold (\<lambda>j ints. ints[j := H (ints ! (off + 2 * j) @ ints ! (off + 2 * j + 1))]) [0..<m] ints"

text \<open>The first pass reads the leaves from the index \<open>i\<close> on and fills \<open>ints\<close> from \<open>j\<close> up to \<open>m\<close>.\<close>

definition hash_leaves :: "(byte list \<Rightarrow> Hash) \<Rightarrow> Hash list \<Rightarrow> nat \<Rightarrow> nat \<Rightarrow> nat \<Rightarrow> Hash list \<Rightarrow> Hash list" where
  "hash_leaves H hashes i j m ints =
    fold (\<lambda>k ints. ints[j + k := H (hashes ! (i + 2 * k) @ hashes ! (i + 2 * k + 1))]) [0..<m - j] ints"

function tree_hash_loop :: "(byte list \<Rightarrow> Hash) \<Rightarrow> nat \<Rightarrow> Hash list \<Rightarrow> Hash list" where
  "tree_hash_loop H cnt ints =
    (if cnt > 2 then let cnt = cnt div 2 in tree_hash_loop H cnt (hash_pass H 0 cnt ints) else ints)"
  by pat_completeness auto
termination by (relation "measure (\<lambda>(_, cnt, _). cnt)") auto

declare tree_hash_loop.simps [simp del]

definition tree_hash :: "(byte list \<Rightarrow> Hash) \<Rightarrow> Hash list \<Rightarrow> Hash" where
  "tree_hash H hashes =
    (let count = length hashes in
     if count = 1 then hashes ! 0
     else if count = 2 then H (hashes ! 0 @ hashes ! 1)
     else
       let cnt = unat (tree_hash_cnt (word_of_nat count));
           ints = take (2 * cnt - count) hashes @ replicate (cnt - (2 * cnt - count)) (replicate 32 0);
           ints = hash_leaves H hashes (2 * cnt - count) (2 * cnt - count) cnt ints;
           ints = tree_hash_loop H cnt ints
       in H (ints ! 0 @ ints ! 1))"

definition tree_depth :: "u64 \<Rightarrow> nat" where
  "tree_depth count =
    snd (fold (\<lambda>i (count, depth). if drop_bit i count > 0 then (drop_bit i count, depth + i) else (count, depth))
      [32, 16, 8, 4, 2, 1] (count, 0))"

text \<open>The first loop of \<open>tree_branch\<close> finds \<open>cnt = 2 ^ depth\<close>, the largest power of two up to \<open>count\<close>.\<close>

definition tree_branch_cnt :: "u64 \<Rightarrow> u64 \<times> nat" where
  "tree_branch_cnt count =
    fold (\<lambda>i (cnt, depth). if push_bit i cnt \<le> count then (push_bit i cnt, depth + i) else (cnt, depth))
      [32, 16, 8, 4, 2, 1] (1, 0)"

text \<open>The last loop, with the branch as the list of the entries \<open>branch[0], \<dots>, branch[depth - 1]\<close>.\<close>

fun tree_branch_loop :: "(byte list \<Rightarrow> Hash) \<Rightarrow> nat \<Rightarrow> nat \<Rightarrow> Hash list \<Rightarrow> Hash list \<Rightarrow> Hash list" where
  "tree_branch_loop H 0 cnt ints branch = branch"
| "tree_branch_loop H (Suc depth) cnt ints branch =
    (let cnt = cnt div 2 in
     tree_branch_loop H depth cnt (hash_pass H 1 (cnt - 1) ints) (ints ! 0 # branch))"

definition tree_branch :: "(byte list \<Rightarrow> Hash) \<Rightarrow> Hash list \<Rightarrow> Hash list" where
  "tree_branch H hashes =
    (let count = length hashes;
         (c, depth) = tree_branch_cnt (word_of_nat count);
         cnt = unat c;
         ints = take (2 * cnt - count - 1) (drop 1 hashes) @
           replicate (cnt - 1 - (2 * cnt - count - 1)) (replicate 32 0);
         ints = hash_leaves H hashes (2 * cnt - count) (2 * cnt - count - 1) (cnt - 1) ints
     in tree_branch_loop H depth cnt ints [])"

text \<open>
  \<open>path\<close> is \<open>None\<close> for a null pointer; otherwise bit \<open>depth AND 7\<close> of byte \<open>depth div 8\<close> tells on
  which side of the branch entry the leaf is.
\<close>

definition path_bit :: "byte list option \<Rightarrow> nat \<Rightarrow> bool" where
  "path_bit path depth = (case path of None \<Rightarrow> False | Some p \<Rightarrow> bit (p ! (depth div 8)) (depth mod 8))"

fun tree_hash_from_branch :: "(byte list \<Rightarrow> Hash) \<Rightarrow> Hash list \<Rightarrow> nat \<Rightarrow> Hash \<Rightarrow> byte list option \<Rightarrow> Hash" where
  "tree_hash_from_branch H branch 0 leaf path = leaf"
| "tree_hash_from_branch H branch (Suc depth) leaf path =
    tree_hash_from_branch H branch depth
      (if path_bit path depth then H (branch ! depth @ leaf) else H (leaf @ branch ! depth)) path"

section \<open>The reference tree\<close>

fun hash_pairs :: "(byte list \<Rightarrow> Hash) \<Rightarrow> Hash list \<Rightarrow> Hash list" where
  "hash_pairs H (x # y # xs) = H (x @ y) # hash_pairs H xs"
| "hash_pairs H xs = []"

definition merkle :: "(byte list \<Rightarrow> Hash) \<Rightarrow> nat \<Rightarrow> Hash list \<Rightarrow> Hash" where
  "merkle H d xs = hd ((hash_pairs H ^^ d) xs)"

text \<open>The lowest complete level: the first leaves as they are, the last ones hashed in pairs.\<close>

definition tree_level :: "(byte list \<Rightarrow> Hash) \<Rightarrow> nat \<Rightarrow> Hash list \<Rightarrow> Hash list" where
  "tree_level H cnt hashes =
    take (2 * cnt - length hashes) hashes @ hash_pairs H (drop (2 * cnt - length hashes) hashes)"

section \<open>In-place passes\<close>

lemma hash_pairs_nth: "hash_pairs H xs = map (\<lambda>j. H (xs ! (2 * j) @ xs ! (2 * j + 1))) [0..<length xs div 2]"
proof (induction H xs rule: hash_pairs.induct)
  case (1 H x y xs)
  have "[0..<length (x # y # xs) div 2] = 0 # map Suc [0..<length xs div 2]"
    by (simp add: upt_conv_Cons map_Suc_upt)
  then show ?case using 1 by (simp add: o_def)
qed simp_all

lemma length_hash_pairs [simp]: "length (hash_pairs H xs) = length xs div 2"
  by (simp add: hash_pairs_nth)

lemma fold_update_length:
  "length (fold (\<lambda>j ints. ints[f j := g j ints]) js ints) = length ints"
  by (induction js arbitrary: ints) simp_all

lemma length_hash_pass [simp]: "length (hash_pass H off m ints) = length ints"
  unfolding hash_pass_def by (rule fold_update_length)

lemma hash_pass_nth:
  assumes "off + 2 * m \<le> length ints"
  shows "hash_pass H off m ints ! k =
    (if k < m then H (ints ! (off + 2 * k) @ ints ! (off + 2 * k + 1)) else ints ! k)"
  using assms
proof (induction m arbitrary: k)
  case (Suc m)
  have "hash_pass H off (Suc m) ints = (hash_pass H off m ints)[m :=
      H (hash_pass H off m ints ! (off + 2 * m) @ hash_pass H off m ints ! (off + 2 * m + 1))]"
    by (simp add: hash_pass_def)
  also have "\<dots> = (hash_pass H off m ints)[m := H (ints ! (off + 2 * m) @ ints ! (off + 2 * m + 1))]"
    using Suc by simp
  finally show ?case using Suc by (auto simp: nth_list_update)
qed (simp add: hash_pass_def)

lemma hash_pass_0:
  assumes "2 * m \<le> length ints"
  shows "take m (hash_pass H 0 m ints) = hash_pairs H (take (2 * m) ints)"
  using assms by (intro nth_equalityI) (auto simp: hash_pass_nth hash_pairs_nth)

lemma length_hash_leaves [simp]: "length (hash_leaves H hashes i j m ints) = length ints"
  unfolding hash_leaves_def by (rule fold_update_length)

lemma hash_leaves_fill:
  assumes "j \<le> m" "m \<le> length ints" "i + 2 * (m - j) = length hashes"
  shows "take m (hash_leaves H hashes i j m ints) = take j ints @ hash_pairs H (drop i hashes)"
proof -
  have "hash_leaves H hashes i j (j + n) ints ! k =
      (if j \<le> k \<and> k < j + n then H (hashes ! (i + 2 * (k - j)) @ hashes ! (i + 2 * (k - j) + 1)) else ints ! k)"
    if "j + n \<le> length ints" for n k
    using that
  proof (induction n arbitrary: k)
    case (Suc n)
    have "length (hash_leaves H hashes i j (j + n) ints) = length ints"
      unfolding hash_leaves_def by (rule fold_update_length)
    moreover have "hash_leaves H hashes i j (j + Suc n) ints =
      (hash_leaves H hashes i j (j + n) ints)[j + n := H (hashes ! (i + 2 * n) @ hashes ! (i + 2 * n + 1))]"
      by (simp add: hash_leaves_def)
    ultimately show ?case using Suc by (auto simp: nth_list_update)
  qed (auto simp: hash_leaves_def)
  from this[of "m - j"] have nth: "hash_leaves H hashes i j m ints ! k =
      (if j \<le> k \<and> k < m then H (hashes ! (i + 2 * (k - j)) @ hashes ! (i + 2 * (k - j) + 1)) else ints ! k)" for k
    using assms by simp
  have len: "length (hash_leaves H hashes i j m ints) = length ints"
    unfolding hash_leaves_def by (rule fold_update_length)
  show ?thesis
    using assms by (intro nth_equalityI) (auto simp: nth len hash_pairs_nth nth_append algebra_simps)
qed

section \<open>Powers of two\<close>

lemma smear_step:
  fixes c x :: u64
  assumes "\<And>n. bit c n \<longleftrightarrow> (\<exists>j<k. bit x (n + j))"
  shows "bit (c OR drop_bit k c) n \<longleftrightarrow> (\<exists>j<2 * k. bit x (n + j))"
proof -
  have "bit (c OR drop_bit k c) n \<longleftrightarrow> (\<exists>j<k. bit x (n + j)) \<or> (\<exists>j<k. bit x (k + n + j))"
    by (simp add: bit_simps assms)
  also have "\<dots> \<longleftrightarrow> (\<exists>j<2 * k. bit x (n + j))" (is "?l \<longleftrightarrow> ?r")
  proof
    assume ?l
    then show ?r
    proof
      assume "\<exists>j<k. bit x (k + n + j)"
      then obtain j where "j < k" "bit x (k + n + j)" by blast
      then show ?r by (intro exI[of _ "k + j"]) (simp add: ac_simps)
    qed (metis mult_2 trans_less_add1)
  next
    assume ?r
    then obtain j where j: "j < 2 * k" "bit x (n + j)" by blast
    show ?l
    proof (cases "j < k")
      case False
      then have "j - k < k" "bit x (k + n + (j - k))" using j by (simp_all add: ac_simps)
      then show ?thesis by blast
    qed (use j in blast)
  qed
  finally show ?thesis .
qed

lemma smear_bits:
  fixes x :: u64
  shows "bit (fold (\<lambda>i cnt. cnt OR drop_bit i cnt) [1, 2, 4, 8, 16, 32] x) n \<longleftrightarrow> (\<exists>m\<ge>n. bit x m)"
proof -
  have "bit (fold (\<lambda>i cnt. cnt OR drop_bit i cnt) [1, 2, 4, 8, 16, 32] x) n \<longleftrightarrow> (\<exists>j<64. bit x (n + j))"
    unfolding fold.simps o_def id_def
    apply (rule smear_step[where k = 32, simplified])
    apply (rule smear_step[where k = 16, simplified])
    apply (rule smear_step[where k = 8, simplified])
    apply (rule smear_step[where k = 4, simplified])
    apply (rule smear_step[where k = 2, simplified])
    apply (rule smear_step[where k = 1, unfolded nat_mult_1_right])
    apply simp
    done
  also have "\<dots> \<longleftrightarrow> (\<exists>m\<ge>n. bit x m)"
  proof
    assume "\<exists>m\<ge>n. bit x m"
    then obtain m where m: "n \<le> m" "bit x m" by blast
    then have "m < 64" using bit_imp_le_length[of x m] by simp
    then show "\<exists>j<64. bit x (n + j)" using m by (intro exI[of _ "m - n"]) simp
  qed (use le_add1 in blast)
  finally show ?thesis .
qed

lemma highest_bit:
  fixes x :: u64
  assumes "2 ^ k \<le> unat x" "unat x < 2 ^ Suc k"
  shows "bit x n \<Longrightarrow> n \<le> k" "bit x k"
proof -
  have b: "bit x n \<longleftrightarrow> odd (unat x div 2 ^ n)" for n
    using bit_unsigned_iff[where ?'a = nat, of x n] by (auto simp: bit_iff_odd dest: bit_imp_le_length)
  show "n \<le> k" if "bit x n"
  proof (rule ccontr)
    assume "\<not> n \<le> k"
    then have "(2::nat) ^ Suc k \<le> 2 ^ n" by (intro power_increasing) auto
    then have "unat x div 2 ^ n = 0" using assms(2) by simp
    then show False using that b by simp
  qed
  have "unat x div 2 ^ k = 1" using assms by (intro div_nat_eqI) simp_all
  then show "bit x k" by (simp add: b)
qed

lemma tree_hash_cnt_power:
  assumes "2 ^ k \<le> unat (count - 1)" "unat (count - 1) < 2 ^ Suc k"
  shows "unat (tree_hash_cnt count) = 2 ^ k"
proof -
  have k: "k < 64" using highest_bit(2)[OF assms] bit_imp_le_length by fastforce
  have "tree_hash_cnt count = 2 ^ k"
  proof (rule bit_word_eqI)
    fix n assume "n < LENGTH(64)"
    define y where "y = fold (\<lambda>i cnt. cnt OR drop_bit i cnt) [1, 2, 4, 8, 16, 32] (count - 1)"
    have y: "bit y m \<longleftrightarrow> (\<exists>l\<ge>m. bit (count - 1) l)" for m
      unfolding y_def by (rule smear_bits)
    have "tree_hash_cnt count = y AND NOT (drop_bit 1 y)"
      by (simp only: tree_hash_cnt_def Let_def y_def)
    then have "bit (tree_hash_cnt count) n \<longleftrightarrow> (\<exists>m\<ge>n. bit (count - 1) m) \<and> \<not> (\<exists>m\<ge>Suc n. bit (count - 1) m)"
      using \<open>n < LENGTH(64)\<close> by (simp add: bit_simps y)
    also have "\<dots> \<longleftrightarrow> n = k"
      using highest_bit[OF assms] by (metis le_antisym not_less_eq_eq order_refl)
    finally show "bit (tree_hash_cnt count) n = bit (2 ^ k :: u64) n"
      using k by (auto simp: bit_exp_iff)
  qed
  then show ?thesis using k by (simp add: unat_power2)
qed

definition depth_inv :: "nat \<Rightarrow> nat \<Rightarrow> u64 \<times> nat \<Rightarrow> bool" where
  "depth_inv n i = (\<lambda>(c, d). 0 < unat c \<and> unat c < 2 ^ i \<and> 2 ^ d * unat c \<le> n \<and> n < 2 ^ d * (unat c + 1))"

lemma depth_inv_step:
  assumes "depth_inv n (2 * i) (c, d)"
  shows "depth_inv n i (if drop_bit i c > 0 then (drop_bit i c, d + i) else (c, d))"
proof (cases "unat c div 2 ^ i = 0")
  case True
  then have "unat c < 2 ^ i" using div_eq_0_iff[of "unat c" "2 ^ i"] by simp
  moreover have "\<not> drop_bit i c > 0" using True by (simp add: word_less_nat_alt unat_drop_bit)
  ultimately show ?thesis using assms by (simp add: depth_inv_def)
next
  case False
  define q where "q = unat c div 2 ^ i"
  have q: "unat (drop_bit i c) = q" by (simp only: q_def unat_drop_bit)
  have c: "unat c < 2 ^ i * 2 ^ i" "2 ^ d * unat c \<le> n" "n < 2 ^ d * (unat c + 1)"
    using assms by (simp_all add: depth_inv_def mult_2 power_add)
  have "q < 2 ^ i" unfolding q_def using c(1) by (rule less_mult_imp_div_less)
  moreover have "2 ^ d * 2 ^ i * q \<le> 2 ^ d * unat c" by (simp add: q_def mult.assoc)
  then have "2 ^ d * 2 ^ i * q \<le> n" using c(2) by (rule le_trans)
  moreover have "unat c + 1 \<le> 2 ^ i * (q + 1)"
  proof -
    have "2 ^ i * q + unat c mod 2 ^ i = unat c" unfolding q_def by (rule mult_div_mod_eq)
    moreover have "unat c mod 2 ^ i < 2 ^ i" by simp
    moreover have "2 ^ i * (q + 1) = 2 ^ i * q + 2 ^ i" by simp
    ultimately show ?thesis by linarith
  qed
  then have "2 ^ d * (unat c + 1) \<le> 2 ^ d * 2 ^ i * (q + 1)"
    unfolding mult.assoc by (rule mult_le_mono2)
  then have "n < 2 ^ d * 2 ^ i * (q + 1)" using c(3) by (rule less_le_trans[rotated])
  moreover have "drop_bit i c > 0" using False q by (simp add: word_less_nat_alt q_def)
  ultimately show ?thesis using c False q by (simp add: depth_inv_def power_add q_def[symmetric])
qed

lemma tree_depth_log:
  assumes "0 < unat count"
  shows "2 ^ tree_depth count \<le> unat count" "unat count < 2 ^ Suc (tree_depth count)"
proof -
  have "depth_inv (unat count) 64 (count, 0)"
    using assms unat_less[of count] by (simp add: depth_inv_def)
  then have "depth_inv (unat count) 1 (fold (\<lambda>i (count, depth). if drop_bit i count > 0 then (drop_bit i count, depth + i) else (count, depth))
      [32, 16, 8, 4, 2, 1] (count, 0))" (is "depth_inv _ _ (fold ?f _ _)")
  proof -
    have step: "k = 2 * i \<Longrightarrow> depth_inv (unat count) k p \<Longrightarrow> depth_inv (unat count) i (?f i p)" for i k p
      using depth_inv_step by (cases p) auto
    assume *: "depth_inv (unat count) 64 (count, 0)"
    show ?thesis unfolding fold.simps o_def id_def
      by (rule step[of 2], simp, rule step[of 4], simp, rule step[of 8], simp, rule step[of 16], simp,
          rule step[of 32], simp, rule step[of 64], simp, rule *)
  qed
  moreover obtain c d where cd: "fold ?f [32, 16, 8, 4, 2, 1] (count, 0) = (c, d)" by fastforce
  moreover have "tree_depth count = d" unfolding tree_depth_def cd by simp
  ultimately have "depth_inv (unat count) 1 (c, tree_depth count)" by simp
  moreover have "unat c = 1" using calculation by (auto simp: depth_inv_def)
  ultimately show "2 ^ tree_depth count \<le> unat count" "unat count < 2 ^ Suc (tree_depth count)"
    by (auto simp: depth_inv_def)
qed

definition branch_inv :: "nat \<Rightarrow> nat \<Rightarrow> u64 \<times> nat \<Rightarrow> bool" where
  "branch_inv n i = (\<lambda>(c, d). c = 2 ^ d \<and> d + i \<le> 64 \<and> 2 ^ d \<le> n \<and> n < 2 ^ (d + i))"

lemma branch_inv_step:
  assumes "branch_inv (unat count) (2 * i) (c, d)" "0 < i"
  shows "branch_inv (unat count) i (if push_bit i c \<le> count then (push_bit i c, d + i) else (c, d))"
proof -
  have c: "c = 2 ^ d" and d: "d + i < 64" using assms by (simp_all add: branch_inv_def)
  have p: "push_bit i c = 2 ^ (d + i)" by (simp add: c push_bit_eq_mult power_add)
  have "push_bit i c \<le> count \<longleftrightarrow> 2 ^ (d + i) \<le> unat count"
    unfolding p using d by (simp add: word_le_nat_alt unat_power2)
  then show ?thesis using assms p by (auto simp: branch_inv_def mult_2 add.assoc not_le)
qed

lemma tree_branch_cnt_log:
  assumes "0 < unat count"
  obtains d where "tree_branch_cnt count = (2 ^ d, d)" "d < 64" "2 ^ d \<le> unat count" "unat count < 2 ^ Suc d"
proof -
  let ?f = "\<lambda>i (cnt, depth). if push_bit i cnt \<le> count then (push_bit i cnt, depth + i) else (cnt, depth)"
  have step: "0 < i \<Longrightarrow> k = 2 * i \<Longrightarrow> branch_inv (unat count) k p \<Longrightarrow> branch_inv (unat count) i (?f i p)" for i k p
    using branch_inv_step by (cases p) auto
  have *: "branch_inv (unat count) 64 (1, 0)"
    using assms unat_less[of count] by (simp add: branch_inv_def)
  have "branch_inv (unat count) 1 (fold ?f [32, 16, 8, 4, 2, 1] (1, 0))"
    unfolding fold.simps o_def id_def
    by (rule step[of _ 2], simp, simp, rule step[of _ 4], simp, simp, rule step[of _ 8], simp, simp,
        rule step[of _ 16], simp, simp, rule step[of _ 32], simp, simp, rule step[of _ 64], simp, simp, rule *)
  then have "branch_inv (unat count) 1 (tree_branch_cnt count)" by (simp only: tree_branch_cnt_def)
  then show ?thesis using that by (cases "tree_branch_cnt count") (auto simp: branch_inv_def)
qed

lemma power2_interval_unique:
  assumes "2 ^ a \<le> (n::nat)" "n < 2 ^ Suc a" "2 ^ b \<le> n" "n < 2 ^ Suc b"
  shows "a = b"
proof -
  have "(2::nat) ^ a < 2 ^ Suc b" "(2::nat) ^ b < 2 ^ Suc a" using assms by linarith+
  then have "a < Suc b" "b < Suc a" using power_less_imp_less_exp[of 2] by (metis one_less_numeral_iff semiring_norm(76))+
  then show ?thesis by simp
qed

section \<open>The computed root\<close>

lemma merkle_Suc: "merkle H (Suc d) xs = merkle H d (hash_pairs H xs)"
  by (simp add: merkle_def funpow_swap1)

lemma tree_hash_loop_root:
  assumes "length ints \<ge> 2 ^ Suc d"
  shows "(let r = tree_hash_loop H (2 ^ Suc d) ints in H (r ! 0 @ r ! 1)) = merkle H (Suc d) (take (2 ^ Suc d) ints)"
  using assms
proof (induction d arbitrary: ints)
  case 0
  then obtain x y zs where "ints = x # y # zs"
    by (cases ints; cases "tl ints") auto
  then show ?case by (subst tree_hash_loop.simps) (simp add: merkle_def)
next
  case (Suc d)
  let ?p = "hash_pass H 0 (2 ^ Suc d) ints"
  have "(2::nat) < 2 ^ Suc (Suc d)" using power_strict_increasing[of 1 "Suc (Suc d)" "2::nat"] by simp
  then have "tree_hash_loop H (2 ^ Suc (Suc d)) ints = tree_hash_loop H (2 ^ Suc d) ?p"
    by (subst tree_hash_loop.simps) (simp add: Let_def)
  moreover have "length ?p \<ge> 2 ^ Suc d" using Suc.prems by simp
  moreover have "take (2 ^ Suc d) ?p = hash_pairs H (take (2 ^ Suc (Suc d)) ints)"
    using hash_pass_0[of "2 ^ Suc d" ints H] Suc.prems by simp
  ultimately show ?case
    using Suc.IH[of ?p] by (simp add: merkle_Suc[of H "Suc d"] del: power_Suc)
qed

lemma tree_hash_leaves:
  assumes "cnt < length hashes" "length hashes \<le> 2 * cnt"
  defines "k \<equiv> 2 * cnt - length hashes"
  shows "take cnt (hash_leaves H hashes k k cnt (take k hashes @ replicate (cnt - k) z)) = tree_level H cnt hashes"
  using assms hash_leaves_fill[of k cnt "take k hashes @ replicate (cnt - k) z" k hashes H]
  by (simp add: tree_level_def)

lemma tree_hash_correct:
  assumes "0 < length hashes" "length hashes < 2 ^ 64"
  defines "d \<equiv> tree_depth (word_of_nat (length hashes))"
  shows "tree_hash H hashes = merkle H d (tree_level H (2 ^ d) hashes)"
proof -
  let ?n = "length hashes"
  have un: "unat (word_of_nat ?n :: u64) = ?n" using assms(2) by (simp add: unat_of_nat)
  have d: "2 ^ d \<le> ?n" "?n < 2 ^ Suc d"
    using tree_depth_log[of "word_of_nat ?n"] assms(1) by (simp_all add: un d_def)
  consider "?n = 1" | "?n = 2" | "2 < ?n" using assms(1) by linarith
  then show ?thesis
  proof cases
    case 1
    then have "d = 0" using power2_interval_unique[of d ?n 0] d by simp
    then show ?thesis using 1 by (cases hashes) (simp_all add: tree_hash_def tree_level_def merkle_def)
  next
    case 2
    then have "d = 1" using power2_interval_unique[of d ?n 1] d by simp
    then show ?thesis using 2 
      by (cases hashes; cases "tl hashes") (auto simp: tree_hash_def tree_level_def merkle_def)
  next
    case 3
    have u1: "unat (word_of_nat ?n - 1 :: u64) = ?n - 1"
      using 3 un by (simp add: unat_minus_one word_unat_eq_iff unat_sub word_le_nat_alt)
    obtain k where k: "2 ^ k \<le> ?n - 1" "?n - 1 < 2 ^ Suc k" 
      using tree_depth_log[of "word_of_nat ?n - 1"] 3 u1 by auto
    then obtain k' where k': "k = Suc k'" using 3 by (cases k) auto
    have cnt: "unat (tree_hash_cnt (word_of_nat ?n)) = 2 ^ k"
      using k u1 by (intro tree_hash_cnt_power) simp_all
    define ints where "ints = hash_leaves H hashes (2 * 2 ^ k - ?n) (2 * 2 ^ k - ?n) (2 ^ k)
      (take (2 * 2 ^ k - ?n) hashes @ replicate (2 ^ k - (2 * 2 ^ k - ?n)) (replicate 32 0))"
    have b: "2 ^ k < ?n" "?n \<le> 2 * 2 ^ k" using k by auto
    have ints: "take (2 ^ k) ints = tree_level H (2 ^ k) hashes"
      unfolding ints_def by (rule tree_hash_leaves[OF b])
    have len: "length ints = 2 ^ k" using b by (simp add: ints_def)
    have "tree_hash H hashes = (let r = tree_hash_loop H (2 ^ k) ints in H (r ! 0 @ r ! 1))"
      using 3 by (simp add: tree_hash_def Let_def cnt ints_def)
    also have "\<dots> = merkle H k (tree_level H (2 ^ k) hashes)"
      using tree_hash_loop_root[of k' ints H] ints len unfolding k' by simp
    finally have "tree_hash H hashes = merkle H k (tree_level H (2 ^ k) hashes)" .
    moreover have "merkle H k (tree_level H (2 ^ k) hashes) = merkle H d (tree_level H (2 ^ d) hashes)"
    proof (cases "?n = 2 ^ Suc k")
      case True
      then have "d = Suc k" using power2_interval_unique[of d ?n "Suc k"] d by simp
      then show ?thesis using True by (simp add: tree_level_def merkle_Suc)
    next
      case False
      then have "d = k" using power2_interval_unique[of d ?n k] d k by linarith
      then show ?thesis by simp
    qed
    ultimately show ?thesis by simp
  qed
qed

lemma tree_branch_loop_correct:
  assumes "length L = 2 ^ d" "2 ^ d - 1 \<le> length ints" "take (2 ^ d - 1) ints = tl L"
  shows "\<exists>bs. tree_branch_loop H d (2 ^ d) ints br = bs @ br \<and> length bs = d \<and>
    tree_hash_from_branch H (bs @ br) d (L ! 0) None = merkle H d L"
  using assms
proof (induction d arbitrary: L ints br)
  case 0
  then show ?case by (cases L) (simp_all add: merkle_def)
next
  case (Suc d)
  have nth: "ints ! k = L ! Suc k" if "k < 2 ^ Suc d - 1" for k
    using Suc.prems(1,3) that by (metis diff_Suc_1 length_tl nth_take nth_tl)
  define p where "p = hash_pass H 1 (2 ^ d - 1) ints"
  obtain m where "2 ^ d = Suc m" using not0_implies_Suc[of "2 ^ d"] by auto
  then have len: "1 + 2 * (2 ^ d - 1) \<le> length ints" using Suc.prems(2) by simp
  have "take (2 ^ d - 1) p = tl (hash_pairs H L)"
    using Suc.prems len by (intro nth_equalityI) (auto simp: p_def hash_pass_nth nth hash_pairs_nth nth_tl)
  moreover have "2 ^ d - 1 \<le> length p" using len unfolding p_def length_hash_pass by linarith
  moreover have "length (hash_pairs H L) = 2 ^ d" using Suc.prems(1) by simp
  ultimately obtain bs where bs: "tree_branch_loop H d (2 ^ d) p (L ! 1 # br) = bs @ L ! 1 # br" "length bs = d"
    "tree_hash_from_branch H (bs @ L ! 1 # br) d (hash_pairs H L ! 0) None = merkle H d (hash_pairs H L)"
    using Suc.IH[of "hash_pairs H L" p "L ! 1 # br"] by blast
  moreover have "hash_pairs H L ! 0 = H (L ! 0 @ L ! 1)" using Suc.prems(1) by (simp add: hash_pairs_nth)
  moreover have "ints ! 0 = L ! 1" using nth[of 0] \<open>2 ^ d = Suc m\<close> by simp
  ultimately show ?case
    by (intro exI[of _ "bs @ [L ! 1]"]) (simp add: Let_def merkle_Suc path_bit_def nth_append p_def[symmetric, unfolded One_nat_def])
qed

lemma tree_branch_correct:
  assumes "0 < length hashes" "length hashes < 2 ^ 64"
  defines "d \<equiv> tree_depth (word_of_nat (length hashes))"
  shows "length (tree_branch H hashes) = d"
    "tree_hash_from_branch H (tree_branch H hashes) d (hashes ! 0) None = tree_hash H hashes"
proof -
  let ?n = "length hashes"
  have un: "unat (word_of_nat ?n :: u64) = ?n" using assms(2) by (simp add: unat_of_nat)
  have d: "2 ^ d \<le> ?n" "?n < 2 ^ Suc d"
    using tree_depth_log[of "word_of_nat ?n"] assms(1) by (simp_all add: un d_def)
  obtain d' where d': "tree_branch_cnt (word_of_nat ?n) = (2 ^ d', d')" "d' < 64" "2 ^ d' \<le> ?n" "?n < 2 ^ Suc d'"
    using tree_branch_cnt_log[of "word_of_nat ?n"] assms(1) unfolding un by blast
  have [simp]: "d' = d" using power2_interval_unique[of d' ?n d] d d' by simp
  define k where "k = 2 * 2 ^ d - ?n - 1"
  have k: "2 * 2 ^ d - ?n = Suc k" "k \<le> 2 ^ d - 1" using d by (simp_all add: k_def)
  define ints where "ints = hash_leaves H hashes (2 * 2 ^ d - ?n) (2 * 2 ^ d - ?n - 1) (2 ^ d - 1)
    (take (2 * 2 ^ d - ?n - 1) (drop 1 hashes) @ replicate (2 ^ d - 1 - (2 * 2 ^ d - ?n - 1)) (replicate 32 0))"
  have tb: "tree_branch H hashes = tree_branch_loop H d (2 ^ d) ints []"
    using d' by (simp add: tree_branch_def Let_def ints_def unat_power2)
  have len: "length ints = 2 ^ d - 1" using k d by (simp add: ints_def)
  define z where "z = take k (drop 1 hashes) @ replicate (2 ^ d - 1 - k) (replicate 32 (0::byte))"
  have z: "take k z = take k (tl hashes)" "2 ^ d - 1 \<le> length z" using k d by (auto simp: z_def drop_Suc)
  have "Suc k + 2 * (2 ^ d - 1 - k) = ?n" using k d by linarith
  then have "take (2 ^ d - 1) ints = take k (tl hashes) @ hash_pairs H (drop (Suc k) hashes)"
    using hash_leaves_fill[of k "2 ^ d - 1" z "Suc k" hashes H] k(2) z by (simp only: ints_def k(1) diff_Suc_1 flip: z_def)
  moreover have "tl (take (Suc k) hashes @ xs) = take k (tl hashes) @ xs" for xs
    using assms(1) by (cases hashes) simp_all
  ultimately have ints: "take (2 ^ d - 1) ints = tl (tree_level H (2 ^ d) hashes)"
    by (simp only: tree_level_def k(1))
  have "(take (Suc k) hashes @ xs) ! 0 = hashes ! 0" for xs
    using assms(1) by (cases hashes) simp_all
  then have lev: "tree_level H (2 ^ d) hashes ! 0 = hashes ! 0" by (simp only: tree_level_def k(1))
  have lenv: "length (tree_level H (2 ^ d) hashes) = 2 ^ d"
    using d by (simp add: tree_level_def)
  obtain bs where "tree_branch H hashes = bs" "length bs = d"
    "tree_hash_from_branch H bs d (hashes ! 0) None = merkle H d (tree_level H (2 ^ d) hashes)"
    using tree_branch_loop_correct[OF lenv _ ints, of H "[]"] len unfolding tb lev by auto
  then show "length (tree_branch H hashes) = d"
    "tree_hash_from_branch H (tree_branch H hashes) d (hashes ! 0) None = tree_hash H hashes"
    using tree_hash_correct[OF assms(1,2), of H] by (simp_all add: d_def)
qed

section \<open>Properties\<close>

text \<open>
  C16: the array algorithm of \<open>tree_hash\<close> computes the root of the Merkle tree of the reference
  definition: the last leaves hashed in pairs down to a power of two, then complete levels.
\<close>

theorem tree_hash_merkle:
  assumes "0 < length hashes" "length hashes < 2 ^ 64"
  shows "tree_hash H hashes = merkle H (tree_depth (word_of_nat (length hashes)))
    (tree_level H (2 ^ tree_depth (word_of_nat (length hashes))) hashes)"
  by (rule tree_hash_correct[OF assms])

theorem tree_hash_merkle_witness:
  "tree_hash (\<lambda>x. x) [[1], [2], [3]] = [1, 2, 3]"
  using tree_hash_merkle[of "[[1], [2], [3]]" "\<lambda>x. x"]
  by (simp add: tree_depth_def merkle_def tree_level_def)

text \<open>
  C33: a branch proves membership: it has one hash per level, and hashing the first leaf along the
  branch gives the root that \<open>tree_hash\<close> computes of all the leaves.
\<close>

theorem tree_branch_proves:
  assumes "0 < length hashes" "length hashes < 2 ^ 64"
  shows "length (tree_branch H hashes) = tree_depth (word_of_nat (length hashes)) \<and>
    tree_hash_from_branch H (tree_branch H hashes) (tree_depth (word_of_nat (length hashes))) (hashes ! 0) None
      = tree_hash H hashes"
  using tree_branch_correct[OF assms] by simp

theorem tree_branch_proves_witness:
  "length (tree_branch (\<lambda>x. x) [[1], [2], [3]]) = 1 \<and>
    tree_hash_from_branch (\<lambda>x. x) (tree_branch (\<lambda>x. x) [[1], [2], [3]]) 1 [1] None = tree_hash (\<lambda>x. x) [[1], [2], [3]]"
  using tree_branch_proves[of "[[1], [2], [3]]" "\<lambda>x. x"]
  by (simp add: tree_depth_def)

end
