(* ===== verification/Varint.thy ===== *)
theory Varint
  imports Prelude
begin

text \<open>
  Variable-length integers, seven bits per byte, least significant group first, as
  \<open>src/src/Common/Varint.h\<close> writes and reads them. The reader returns the number of bytes consumed
  or a negative code, the accumulated value and the rest of the input.

  \<open>varint\<close> is the reference encoding of a natural number: every writer and reader of the program is
  related to it.
\<close>

section \<open>Definitions\<close>

function varint :: "nat \<Rightarrow> byte list" where
  "varint n = (if n < 128 then [word_of_nat n] else word_of_nat (n mod 128 + 128) # varint (n div 128))"
  by pat_completeness auto
termination by (relation "measure id") auto

declare varint.simps [simp del]

function write_varint :: "u64 \<Rightarrow> byte list" where
  "write_varint i =
    (if i \<ge> 0x80 then ((ucast i AND 0x7f) OR 0x80) # write_varint (drop_bit 7 i) else [ucast i])"
  by pat_completeness auto
termination
  by (relation "measure unat") (auto simp: unat_drop_bit word_le_nat_alt intro!: div_less_dividend)

declare write_varint.simps [simp del]

definition get_varint_data :: "u64 \<Rightarrow> byte list" where
  "get_varint_data v = write_varint v"

fun read_varint_loop :: "nat \<Rightarrow> byte list \<Rightarrow> nat \<Rightarrow> int \<Rightarrow> 'a::len word \<Rightarrow> int \<times> 'a word \<times> byte list" where
  "read_varint_loop bits [] shift rd i = (rd, i, [])"
| "read_varint_loop bits (b # first) shift rd i =
    (if shift + 7 \<ge> bits \<and> unat b \<ge> 2 ^ (bits - shift) then (- 1, i, first)
     else if b = 0 \<and> shift \<noteq> 0 then (- 2, i, first)
     else let i = i OR push_bit shift (ucast (b AND 0x7f)) in
       if b AND 0x80 = 0 then (rd + 1, i, first)
       else read_varint_loop bits first (shift + 7) (rd + 1) i)"

definition read_varint :: "byte list \<Rightarrow> int \<times> 'a::len word \<times> byte list" where
  "read_varint first = read_varint_loop LENGTH('a) first 0 0 0"

section \<open>The reference encoding\<close>

lemma byte_low_bits: "unat ((b::byte) AND 0x7f) = unat b mod 128"
proof -
  have "(0x7f::byte) = mask 7" by (simp add: mask_eq_exp_minus_1)
  then show ?thesis using unat_and_mask[of b 7] by simp
qed

lemma byte_high_bit: "(b::byte) AND 0x80 = 0 \<longleftrightarrow> unat b < 128"
proof -
  have "b AND 0x80 = 0 \<longleftrightarrow> \<not> odd (unat b div 128)"
    using and_exp_eq_0_iff_not_bit[of b 7] bit_unsigned_iff[where ?'a = nat, of b 7]
    by (simp add: bit_iff_odd)
  moreover have "unat b div 128 = of_bool (128 \<le> unat b)"
    using unat_byte_less[of b] by (intro div_of_bool) simp
  ultimately show ?thesis by (simp add: not_le)
qed

lemma byte_or_high: "unat (((b::byte) AND 0x7f) OR 0x80) = unat b mod 128 + 128"
proof -
  have "(b AND 0x7f) AND 0x80 = 0" by (simp add: and.assoc)
  then show ?thesis by (simp add: unat_or_disjoint byte_low_bits)
qed

lemma or_top_bit:
  "LENGTH('a) = Suc n \<Longrightarrow> (w::'a::len word) OR 2 ^ n = (w AND mask n) OR 2 ^ n"
  by (rule bit_word_eqI) (auto simp: bit_simps)

lemma byte_or_high': "unat ((b::byte) OR 0x80) = unat b mod 128 + 128"
proof -
  have "b OR 0x80 = (b AND 0x7f) OR 0x80"
    using or_top_bit[of 7 b] by (simp add: mask_eq_exp_minus_1)
  then show ?thesis by (simp add: byte_or_high)
qed

lemma varint_not_Nil [simp]: "varint n \<noteq> []"
  by (subst varint.simps) simp

lemma write_varint_varint: "write_varint i = varint (unat i)"
proof (induction i rule: write_varint.induct)
  case (1 i)
  show ?case
  proof (cases "0x80 \<le> i")
    case True
    have "(ucast i AND 0x7f) OR 0x80 = (word_of_nat (unat i mod 128 + 128) :: byte)"
      by (rule unsigned_word_eqI[where ?'a = nat])
        (simp add: byte_or_high unat_ucast unat_of_nat mod_mod_cancel del: of_nat_add of_nat_mult)
    then show ?thesis using True 1
      by (subst write_varint.simps, subst varint.simps) (simp add: word_le_nat_alt unat_drop_bit)
  next
    case False
    then show ?thesis
      by (subst write_varint.simps, subst varint.simps)
        (simp add: word_le_nat_alt unsigned_ucast_eq)
  qed
qed

lemma get_varint_data_varint: "get_varint_data v = varint (unat v)"
  by (simp add: get_varint_data_def write_varint_varint)

lemma varint_small: "n < 128 \<Longrightarrow> varint n = [word_of_nat n]"
  by (subst varint.simps) simp

lemma varint_big: "128 \<le> n \<Longrightarrow> varint n = word_of_nat (n mod 128 + 128) # varint (n div 128)"
  by (subst varint.simps) simp

lemma unat_or_push_low:
  fixes i :: "'a::len word"
  assumes "unat i < 2 ^ s" "x * 2 ^ s < 2 ^ LENGTH('a)"
  shows "unat (i OR push_bit s (word_of_nat x)) = unat i + x * 2 ^ s"
proof -
  have "x < 2 ^ LENGTH('a)"
    using assms(2) by (metis (no_types) le_less_trans mult.right_neutral mult_le_mono2 one_le_numeral one_le_power)
  then show ?thesis
    using unat_push_bit_or[OF assms(1), of "word_of_nat x"] assms(2) by (simp add: or.commute unat_of_nat)
qed

end
