(* ===== verification/StreamTools.thy ===== *)
theory StreamTools
  imports Varint
begin

text \<open>
  Byte streams: the memory input stream of \<open>src/src/Common/MemoryInputStream.cpp\<close>, and the reading
  and writing helpers of \<open>src/src/Common/StreamTools.cpp\<close>. An input stream is used through
  \<open>readSome\<close> only, so \<open>read\<close> takes it as an argument; the locale \<open>input_stream\<close> states what an
  implementation promises. An output stream is the list of bytes written so far, and a writer gives
  the bytes it appends.
\<close>

section \<open>Definitions\<close>

record MemoryInputStream =
  buffer :: "byte list"
  position :: nat

definition endOfStream :: "MemoryInputStream \<Rightarrow> bool" where
  "endOfStream s \<longleftrightarrow> position s = length (buffer s)"

definition readSome :: "MemoryInputStream \<Rightarrow> nat \<Rightarrow> byte list \<times> MemoryInputStream" where
  "readSome s sz =
    (let readSize = min sz (length (buffer s) - position s) in
     if readSize > 0
     then (take readSize (drop (position s) (buffer s)), s\<lparr>position := position s + readSize\<rparr>)
     else ([], s))"

datatype stream_error = ReadFailed | ValueOverflow | InvalidRepresentation

text \<open>The loop of \<open>Common::read\<close> over an arbitrary \<open>readSome\<close>.\<close>

function read :: "('s \<Rightarrow> nat \<Rightarrow> byte list \<times> 's) \<Rightarrow> 's \<Rightarrow> nat \<Rightarrow> stream_error + byte list \<times> 's" where
  "read rs inp sz =
    (if sz > 0 then
       let (data, inp) = rs inp sz in
       if data = [] then Inl ReadFailed
       else case read rs inp (sz - length data) of
           Inl e \<Rightarrow> Inl e
         | Inr (tl_data, inp) \<Rightarrow> Inr (data @ tl_data, inp)
     else Inr ([], inp))"
  by pat_completeness auto
termination by (relation "measure (\<lambda>(_, _, sz). sz)") auto

declare read.simps [simp del]

text \<open>
  \<open>readVarint\<close> for the unsigned type \<open>'a\<close>: the four overloads differ in the width only. The
  stream is given by the bytes it still holds.
\<close>

fun readVarint_loop :: "byte list \<Rightarrow> nat \<Rightarrow> 'a::len word \<Rightarrow> stream_error + 'a word \<times> byte list" where
  "readVarint_loop [] shift temp = Inl ReadFailed"
| "readVarint_loop (piece # inp) shift temp =
    (if shift \<ge> LENGTH('a) - 7 \<and> unat piece \<ge> 2 ^ (LENGTH('a) - shift) then Inl ValueOverflow
     else let temp = temp OR push_bit shift (ucast (piece AND 0x7f)) in
       if piece AND 0x80 = 0 then
         if piece = 0 \<and> shift \<noteq> 0 then Inl InvalidRepresentation else Inr (temp, inp)
       else readVarint_loop inp (shift + 7) temp)"

definition readVarint :: "byte list \<Rightarrow> stream_error + 'a::len word \<times> byte list" where
  "readVarint inp = readVarint_loop inp 0 0"

function writeVarint32 :: "u32 \<Rightarrow> byte list" where
  "writeVarint32 value =
    (if value \<ge> 0x80 then ucast (value OR 0x80) # writeVarint32 (drop_bit 7 value) else [ucast value])"
  by pat_completeness auto
termination
  by (relation "measure unat") (auto simp: unat_drop_bit word_le_nat_alt intro!: div_less_dividend)

function writeVarint64 :: "u64 \<Rightarrow> byte list" where
  "writeVarint64 value =
    (if value \<ge> 0x80 then ucast (value OR 0x80) # writeVarint64 (drop_bit 7 value) else [ucast value])"
  by pat_completeness auto
termination
  by (relation "measure unat") (auto simp: unat_drop_bit word_le_nat_alt intro!: div_less_dividend)

declare writeVarint32.simps [simp del] writeVarint64.simps [simp del]

section \<open>Reading through the stream interface\<close>

text \<open>
  What the readers rely on: \<open>readSome\<close> returns a prefix, no longer than asked, of the bytes the
  stream still holds, and returns nothing only when nothing is asked or nothing is left.
\<close>

locale input_stream =
  fixes rs :: "'s \<Rightarrow> nat \<Rightarrow> byte list \<times> 's"
    and remaining :: "'s \<Rightarrow> byte list"
  assumes some_prefix: "rs s n = (d, s') \<Longrightarrow> d @ remaining s' = remaining s"
    and some_length: "rs s n = (d, s') \<Longrightarrow> length d \<le> n"
    and some_progress: "rs s n = ([], s') \<Longrightarrow> n = 0 \<or> remaining s = []"
begin

lemma read_enough:
  "n \<le> length (remaining s) \<Longrightarrow>
    \<exists>s'. read rs s n = Inr (take n (remaining s), s') \<and> remaining s' = drop n (remaining s)"
proof (induction n arbitrary: s rule: less_induct)
  case (less n)
  obtain d s1 where d: "rs s n = (d, s1)" by fastforce
  show ?case
  proof (cases "n = 0")
    case False
    with d less.prems have ne: "d \<noteq> []" using some_progress[of s n] by auto
    have le: "length d \<le> n" and pre: "d @ remaining s1 = remaining s"
      using some_length[OF d] some_prefix[OF d] by auto
    have "n - length d \<le> length (remaining s1)"
      using less.prems by (simp flip: pre)
    then obtain s' where "read rs s1 (n - length d) = Inr (take (n - length d) (remaining s1), s')"
      "remaining s' = drop (n - length d) (remaining s1)"
      using less.IH[of "n - length d" s1] False ne by auto
    then show ?thesis using d ne False le by (subst read.simps) (simp flip: pre)
  qed (subst read.simps, simp)
qed

lemma read_short: "length (remaining s) < n \<Longrightarrow> read rs s n = Inl ReadFailed"
proof (induction n arbitrary: s rule: less_induct)
  case (less n)
  obtain d s1 where d: "rs s n = (d, s1)" by fastforce
  have pre: "d @ remaining s1 = remaining s" using some_prefix[OF d] by auto
  then have "length (remaining s1) < n - length d"
    using less.prems by (metis length_append less_diff_conv add.commute)
  then have "read rs s1 (n - length d) = Inl ReadFailed" if "d \<noteq> []"
    using less.IH[of "n - length d" s1] that less.prems by (cases d) auto
  then show ?case using d less.prems by (subst read.simps) auto
qed

end

definition mis_remaining :: "MemoryInputStream \<Rightarrow> byte list" where
  "mis_remaining s = drop (position s) (buffer s)"

interpretation mis: input_stream readSome mis_remaining
proof
  fix s s' n d assume d: "readSome s n = (d, s')"
  show "d @ mis_remaining s' = mis_remaining s"
    using d by (auto simp: readSome_def mis_remaining_def Let_def split: if_splits)
      (metis add.commute append_take_drop_id drop_drop)
  show "length d \<le> n" using d by (auto simp: readSome_def Let_def split: if_splits)
next
  fix s s' n assume "readSome s n = ([], s')"
  then show "n = 0 \<or> mis_remaining s = []"
    by (auto simp: readSome_def mis_remaining_def Let_def split: if_splits)
qed

section \<open>Varints\<close>

lemma ucast_or_high:
  "ucast ((v::u32) OR 0x80) = (word_of_nat (unat v mod 128 + 128) :: byte)"
  "ucast ((w::u64) OR 0x80) = (word_of_nat (unat w mod 128 + 128) :: byte)"
proof -
  have "(ucast (v OR 0x80) :: byte) = ucast v OR 0x80" "(ucast (w OR 0x80) :: byte) = ucast w OR 0x80"
    by (simp_all add: unsigned_or_eq)
  then show "ucast ((v::u32) OR 0x80) = (word_of_nat (unat v mod 128 + 128) :: byte)"
    "ucast ((w::u64) OR 0x80) = (word_of_nat (unat w mod 128 + 128) :: byte)"
    by (auto intro!: unsigned_word_eqI[where ?'a = nat]
      simp: byte_or_high' unat_ucast unat_of_nat mod_mod_cancel simp del: of_nat_add of_nat_mult)
qed

lemma writeVarint32_varint: "writeVarint32 v = varint (unat v)"
proof (induction v rule: writeVarint32.induct)
  case (1 v)
  then show ?case
    by (subst writeVarint32.simps, cases "0x80 \<le> v")
      (simp_all add: varint_small varint_big word_le_nat_alt unat_drop_bit ucast_or_high unsigned_ucast_eq)
qed

lemma writeVarint64_varint: "writeVarint64 v = varint (unat v)"
proof (induction v rule: writeVarint64.induct)
  case (1 v)
  then show ?case
    by (subst writeVarint64.simps, cases "0x80 \<le> v")
      (simp_all add: varint_small varint_big word_le_nat_alt unat_drop_bit ucast_or_high unsigned_ucast_eq)
qed

lemma low_group_cast: "(ucast ((b::byte) AND 0x7f) :: 'a::len word) = word_of_nat (unat b mod 128)"
  using byte_low_bits[of b] by (metis of_nat_unat)

lemma readVarint_loop_varint:
  fixes temp :: "'a::len word"
  assumes "8 \<le> LENGTH('a)" "unat temp < 2 ^ s" "m * 2 ^ s < 2 ^ LENGTH('a)" "s = 0 \<or> 0 < m"
  shows "readVarint_loop (varint m @ rest) s temp = Inr (word_of_nat (unat temp + m * 2 ^ s), rest)"
  using assms(2-)
proof (induction m arbitrary: s temp rule: varint.induct)
  case (1 m)
  have s: "s < LENGTH('a)"
  proof (cases "s = 0")
    case False
    then have "(2::nat) ^ s < 2 ^ LENGTH('a)"
      using 1(3,4) by (metis le_less_trans mult_1 mult_le_mono1 Suc_leI One_nat_def)
    then show ?thesis by simp
  qed simp
  show ?case
  proof (cases "m < 128")
    case True
    have "\<not> unat (word_of_nat m :: byte) \<ge> 2 ^ (LENGTH('a) - s)"
    proof
      assume "2 ^ (LENGTH('a) - s) \<le> unat (word_of_nat m :: byte)"
      then have "2 ^ (LENGTH('a) - s) * 2 ^ s \<le> m * 2 ^ s" using True by (simp add: unat_of_nat)
      then show False using 1(3) s by (simp flip: power_add)
    qed
    moreover have "(word_of_nat m :: byte) = 0 \<longleftrightarrow> m = 0"
      using True by (simp add: word_unat_eq_iff unat_of_nat)
    moreover have "temp OR push_bit s (word_of_nat m) = word_of_nat (unat temp + m * 2 ^ s)"
      using unat_or_push_low[OF 1(2,3)] by (metis of_nat_unat ucast_id)
    ultimately show ?thesis using True 1(4)
      by (auto simp: varint_small byte_high_bit unat_of_nat low_group_cast Let_def)
  next
    case False
    have "(2::nat) ^ (s + 7) = 128 * 2 ^ s" by (simp add: power_add)
    also have "\<dots> \<le> m * 2 ^ s" using False by simp
    also have "\<dots> < 2 ^ LENGTH('a)" by (rule 1(3))
    finally have "(2::nat) ^ (s + 7) < 2 ^ LENGTH('a)" .
    then have s7: "s + 7 < LENGTH('a)" by simp
    define t where "t = temp OR push_bit s (word_of_nat (m mod 128))"
    have "m mod 128 * 2 ^ s < 2 ^ LENGTH('a)"
      using 1(3) by (metis le_less_trans mod_less_eq_dividend mult_le_mono1)
    then have t: "unat t = unat temp + m mod 128 * 2 ^ s"
      unfolding t_def by (rule unat_or_push_low[OF 1(2)])
    have split: "m div 128 * 2 ^ (s + 7) + m mod 128 * 2 ^ s = m * 2 ^ s"
    proof -
      have "m div 128 * 2 ^ (s + 7) + m mod 128 * 2 ^ s = (m div 128 * 128 + m mod 128) * 2 ^ s"
        unfolding add_mult_distrib by (simp add: power_add)
      then show ?thesis by simp
    qed
    have "unat t < 2 ^ s + 127 * 2 ^ s"
      unfolding t using 1(2) by (intro add_less_le_mono mult_le_mono1) simp_all
    then have t7: "unat t < 2 ^ (s + 7)" by (simp add: power_add)
    have sum: "unat t + m div 128 * 2 ^ (s + 7) = unat temp + m * 2 ^ s" using t split by linarith
    have rec: "readVarint_loop (varint (m div 128) @ rest) (s + 7) t = Inr (word_of_nat (unat temp + m * 2 ^ s), rest)"
      unfolding sum[symmetric] using False split 1(3) by (intro 1(1) t7) (auto simp: div_greater_zero_iff)
    have "\<not> LENGTH('a) - 7 \<le> s" using s7 by linarith
    then show ?thesis using False rec
      by (simp add: varint_big byte_high_bit unat_of_nat low_group_cast Let_def flip: t_def del: of_nat_add of_nat_mult)
  qed
qed

lemma readVarint_loop_canonical:
  fixes temp :: "'a::len word"
  assumes "8 \<le> LENGTH('a)" "unat temp < 2 ^ s" "s < LENGTH('a)"
    "readVarint_loop inp s temp = Inr (v, rest)"
  shows "\<exists>m. inp = varint m @ rest \<and> unat v = unat temp + m * 2 ^ s \<and> (s = 0 \<or> 0 < m)"
  using assms(2-)
proof (induction inp arbitrary: s temp)
  case (Cons b inp)
  define t where "t = temp OR push_bit s (word_of_nat (unat b mod 128))"
  have ok: "\<not> (LENGTH('a) - 7 \<le> s \<and> 2 ^ (LENGTH('a) - s) \<le> unat b)"
    using Cons.prems(3) by (auto split: if_splits)
  show ?case
  proof (cases "unat b < 128")
    case True
    have "unat b * 2 ^ s < 2 ^ LENGTH('a)"
    proof (cases "LENGTH('a) - 7 \<le> s")
      case True
      then have "unat b * 2 ^ s < 2 ^ (LENGTH('a) - s) * 2 ^ s" using ok by simp
      then show ?thesis using Cons.prems(2) by (simp flip: power_add)
    next
      case False
      have "unat b * 2 ^ s < 2 ^ 7 * 2 ^ s" using True by simp
      also have "\<dots> \<le> 2 ^ LENGTH('a)" unfolding power_add[symmetric] using False by (intro power_increasing) auto
      finally show ?thesis .
    qed
    then have "unat t = unat temp + unat b * 2 ^ s"
      using unat_or_push_low[OF Cons.prems(1), of "unat b"] True by (simp add: t_def)
    moreover have "b # inp = varint (unat b) @ rest \<and> v = t \<and> (s = 0 \<or> 0 < unat b)"
      using Cons.prems(3) ok True
      by (auto simp: Let_def low_group_cast byte_high_bit t_def varint_small unat_gt_0 split: if_splits)
    ultimately show ?thesis by blast
  next
    case False
    have s7: "s + 7 < LENGTH('a)"
    proof (rule ccontr)
      assume "\<not> ?thesis"
      then have "(2::nat) ^ (LENGTH('a) - s) \<le> 2 ^ 7" using Cons.prems(2) by (intro power_increasing) auto
      then show False using ok \<open>\<not> s + 7 < LENGTH('a)\<close> False assms(1) by auto
    qed
    have "unat b mod 128 * 2 ^ s < 2 ^ 7 * 2 ^ s" by simp
    also have "\<dots> < 2 ^ LENGTH('a)" unfolding power_add[symmetric] using s7 by (intro power_strict_increasing) auto
    finally have t: "unat t = unat temp + unat b mod 128 * 2 ^ s"
      unfolding t_def by (rule unat_or_push_low[OF Cons.prems(1)])
    have "unat t < 2 ^ s + 127 * 2 ^ s"
      unfolding t using Cons.prems(1) by (intro add_less_le_mono mult_le_mono1) simp_all
    then have t7: "unat t < 2 ^ (s + 7)" by (simp add: power_add)
    have "readVarint_loop inp (s + 7) t = Inr (v, rest)"
      using Cons.prems(3) ok False by (auto simp: Let_def low_group_cast byte_high_bit t_def split: if_splits)
    then obtain m where m: "inp = varint m @ rest" "unat v = unat t + m * 2 ^ (s + 7)" "0 < m"
      using Cons.IH[OF t7 s7] by auto
    have b: "unat b = unat b mod 128 + 128"
      using unat_byte_less[of b] False mod_nat_eqI[of "unat b - 128" 128 "unat b"] by auto
    define k where "k = unat b mod 128 + 128 * m"
    have "k mod 128 = unat b mod 128" "k div 128 = m" "128 \<le> k" using m(3) by (simp_all add: k_def)
    then have "varint k = b # varint m" using b by (metis varint_big of_nat_unat ucast_id)
    moreover have "unat v = unat temp + k * 2 ^ s"
      using m(2) t by (simp add: k_def power_add algebra_simps)
    ultimately show ?thesis using m \<open>128 \<le> k\<close> by (intro exI[of _ k]) auto
  qed
qed simp

lemma readVarint_correct:
  fixes v :: "'a::len word"
  assumes "8 \<le> LENGTH('a)"
  shows "readVarint inp = Inr (v, rest) \<longleftrightarrow> inp = varint (unat v) @ rest"
proof
  assume "readVarint inp = Inr (v, rest)"
  then show "inp = varint (unat v) @ rest"
    using readVarint_loop_canonical[OF assms, of 0 0 inp v rest] by (auto simp: readVarint_def)
next
  assume "inp = varint (unat v) @ rest"
  then show "readVarint inp = Inr (v, rest)"
    using readVarint_loop_varint[OF assms, of 0 0 "unat v" rest] unat_less[of v] by (simp add: readVarint_def)
qed

lemma read_varint_loop_readVarint_loop:
  fixes i :: "'a::len word"
  assumes "8 \<le> LENGTH('a)"
  shows "case readVarint_loop inp s i of
      Inr (v, rest) \<Rightarrow> read_varint_loop LENGTH('a) inp s rd i = (rd + int (length inp) - int (length rest), v, rest)
    | Inl ReadFailed \<Rightarrow> fst (read_varint_loop LENGTH('a) inp s rd i) = rd + int (length inp)
    | Inl ValueOverflow \<Rightarrow> fst (read_varint_loop LENGTH('a) inp s rd i) = - 1
    | Inl InvalidRepresentation \<Rightarrow> fst (read_varint_loop LENGTH('a) inp s rd i) = - 2"
proof (induction inp arbitrary: s i rd)
  case (Cons b inp)
  have "LENGTH('a) \<le> s + 7 \<longleftrightarrow> LENGTH('a) - 7 \<le> s" using assms by linarith
  moreover have "b = 0 \<Longrightarrow> b AND 0x80 = 0" by simp
  ultimately show ?case
    using Cons.IH[of "s + 7" "rd + 1" "i OR push_bit s (ucast (b AND 0x7f))"]
    by (auto simp: Let_def split: sum.splits stream_error.splits)
qed simp

section \<open>Properties\<close>

text \<open>
  C32: reading a 64-bit varint is the exact inverse of writing one: the reader succeeds on an input
  if and only if the input begins with the bytes the writer produces for the value returned, and
  then it leaves the rest. So the encoding is canonical: no other byte sequence is accepted.
\<close>

theorem readVarint_exact:
  "readVarint inp = Inr (v :: u64, rest) \<longleftrightarrow> inp = writeVarint64 v @ rest"
  by (simp add: readVarint_correct writeVarint64_varint)

text \<open>
  The two varint readers of the program agree on every input except one that ends inside a
  number: \<open>readVarint\<close> fails there, \<open>read_varint\<close> reports the bytes it saw as if they were a value.
\<close>

theorem varint_readers_agree:
  "case (readVarint inp :: stream_error + u64 \<times> byte list) of
      Inr (v, rest) \<Rightarrow> read_varint inp = (int (length inp) - int (length rest), v, rest)
    | Inl ReadFailed \<Rightarrow> fst (read_varint inp :: int \<times> u64 \<times> byte list) = int (length inp)
    | Inl ValueOverflow \<Rightarrow> fst (read_varint inp :: int \<times> u64 \<times> byte list) = - 1
    | Inl InvalidRepresentation \<Rightarrow> fst (read_varint inp :: int \<times> u64 \<times> byte list) = - 2"
  using read_varint_loop_readVarint_loop[where ?'a = 64, of inp 0 0 0]
  by (auto simp: readVarint_def read_varint_def split: sum.splits stream_error.splits)

text \<open>
  Reading \<open>n\<close> bytes from a memory stream returns the next \<open>n\<close> bytes and leaves the others, or
  fails, and fails only when fewer than \<open>n\<close> bytes are left.
\<close>

theorem memory_read:
  "case read readSome s n of
      Inr (data, s') \<Rightarrow> n \<le> length (mis_remaining s) \<and> data = take n (mis_remaining s)
        \<and> mis_remaining s' = drop n (mis_remaining s)
    | Inl e \<Rightarrow> e = ReadFailed \<and> length (mis_remaining s) < n"
  using mis.read_enough[of n s] mis.read_short[of s n] by (cases "n \<le> length (mis_remaining s)") auto

end
