(* ===== verification/Serialization.thy ===== *)
theory Serialization
  imports StreamTools
begin

text \<open>
  The binary serializers of \<open>src/src/Serialization/BinaryOutputStreamSerializer.cpp\<close> and
  \<open>BinaryInputStreamSerializer.cpp\<close>, and the container overloads of
  \<open>src/src/Serialization/SerializationOverloads.h\<close>. One C++ function \<open>serialize\<close> drives both
  directions; here it is a writer, which gives the bytes or \<open>None\<close> for an exception, and a reader,
  which gives the value and the rest of the input or \<open>None\<close> for an exception.

  The locale \<open>codec\<close> is the contract between the two: the reader accepts exactly the inputs that
  start with what the writer produces for a well-formed value.
\<close>

section \<open>Definitions\<close>

definition opt_res :: "stream_error + 'a \<Rightarrow> 'a option" where
  "opt_res r = (case r of Inl e \<Rightarrow> None | Inr x \<Rightarrow> Some x)"

definition bos_beginArray :: "nat \<Rightarrow> byte list" where
  "bos_beginArray n = writeVarint64 (word_of_nat n)"

definition bos_uint8 :: "u8 \<Rightarrow> byte list" where
  "bos_uint8 value = writeVarint64 (ucast value)"

definition bos_uint16 :: "u16 \<Rightarrow> byte list" where
  "bos_uint16 value = writeVarint64 (ucast value)"

definition bos_uint32 :: "u32 \<Rightarrow> byte list" where
  "bos_uint32 value = writeVarint64 (ucast value)"

definition bos_uint64 :: "u64 \<Rightarrow> byte list" where
  "bos_uint64 value = writeVarint64 value"

definition bos_bool :: "bool \<Rightarrow> byte list" where
  "bos_bool value = [of_bool value]"

definition bos_string :: "byte list \<Rightarrow> byte list" where
  "bos_string value = writeVarint64 (word_of_nat (length value)) @ value"

definition bos_binary :: "byte list \<Rightarrow> byte list" where
  "bos_binary value = value"

definition bis_beginArray :: "byte list \<Rightarrow> (nat \<times> byte list) option" where
  "bis_beginArray inp = do { (n :: u64, inp) \<leftarrow> opt_res (readVarint inp); Some (unat n, inp) }"

definition bis_uint8 :: "byte list \<Rightarrow> (u8 \<times> byte list) option" where
  "bis_uint8 inp = opt_res (readVarint inp)"

definition bis_uint16 :: "byte list \<Rightarrow> (u16 \<times> byte list) option" where
  "bis_uint16 inp = opt_res (readVarint inp)"

definition bis_uint32 :: "byte list \<Rightarrow> (u32 \<times> byte list) option" where
  "bis_uint32 inp = opt_res (readVarint inp)"

definition bis_uint64 :: "byte list \<Rightarrow> (u64 \<times> byte list) option" where
  "bis_uint64 inp = opt_res (readVarint inp)"

definition bis_binary :: "nat \<Rightarrow> byte list \<Rightarrow> (byte list \<times> byte list) option" where
  "bis_binary n inp = (if n \<le> length inp then Some (take n inp, drop n inp) else None)"

definition bis_bool :: "byte list \<Rightarrow> (bool \<times> byte list) option" where
  "bis_bool inp = do { (b, inp) \<leftarrow> bis_binary 1 inp; Some (b \<noteq> [0], inp) }"

definition bis_string :: "byte list \<Rightarrow> (byte list \<times> byte list) option" where
  "bis_string inp = do {
     (n :: u64, inp) \<leftarrow> opt_res (readVarint inp);
     if n > 0 then bis_binary (unat n) inp else Some ([], inp) }"

fun write_items :: "('a \<Rightarrow> byte list option) \<Rightarrow> 'a list \<Rightarrow> byte list option" where
  "write_items w [] = Some []"
| "write_items w (x # xs) = do { b \<leftarrow> w x; bs \<leftarrow> write_items w xs; Some (b @ bs) }"

fun read_items :: "(byte list \<Rightarrow> ('a \<times> byte list) option) \<Rightarrow> nat \<Rightarrow> byte list \<Rightarrow> ('a list \<times> byte list) option" where
  "read_items rd 0 inp = Some ([], inp)"
| "read_items rd (Suc n) inp = do { (x, inp) \<leftarrow> rd inp; (xs, inp) \<leftarrow> read_items rd n inp; Some (x # xs, inp) }"

definition write_container :: "('a \<Rightarrow> byte list option) \<Rightarrow> 'a list \<Rightarrow> byte list option" where
  "write_container w value = do { bs \<leftarrow> write_items w value; Some (bos_beginArray (length value) @ bs) }"

definition read_container :: "(byte list \<Rightarrow> ('a \<times> byte list) option) \<Rightarrow> byte list \<Rightarrow> ('a list \<times> byte list) option" where
  "read_container rd inp = do { (n, inp) \<leftarrow> bis_beginArray inp; read_items rd n inp }"

definition write_as_binary :: "byte list \<Rightarrow> byte list option" where
  "write_as_binary value = Some (bos_string value)"

definition read_as_binary :: "byte list \<Rightarrow> (byte list \<times> byte list) option" where
  "read_as_binary inp = bis_string inp"

section \<open>The contract of a serializable type\<close>

locale codec =
  fixes w :: "'a \<Rightarrow> byte list option"
    and rd :: "byte list \<Rightarrow> ('a \<times> byte list) option"
    and wf :: "'a \<Rightarrow> bool"
  assumes read_iff: "rd inp = Some (x, r) \<longleftrightarrow> wf x \<and> (\<exists>bs. w x = Some bs \<and> inp = bs @ r)"
begin

lemma roundtrip: "wf x \<Longrightarrow> w x = Some bs \<Longrightarrow> rd (bs @ r) = Some (x, r)"
  by (auto simp: read_iff)

lemma prefix_free:
  "wf x \<Longrightarrow> wf y \<Longrightarrow> w x = Some bs \<Longrightarrow> w y = Some cs \<Longrightarrow> bs @ r = cs @ s \<Longrightarrow> x = y \<and> r = s"
  using roundtrip[of x bs r] roundtrip[of y cs s] by simp

lemma read_items_iff:
  "read_items rd n inp = Some (xs, r) \<longleftrightarrow>
    length xs = n \<and> list_all wf xs \<and> (\<exists>bs. write_items w xs = Some bs \<and> inp = bs @ r)"
proof (induction n arbitrary: inp xs)
  case (Suc n)
  show ?case
  proof (cases xs)
    case (Cons y ys)
    have "read_items rd (Suc n) inp = Some (y # ys, r) \<longleftrightarrow>
        (\<exists>inp'. rd inp = Some (y, inp') \<and> read_items rd n inp' = Some (ys, r))"
      by (auto split: bind_splits)
    then show ?thesis unfolding Cons by (auto simp: Suc read_iff split: bind_splits)
  qed (auto split: bind_splits)
qed auto

end

lemma opt_res_simps [simp]:
  "opt_res (Inr x) = Some x" "opt_res (Inl e) = None" "opt_res r = Some x \<longleftrightarrow> r = Inr x"
  by (cases r; simp add: opt_res_def)+

lemma bis_beginArray_iff:
  "bis_beginArray inp = Some (n, r) \<longleftrightarrow> n < 2 ^ 64 \<and> inp = bos_beginArray n @ r"
proof
  assume "bis_beginArray inp = Some (n, r)"
  then obtain m :: u64 where "readVarint inp = Inr (m, r)" "n = unat m"
    by (auto simp: bis_beginArray_def split: bind_splits)
  then show "n < 2 ^ 64 \<and> inp = bos_beginArray n @ r"
    using unat_less[of m] by (simp add: readVarint_correct bos_beginArray_def writeVarint64_varint)
next
  assume n: "n < 2 ^ 64 \<and> inp = bos_beginArray n @ r"
  then have "readVarint inp = Inr (word_of_nat n :: u64, r)"
    by (simp add: readVarint_correct bos_beginArray_def writeVarint64_varint)
  then show "bis_beginArray inp = Some (n, r)"
    using n by (simp add: bis_beginArray_def unat_of_nat)
qed

context codec
begin

lemma codec_container:
  "codec (write_container w) (read_container rd) (\<lambda>xs. length xs < 2 ^ 64 \<and> list_all wf xs)"
proof
  fix inp xs r
  have "read_container rd inp = Some (xs, r) \<longleftrightarrow>
      (\<exists>n inp'. bis_beginArray inp = Some (n, inp') \<and> read_items rd n inp' = Some (xs, r))"
    by (auto simp: read_container_def split: bind_splits)
  then show "read_container rd inp = Some (xs, r) \<longleftrightarrow> (length xs < 2 ^ 64 \<and> list_all wf xs) \<and>
      (\<exists>bs. write_container w xs = Some bs \<and> inp = bs @ r)"
    by (auto simp: bis_beginArray_iff read_items_iff write_container_def split: bind_splits)
qed

end

section \<open>The primitive codecs\<close>

abbreviation (input) total :: "('a \<Rightarrow> byte list) \<Rightarrow> 'a \<Rightarrow> byte list option" where
  "total w \<equiv> \<lambda>x. Some (w x)"

interpretation c_u8: codec "total bos_uint8" bis_uint8 "\<lambda>_. True"
  by unfold_locales (simp add: bis_uint8_def bos_uint8_def readVarint_correct writeVarint64_varint unat_ucast_up)

interpretation c_u16: codec "total bos_uint16" bis_uint16 "\<lambda>_. True"
  by unfold_locales (simp add: bis_uint16_def bos_uint16_def readVarint_correct writeVarint64_varint unat_ucast_up)

interpretation c_u32: codec "total bos_uint32" bis_uint32 "\<lambda>_. True"
  by unfold_locales (simp add: bis_uint32_def bos_uint32_def readVarint_correct writeVarint64_varint unat_ucast_up)

interpretation c_u64: codec "total bos_uint64" bis_uint64 "\<lambda>_. True"
  by unfold_locales (simp add: bis_uint64_def bos_uint64_def readVarint_correct writeVarint64_varint)

lemma bis_binary_iff: "bis_binary n inp = Some (x, r) \<longleftrightarrow> length x = n \<and> inp = x @ r"
  by (auto simp: bis_binary_def)

interpretation c_pod32: codec "total bos_binary" "bis_binary 32" "\<lambda>x. length x = 32"
  by unfold_locales (simp add: bis_binary_iff bos_binary_def)

interpretation c_pod64: codec "total bos_binary" "bis_binary 64" "\<lambda>x. length x = 64"
  by unfold_locales (simp add: bis_binary_iff bos_binary_def)

interpretation c_string: codec "total bos_string" bis_string "\<lambda>x. length x < 2 ^ 64"
proof
  fix inp x r
  have "bis_string inp = Some (x, r) \<longleftrightarrow> (\<exists>m::u64. \<exists>inp'. readVarint inp = Inr (m, inp') \<and> 
      bis_binary (unat m) inp' = Some (x, r))"
    by (auto simp: bis_string_def bis_binary_iff word_gt_0 unat_eq_0 split: bind_splits if_splits)
  also have "\<dots> \<longleftrightarrow> (\<exists>m::u64. unat m = length x \<and> inp = varint (length x) @ x @ r)"
    by (auto simp: readVarint_correct bis_binary_iff) metis
  also have "\<dots> \<longleftrightarrow> length x < 2 ^ 64 \<and> inp = varint (length x) @ x @ r"
    using unat_less[where 'a = 64] by (auto intro!: exI[of _ "word_of_nat (length x)"] simp: unat_of_nat) (metis len_num1)
  finally show "bis_string inp = Some (x, r) \<longleftrightarrow> length x < 2 ^ 64 \<and>
      (\<exists>bs. Some (bos_string x) = Some bs \<and> inp = bs @ r)"
    by (auto simp: bos_string_def writeVarint64_varint unat_of_nat)
qed

end
