(* ===== verification/DynexCNSerialization.thy ===== *)
theory DynexCNSerialization
  imports Serialization DynexCNTypes
begin

text \<open>
  The binary format of transactions, \<open>src/src/DynexCNCore/DynexCNSerialization.cpp\<close>. Each
  \<open>serialize\<close> overload is a writer and a reader; every exception is \<open>None\<close>.
\<close>

section \<open>Definitions\<close>

fun getSignaturesCount :: "TransactionInput \<Rightarrow> nat" where
  "getSignaturesCount (BaseInput i) = 0"
| "getSignaturesCount (KeyInput a idx ki) = length idx"
| "getSignaturesCount (MultisignatureInput a c i) = unat c"

fun BinaryVariantTag_input :: "TransactionInput \<Rightarrow> u8" where
  "BinaryVariantTag_input (BaseInput i) = 0xff"
| "BinaryVariantTag_input (KeyInput a idx ki) = 0x2"
| "BinaryVariantTag_input (MultisignatureInput a c i) = 0x3"

fun BinaryVariantTag_target :: "TransactionOutputTarget \<Rightarrow> u8" where
  "BinaryVariantTag_target (KeyOutput k) = 0x2"
| "BinaryVariantTag_target (MultisignatureOutput ks n) = 0x3"

definition write_varint_vector :: "u32 list \<Rightarrow> byte list option" where
  "write_varint_vector v = do {
     bs \<leftarrow> write_items (\<lambda>x. Some (bos_uint32 x)) v;
     Some (bos_beginArray (length v) @ bs) }"

definition read_varint_vector :: "byte list \<Rightarrow> (u32 list \<times> byte list) option" where
  "read_varint_vector inp = do { (n, inp) \<leftarrow> bis_beginArray inp; read_items bis_uint32 n inp }"

fun write_TransactionInput :: "TransactionInput \<Rightarrow> byte list option" where
  "write_TransactionInput (BaseInput blockIndex) =
    Some (bos_binary [BinaryVariantTag_input (BaseInput blockIndex)] @ bos_uint32 blockIndex)"
| "write_TransactionInput (KeyInput amount outputIndexes keyImage) = do {
     idx \<leftarrow> write_varint_vector outputIndexes;
     Some (bos_binary [BinaryVariantTag_input (KeyInput amount outputIndexes keyImage)]
       @ bos_uint64 amount @ idx @ bos_binary keyImage) }"
| "write_TransactionInput (MultisignatureInput amount signatureCount outputIndex) =
    Some (bos_binary [BinaryVariantTag_input (MultisignatureInput amount signatureCount outputIndex)]
      @ bos_uint64 amount @ bos_uint8 signatureCount @ bos_uint32 outputIndex)"

definition read_BaseInput :: "byte list \<Rightarrow> (TransactionInput \<times> byte list) option" where
  "read_BaseInput inp = do { (i, inp) \<leftarrow> bis_uint32 inp; Some (BaseInput i, inp) }"

definition read_KeyInput :: "byte list \<Rightarrow> (TransactionInput \<times> byte list) option" where
  "read_KeyInput inp = do {
     (amount, inp) \<leftarrow> bis_uint64 inp;
     (outputIndexes, inp) \<leftarrow> read_varint_vector inp;
     (keyImage, inp) \<leftarrow> bis_binary 32 inp;
     Some (KeyInput amount outputIndexes keyImage, inp) }"

definition read_MultisignatureInput :: "byte list \<Rightarrow> (TransactionInput \<times> byte list) option" where
  "read_MultisignatureInput inp = do {
     (amount, inp) \<leftarrow> bis_uint64 inp;
     (signatureCount, inp) \<leftarrow> bis_uint8 inp;
     (outputIndex, inp) \<leftarrow> bis_uint32 inp;
     Some (MultisignatureInput amount signatureCount outputIndex, inp) }"

definition getVariantValue_input :: "u8 \<Rightarrow> byte list \<Rightarrow> (TransactionInput \<times> byte list) option" where
  "getVariantValue_input tag inp =
    (if tag = 0xff then read_BaseInput inp
     else if tag = 0x2 then read_KeyInput inp
     else if tag = 0x3 then read_MultisignatureInput inp
     else None)"

definition read_TransactionInput :: "byte list \<Rightarrow> (TransactionInput \<times> byte list) option" where
  "read_TransactionInput inp = do { (tag, inp) \<leftarrow> bis_binary 1 inp; getVariantValue_input (hd tag) inp }"

fun write_target :: "TransactionOutputTarget \<Rightarrow> byte list option" where
  "write_target (KeyOutput key) =
    Some (bos_binary [BinaryVariantTag_target (KeyOutput key)] @ bos_binary key)"
| "write_target (MultisignatureOutput keys n) = do {
     ks \<leftarrow> write_container (\<lambda>k. Some (bos_binary k)) keys;
     Some (bos_binary [BinaryVariantTag_target (MultisignatureOutput keys n)] @ ks @ bos_uint8 n) }"

definition read_KeyOutput :: "byte list \<Rightarrow> (TransactionOutputTarget \<times> byte list) option" where
  "read_KeyOutput inp = do { (key, inp) \<leftarrow> bis_binary 32 inp; Some (KeyOutput key, inp) }"

definition read_MultisignatureOutput :: "byte list \<Rightarrow> (TransactionOutputTarget \<times> byte list) option" where
  "read_MultisignatureOutput inp = do {
     (keys, inp) \<leftarrow> read_container (bis_binary 32) inp;
     (n, inp) \<leftarrow> bis_uint8 inp;
     Some (MultisignatureOutput keys n, inp) }"

definition getVariantValue_target :: "u8 \<Rightarrow> byte list \<Rightarrow> (TransactionOutputTarget \<times> byte list) option" where
  "getVariantValue_target tag inp =
    (if tag = 0x2 then read_KeyOutput inp
     else if tag = 0x3 then read_MultisignatureOutput inp
     else None)"

definition read_target :: "byte list \<Rightarrow> (TransactionOutputTarget \<times> byte list) option" where
  "read_target inp = do { (tag, inp) \<leftarrow> bis_binary 1 inp; getVariantValue_target (hd tag) inp }"

definition write_TransactionOutput :: "TransactionOutput \<Rightarrow> byte list option" where
  "write_TransactionOutput out = do {
     t \<leftarrow> write_target (out_target out);
     Some (bos_uint64 (out_amount out) @ t) }"

definition read_TransactionOutput :: "byte list \<Rightarrow> (TransactionOutput \<times> byte list) option" where
  "read_TransactionOutput inp = do {
     (amount, inp) \<leftarrow> bis_uint64 inp;
     (t, inp) \<leftarrow> read_target inp;
     Some (\<lparr>out_amount = amount, out_target = t\<rparr>, inp) }"

definition write_TransactionPrefix :: "'a TransactionPrefix_scheme \<Rightarrow> byte list option" where
  "write_TransactionPrefix txP =
    (if CURRENT_TRANSACTION_VERSION < tx_version txP then None
     else do {
       vin \<leftarrow> write_container write_TransactionInput (tx_inputs txP);
       vout \<leftarrow> write_container write_TransactionOutput (tx_outputs txP);
       ex \<leftarrow> write_as_binary (tx_extra txP);
       Some (bos_uint8 (tx_version txP) @ bos_uint64 (tx_unlockTime txP) @ vin @ vout @ ex) })"

definition read_TransactionPrefix :: "byte list \<Rightarrow> (TransactionPrefix \<times> byte list) option" where
  "read_TransactionPrefix inp = do {
     (version, inp) \<leftarrow> bis_uint8 inp;
     if CURRENT_TRANSACTION_VERSION < version then None
     else do {
       (unlockTime, inp) \<leftarrow> bis_uint64 inp;
       (vin, inp) \<leftarrow> read_container read_TransactionInput inp;
       (vout, inp) \<leftarrow> read_container read_TransactionOutput inp;
       (ex, inp) \<leftarrow> read_as_binary inp;
       Some (\<lparr>tx_version = version, tx_unlockTime = unlockTime, tx_inputs = vin, tx_outputs = vout,
         tx_extra = ex\<rparr>, inp) } }"

text \<open>The loop over the inputs that writes, or reads, one signature list per input.\<close>

fun write_signatures :: "bool \<Rightarrow> TransactionInput list \<Rightarrow> Signature list list \<Rightarrow> byte list option" where
  "write_signatures notExpected [] sigs = Some []"
| "write_signatures notExpected (i # ins) sigs =
    (if notExpected then
       if getSignaturesCount i = 0 then write_signatures notExpected ins (tl sigs) else None
     else if getSignaturesCount i \<noteq> length (hd sigs) then None
     else do {
       bs \<leftarrow> write_items (\<lambda>s. Some (bos_binary s)) (hd sigs);
       cs \<leftarrow> write_signatures notExpected ins (tl sigs);
       Some (bs @ cs) })"

definition write_Transaction :: "Transaction \<Rightarrow> byte list option" where
  "write_Transaction tx = do {
     p \<leftarrow> write_TransactionPrefix tx;
     let notExpected = tx_signatures tx = [];
     if \<not> notExpected \<and> length (tx_inputs tx) \<noteq> length (tx_signatures tx) then None
     else do {
       s \<leftarrow> write_signatures notExpected (tx_inputs tx) (tx_signatures tx);
       Some (p @ s) } }"

fun read_signatures :: "bool \<Rightarrow> TransactionInput list \<Rightarrow> byte list \<Rightarrow> (Signature list list \<times> byte list) option" where
  "read_signatures notExpected [] inp = Some ([], inp)"
| "read_signatures notExpected (i # ins) inp =
    (if notExpected then
       if getSignaturesCount i = 0 then read_signatures notExpected ins inp else None
     else do {
       (sigs, inp) \<leftarrow> read_items (bis_binary 64) (getSignaturesCount i) inp;
       (rest, inp) \<leftarrow> read_signatures notExpected ins inp;
       Some (sigs # rest, inp) })"

text \<open>
  Reading into a fresh transaction. \<open>signatures\<close> is resized to the number of inputs unless the
  only input is a \<open>BaseInput\<close>; with no input or a single \<open>BaseInput\<close> it stays empty.
\<close>

definition read_Transaction :: "byte list \<Rightarrow> (Transaction \<times> byte list) option" where
  "read_Transaction inp = do {
     (p, inp) \<leftarrow> read_TransactionPrefix inp;
     let notExpected = is_base_only (tx_inputs p) \<or> tx_inputs p = [];
     (sigs, inp) \<leftarrow> read_signatures notExpected (tx_inputs p) inp;
     Some (TransactionPrefix.extend p (Transaction.fields sigs), inp) }"

section \<open>Inputs and outputs\<close>

interpretation c_u32_vector: codec write_varint_vector read_varint_vector
  "\<lambda>v. length v < 2 ^ 64 \<and> list_all (\<lambda>_. True) v"
  using c_u32.codec_container
  unfolding write_container_def read_container_def
    write_varint_vector_def[abs_def, symmetric] read_varint_vector_def[abs_def, symmetric] .

lemmas codec_iffs = bind_eq_Some_conv bis_binary_iff c_u8.read_iff c_u16.read_iff c_u32.read_iff
  c_u64.read_iff c_u32_vector.read_iff c_string.read_iff

lemma length_1_iff: "length xs = Suc 0 \<longleftrightarrow> (\<exists>x. xs = [x])"
  by (cases xs) auto

lemma tag_read_iff:
  "(bis_binary 1 inp \<bind> (\<lambda>(tag, inp). f (hd tag) inp)) = Some y 
    \<longleftrightarrow> (case inp of [] \<Rightarrow> False | tag # inp' \<Rightarrow> f tag inp' = Some y)"
  by (cases inp) (auto simp: bis_binary_def)

lemma read_KeyInput_iff:
  "read_KeyInput inp = Some (x, r) \<longleftrightarrow> wf_input x \<and> (\<exists>bs. write_TransactionInput x = Some (0x2 # bs) \<and> inp = bs @ r \<and> is_KeyInput x)"
  by (cases x) (auto simp: read_KeyInput_def codec_iffs bos_binary_def list.pred_True)

lemma read_BaseInput_iff:
  "read_BaseInput inp = Some (x, r) \<longleftrightarrow> (\<exists>bs. write_TransactionInput x = Some (0xff # bs) \<and> inp = bs @ r \<and> is_BaseInput x)"
  by (cases x) (auto simp: read_BaseInput_def codec_iffs bos_binary_def)

lemma read_MultisignatureInput_iff:
  "read_MultisignatureInput inp = Some (x, r) \<longleftrightarrow> (\<exists>bs. write_TransactionInput x = Some (0x3 # bs) \<and> inp = bs @ r \<and> is_MultisignatureInput x)"
  by (cases x) (auto simp: read_MultisignatureInput_def codec_iffs bos_binary_def)

interpretation c_input: codec write_TransactionInput read_TransactionInput wf_input
proof
  fix inp x r
  show "read_TransactionInput inp = Some (x, r) \<longleftrightarrow>
      wf_input x \<and> (\<exists>bs. write_TransactionInput x = Some bs \<and> inp = bs @ r)"
    unfolding read_TransactionInput_def tag_read_iff getVariantValue_input_def
    by (cases x; cases inp) (auto simp: read_KeyInput_iff read_BaseInput_iff read_MultisignatureInput_iff bos_binary_def bind_eq_Some_conv split: if_splits)
qed


interpretation c_pod32_vector: codec "write_container (\<lambda>k. Some (bos_binary k))" "read_container (bis_binary 32)"
  "\<lambda>v. length v < 2 ^ 64 \<and> list_all (\<lambda>x. length x = 32) v"
  by (rule c_pod32.codec_container)

lemma read_KeyOutput_iff:
  "read_KeyOutput inp = Some (x, r) \<longleftrightarrow> wf_target x \<and> (\<exists>bs. write_target x = Some (0x2 # bs) \<and> inp = bs @ r \<and> is_KeyOutput x)"
  by (cases x) (auto simp: read_KeyOutput_def codec_iffs bos_binary_def)

lemma read_MultisignatureOutput_iff:
  "read_MultisignatureOutput inp = Some (x, r) \<longleftrightarrow>
    wf_target x \<and> (\<exists>bs. write_target x = Some (0x3 # bs) \<and> inp = bs @ r \<and> \<not> is_KeyOutput x)"
  by (cases x) (auto simp: read_MultisignatureOutput_def codec_iffs c_pod32_vector.read_iff bos_binary_def)

interpretation c_target: codec write_target read_target wf_target
proof
  fix inp x r
  show "read_target inp = Some (x, r) \<longleftrightarrow>
      wf_target x \<and> (\<exists>bs. write_target x = Some bs \<and> inp = bs @ r)"
    unfolding read_target_def tag_read_iff getVariantValue_target_def
    by (cases x; cases inp) (auto simp: read_KeyOutput_iff read_MultisignatureOutput_iff bos_binary_def bind_eq_Some_conv split: if_splits)
qed

interpretation c_output: codec write_TransactionOutput read_TransactionOutput wf_output
proof
  fix inp r and x :: TransactionOutput
  show "read_TransactionOutput inp = Some (x, r) \<longleftrightarrow>
      wf_output x \<and> (\<exists>bs. write_TransactionOutput x = Some bs \<and> inp = bs @ r)"
    by (cases x) (auto simp: read_TransactionOutput_def write_TransactionOutput_def wf_output_def codec_iffs c_target.read_iff)
qed

section \<open>Transactions\<close>

interpretation c_inputs: codec "write_container write_TransactionInput" "read_container read_TransactionInput"
  "\<lambda>v. length v < 2 ^ 64 \<and> list_all wf_input v"
  by (rule c_input.codec_container)

interpretation c_outputs: codec "write_container write_TransactionOutput" "read_container read_TransactionOutput"
  "\<lambda>v. length v < 2 ^ 64 \<and> list_all wf_output v"
  by (rule c_output.codec_container)

interpretation c_prefix: codec write_TransactionPrefix read_TransactionPrefix wf_prefix
proof
  fix inp r and x :: TransactionPrefix
  show "read_TransactionPrefix inp = Some (x, r) \<longleftrightarrow>
      wf_prefix x \<and> (\<exists>bs. write_TransactionPrefix x = Some bs \<and> inp = bs @ r)"
    by (cases x) (auto simp: read_TransactionPrefix_def write_TransactionPrefix_def wf_prefix_def codec_iffs
      c_inputs.read_iff c_outputs.read_iff read_as_binary_def write_as_binary_def split: if_splits)
qed

lemma read_signatures_iff:
  "read_signatures False ins inp = Some (sigs, r) \<longleftrightarrow> length sigs = length ins \<and> list_all (list_all (\<lambda>s. length s = 64)) sigs
    \<and> (\<exists>bs. write_signatures False ins sigs = Some bs \<and> inp = bs @ r)"
proof (induction ins arbitrary: inp sigs)
  case (Cons i ins)
  show ?case
    by (cases sigs) (auto simp: bind_eq_Some_conv Cons c_pod64.read_items_iff)
qed auto

lemma read_signatures_none:
  "is_base_only ins \<or> ins = [] \<Longrightarrow> read_signatures True ins inp = Some (sigs, r) \<longleftrightarrow> sigs = [] \<and> inp = r"
  by (auto simp: is_base_only_def split: list.splits TransactionInput.splits)

lemma write_signatures_none:
  "is_base_only ins \<or> ins = [] \<Longrightarrow> write_signatures True ins sigs = Some []"
  by (auto simp: is_base_only_def split: list.splits TransactionInput.splits)

lemma write_TransactionPrefix_truncate:
  "write_TransactionPrefix (TransactionPrefix.truncate x) = write_TransactionPrefix x"
  by (simp add: write_TransactionPrefix_def TransactionPrefix.defs)

lemma extend_prefix_iff:
  "TransactionPrefix.extend p (Transaction.fields sigs) = x \<longleftrightarrow> p = TransactionPrefix.truncate x \<and> sigs = tx_signatures x"
  by (cases p; cases x) (auto simp: TransactionPrefix.defs Transaction.defs)

lemma truncate_prefix_simps [simp]:
  "tx_inputs (TransactionPrefix.truncate x) = tx_inputs x"
  "wf_prefix (TransactionPrefix.truncate x) = wf_prefix x"
  by (simp_all add: TransactionPrefix.defs wf_prefix_def)

interpretation c_transaction: codec write_Transaction read_Transaction wf_Transaction
proof
  fix inp r and x :: Transaction
  let ?ne = "is_base_only (tx_inputs x) \<or> tx_inputs x = []"
  have "read_Transaction inp = Some (x, r) \<longleftrightarrow> (\<exists>inp'. read_TransactionPrefix inp = Some (TransactionPrefix.truncate x, inp') \<and>
      read_signatures ?ne (tx_inputs x) inp' = Some (tx_signatures x, r))"
    by (auto simp: read_Transaction_def bind_eq_Some_conv extend_prefix_iff Let_def)
  also have "\<dots> \<longleftrightarrow> wf_Transaction x \<and> (\<exists>bs. write_Transaction x = Some bs \<and> inp = bs @ r)"
  proof (cases ?ne)
    case True
    then have b: "is_base_only (tx_inputs x) \<or> \<not> is_base_only (tx_inputs x) \<and> tx_inputs x = []" by auto
    have "wf_Transaction x \<longleftrightarrow> wf_prefix x \<and> tx_signatures x = []"
      using b by (auto simp: wf_Transaction_def)
    then show ?thesis
      using True by (auto simp: c_prefix.read_iff write_TransactionPrefix_truncate read_signatures_none
          write_signatures_none write_Transaction_def bind_eq_Some_conv Let_def)
  next
    case False
    then have ne: "length (tx_signatures x) = length (tx_inputs x) \<Longrightarrow> tx_signatures x \<noteq> []" by auto
    have F: "?ne = False" using False by simp
    have wf: "wf_Transaction x \<longleftrightarrow> wf_prefix x \<and> length (tx_signatures x) = length (tx_inputs x) \<and>
        list_all (list_all (\<lambda>s. length s = 64)) (tx_signatures x)"
      using False by (simp add: wf_Transaction_def)
    have w: "write_Transaction x = Some bs \<longleftrightarrow> (\<exists>p s. write_TransactionPrefix x = Some p \<and>
        write_signatures False (tx_inputs x) (tx_signatures x) = Some s \<and> bs = p @ s)"
      if "length (tx_signatures x) = length (tx_inputs x)" for bs
      using ne[OF that] that by (auto simp: write_Transaction_def bind_eq_Some_conv Let_def)
    show ?thesis
    proof (cases "length (tx_signatures x) = length (tx_inputs x)")
      case True
      then show ?thesis
        unfolding F wf w[OF True] c_prefix.read_iff write_TransactionPrefix_truncate read_signatures_iff truncate_prefix_simps
        by fastforce
    next
      case False
      then show ?thesis unfolding F wf read_signatures_iff by blast
    qed
  qed
  finally show "read_Transaction inp = Some (x, r) \<longleftrightarrow>
      wf_Transaction x \<and> (\<exists>bs. write_Transaction x = Some bs \<and> inp = bs @ r)" .
qed

section \<open>Properties\<close>

text \<open>
  C13: the transaction parser accepts an input exactly when it begins with the bytes the serializer
  writes for a well-formed transaction, and it returns that transaction. Hence a transaction
  survives a round trip, and no two byte strings denote the same transaction.
\<close>

theorem transaction_parser_exact:
  "read_Transaction inp = Some (tx, rest) \<longleftrightarrow>
    wf_Transaction tx \<and> (\<exists>bs. write_Transaction tx = Some bs \<and> inp = bs @ rest)"
  by (rule c_transaction.read_iff)

end
