(* ===== verification/StringTools.thy ===== *)
theory StringTools
  imports Prelude
begin

text \<open>
  Text helpers of \<open>src/src/Common/StringTools.cpp\<close> and \<open>StringTools.h\<close>: hexadecimal text,
  \<open>extract\<close>, the printing of time intervals, and \<open>medianValue\<close> of \<open>src/src/Common/Math.h\<close>. Text is
  a \<open>string\<close>, binary data a list of bytes; an exception or a returned \<open>false\<close> is \<open>None\<close>.
\<close>

section \<open>Definitions\<close>

definition characterValues :: "u8 list" where
  "characterValues = replicate 48 0xff @ [0x00, 0x01, 0x02, 0x03, 0x04, 0x05, 0x06, 0x07, 0x08, 0x09]
    @ replicate 7 0xff @ [0x0a, 0x0b, 0x0c, 0x0d, 0x0e, 0x0f]
    @ replicate 26 0xff @ [0x0a, 0x0b, 0x0c, 0x0d, 0x0e, 0x0f] @ replicate 153 0xff"

definition asString :: "byte list \<Rightarrow> string" where
  "asString data = map (\<lambda>b. char_of (unat b)) data"

definition asBinaryArray :: "string \<Rightarrow> byte list" where
  "asBinaryArray text = map (\<lambda>c. word_of_nat (of_char c)) text"

definition fromHex_char :: "char \<Rightarrow> u8 option" where
  "fromHex_char character =
    (let value = characterValues ! of_char character in if value > 0x0f then None else Some value)"

text \<open>The loop over the pairs of characters; the text has an even length here.\<close>

fun fromHex_loop :: "string \<Rightarrow> byte list option" where
  "fromHex_loop (a # b # text) = do {
     value1 \<leftarrow> fromHex_char a;
     value2 \<leftarrow> fromHex_char b;
     data \<leftarrow> fromHex_loop text;
     Some ((push_bit 4 value1 OR value2) # data) }"
| "fromHex_loop text = Some []"

definition fromHex :: "string \<Rightarrow> byte list option" where
  "fromHex text = (if odd (length text) then None else fromHex_loop text)"

definition fromHex_buffer :: "string \<Rightarrow> nat \<Rightarrow> byte list option" where
  "fromHex_buffer text bufferSize =
    (if odd (length text) then None
     else if length text div 2 > bufferSize then None
     else fromHex_loop text)"

definition podFromHex :: "nat \<Rightarrow> string \<Rightarrow> byte list option" where
  "podFromHex podSize text = do {
     data \<leftarrow> fromHex_buffer text podSize;
     if length data = podSize then Some data else None }"

definition hexDigit :: "nat \<Rightarrow> char" where
  "hexDigit n = ''0123456789abcdef'' ! n"

definition toHex :: "byte list \<Rightarrow> string" where
  "toHex data = concat (map (\<lambda>b. [hexDigit (unat (drop_bit 4 b)), hexDigit (unat (b AND 15))]) data)"

fun findFrom :: "string \<Rightarrow> char \<Rightarrow> nat \<Rightarrow> nat \<Rightarrow> nat option" where
  "findFrom [] c i offset = None"
| "findFrom (x # xs) c i offset =
    (if offset \<le> i \<and> x = c then Some i else findFrom xs c (i + 1) offset)"

text \<open>The first \<open>extract\<close> returns the token and the text that is left.\<close>

definition extract_token :: "string \<Rightarrow> char \<Rightarrow> string \<times> string" where
  "extract_token text delimiter =
    (case findFrom text delimiter 0 0 of
       Some p \<Rightarrow> (take p text, drop (p + 1) text)
     | None \<Rightarrow> (text, []))"

text \<open>The second \<open>extract\<close> returns the token and the new offset; \<open>substr\<close> takes a position and a length.\<close>

definition extract_at :: "string \<Rightarrow> char \<Rightarrow> nat \<Rightarrow> string \<times> nat" where
  "extract_at text delimiter offset =
    (case findFrom text delimiter 0 offset of
       Some p \<Rightarrow> (let offset = p + 1 in (take p (drop offset text), offset))
     | None \<Rightarrow> (let offset = length text in (drop offset text, offset)))"

function decimal :: "nat \<Rightarrow> string" where
  "decimal n = (if n < 10 then [char_of (48 + n)] else decimal (n div 10) @ [char_of (48 + n mod 10)])"
  by pat_completeness auto
termination by (relation "measure id") auto

declare decimal.simps [simp del]

definition pad_left :: "nat \<Rightarrow> char \<Rightarrow> string \<Rightarrow> string" where
  "pad_left w c s = replicate (w - length s) c @ s"

definition timeIntervalToString :: "u64 \<Rightarrow> string" where
  "timeIntervalToString intervalInSeconds =
    (let tail = intervalInSeconds;
         days = tail div (60 * 60 * 24);
         tail = tail mod (60 * 60 * 24);
         hours = tail div (60 * 60);
         tail = tail mod (60 * 60);
         minutes = tail div 60;
         tail = tail mod 60;
         seconds = tail
     in ''d'' @ decimal (unat days) @ ''.h'' @ pad_left 2 CHR ''0'' (decimal (unat hours))
        @ ''.m'' @ pad_left 2 CHR ''0'' (decimal (unat minutes))
        @ ''.s'' @ pad_left 2 CHR ''0'' (decimal (unat seconds)))"

definition medianValue :: "u64 list \<Rightarrow> u64" where
  "medianValue v =
    (if v = [] then 0
     else if length v = 1 then v ! 0
     else let n = length v div 2; v = sort v in
       if length v mod 2 \<noteq> 0 then v ! n else (v ! (n - 1) + v ! n) div 2)"

section \<open>Hexadecimal text\<close>

lemma length_characterValues: "length characterValues = 256"
  by (simp add: characterValues_def)

lemma fromHex_hexDigit: "n < 16 \<Longrightarrow> fromHex_char (hexDigit n) = Some (word_of_nat n)"
proof -
  have "\<forall>n\<in>set [0..<16]. fromHex_char (hexDigit n) = Some (word_of_nat n)"
    by (simp add: upt_rec fromHex_char_def hexDigit_def characterValues_def nth_append)
  then show "n < 16 \<Longrightarrow> ?thesis" by simp
qed

lemma nibbles: "push_bit 4 (drop_bit 4 b) OR (b AND 15) = (b::byte)"
proof -
  have m: "(15::byte) = mask 4" by (simp add: mask_eq_exp_minus_1)
  have h: "unat (drop_bit 4 b) = unat b div 16" using unat_drop_bit[of 4 b] by simp
  have l: "unat (b AND 15) = unat b mod 16" unfolding m unat_and_mask by simp
  have "unat (push_bit 4 (drop_bit 4 b) OR (b AND 15)) = unat b div 16 * 2 ^ 4 + unat b mod 16"
    using unat_push_bit_or[of "b AND 15" 4 "drop_bit 4 b"] unat_byte_less[of b] by (simp add: h l)
  then have "unat (push_bit 4 (drop_bit 4 b) OR (b AND 15)) = unat b" by simp
  then show ?thesis by (simp only: word_unat_eq_iff)
qed

lemma nibble_bounds: "unat (drop_bit 4 (b::byte)) < 16" "unat (b AND 15) < 16"
proof -
  have m: "(15::byte) = mask 4" by (simp add: mask_eq_exp_minus_1)
  show "unat (drop_bit 4 b) < 16" using unat_drop_bit[of 4 b] unat_byte_less[of b] by simp
  show "unat (b AND 15) < 16" unfolding m unat_and_mask by simp
qed

lemma fromHex_loop_toHex: "fromHex_loop (toHex data) = Some data"
  by (induction data) (simp_all add: toHex_def fromHex_hexDigit nibble_bounds nibbles)

lemma length_toHex [simp]: "length (toHex data) = 2 * length data"
  by (induction data) (simp_all add: toHex_def)

lemma fromHex_toHex: "fromHex (toHex data) = Some data"
  by (simp add: fromHex_def fromHex_loop_toHex)

lemma podFromHex_toHex: "podFromHex n (toHex data) = (if length data = n then Some data else None)"
  by (auto simp: podFromHex_def fromHex_buffer_def fromHex_loop_toHex bind_eq_Some_conv)

lemma length_fromHex_loop: "fromHex_loop s = Some data \<Longrightarrow> length data = length s div 2"
  by (induction s arbitrary: data rule: fromHex_loop.induct) (auto simp: bind_eq_Some_conv)

lemma podFromHex_length: "podFromHex n text = Some data \<Longrightarrow> length text = 2 * n \<and> length data = n"
  by (auto simp: podFromHex_def fromHex_buffer_def bind_eq_Some_conv dest!: length_fromHex_loop split: if_splits)

lemma extract_no_delimiter: "c \<notin> set t \<Longrightarrow> extract_token (t @ c # rest) c = (t, rest)"
proof -
  assume "c \<notin> set t"
  then have "findFrom (t @ c # rest) c i 0 = Some (i + length t)" for i
    by (induction t arbitrary: i) auto
  then show ?thesis by (simp add: extract_token_def)
qed

section \<open>Medians\<close>

lemma medianValue_odd:
  "length v mod 2 = 1 \<Longrightarrow> medianValue v = sort v ! (length v div 2)"
  by (cases v) (auto simp: medianValue_def Let_def)

lemma medianValue_bounds:
  assumes "v \<noteq> []" "\<forall>x\<in>set v. unat x < 2 ^ 63"
  shows "Min (set v) \<le> medianValue v" "medianValue v \<le> Max (set v)"
proof -
  have nth: "sort v ! i \<in> set v" if "i < length v" for i
    using that by (metis nth_mem length_sort set_sort)
  have b: "Min (set v) \<le> sort v ! i \<and> sort v ! i \<le> Max (set v)" if "i < length v" for i
    using nth[OF that] by simp
  have "Min (set v) \<le> medianValue v \<and> medianValue v \<le> Max (set v)"
  proof (cases "length v = 1 \<or> length v mod 2 \<noteq> 0")
    case True
    then show ?thesis using assms(1) b[of 0] b[of "length v div 2"] nth[of 0]
      by (cases v) (auto simp: medianValue_def Let_def)
  next
    case False
    define p q where "p = sort v ! (length v div 2 - 1)" "q = sort v ! (length v div 2)"
    have pq: "p \<in> set v" "q \<in> set v" using nth[of "length v div 2 - 1"] nth[of "length v div 2"] assms(1)
      by (cases v; auto simp: p_q_def)+
    have "medianValue v = (p + q) div 2" using False assms(1) by (auto simp: medianValue_def Let_def p_q_def)
    then have "unat (medianValue v) = unat ((p + q) div 2)" by simp
    moreover have "unat ((p + q) div 2) = (unat p + unat q) div 2"
    proof -
      have "unat p + unat q < 2 ^ 63 + 2 ^ 63" using pq assms(2) by (intro add_strict_mono) auto
      then show ?thesis by (simp add: unat_div unat_plus)
    qed
    moreover have "unat (Min (set v)) \<le> unat p" "unat (Min (set v)) \<le> unat q" "unat p \<le> unat (Max (set v))" "unat q \<le> unat (Max (set v))"
      using pq by (simp_all add: word_le_nat_alt[symmetric])
    ultimately show ?thesis unfolding word_le_nat_alt by (intro conjI) linarith+
  qed
  then show "Min (set v) \<le> medianValue v" "medianValue v \<le> Max (set v)" by auto
qed

end
