(* ===== verification/TransactionExtra.thy ===== *)
theory TransactionExtra
  imports DynexCNSerialization StringTools
begin

text \<open>
  The \<open>extra\<close> field of a transaction, \<open>src/src/DynexCNCore/TransactionExtra.cpp\<close> and
  \<open>TransactionExtra.h\<close>: the tagged fields, their parser and their writers. The parser returns its
  boolean result together with the fields read so far, because several callers use the fields and
  ignore the result. A writer gives the extended \<open>extra\<close>, or \<open>None\<close> when it returns \<open>false\<close>.
\<close>

section \<open>Definitions\<close>

datatype TransactionExtraField =
    TransactionExtraPadding nat
  | TransactionExtraPublicKey PublicKey
  | TransactionExtraNonce "byte list"
  | TransactionExtraMergeTag u64 Hash
  | TransactionExtraFromAddress AccountPublicAddress
  | TransactionExtraToAddress AccountPublicAddress
  | TransactionExtraAmount "byte list"
  | TransactionExtraTxkey SecretKey

abbreviation (input) "TX_EXTRA_PADDING_MAX_COUNT \<equiv> 255 :: nat"
abbreviation (input) "TX_EXTRA_NONCE_MAX_COUNT \<equiv> 255 :: nat"
abbreviation (input) "TX_EXTRA_TAG_PADDING \<equiv> 0x00 :: u8"
abbreviation (input) "TX_EXTRA_TAG_PUBKEY \<equiv> 0x01 :: u8"
abbreviation (input) "TX_EXTRA_NONCE \<equiv> 0x02 :: u8"
abbreviation (input) "TX_EXTRA_MERGE_MINING_TAG \<equiv> 0x03 :: u8"
abbreviation (input) "TX_EXTRA_NONCE_PAYMENT_ID \<equiv> 0x00 :: u8"
abbreviation (input) "TX_EXTRA_FROM_ADDRESS \<equiv> 0x04 :: u8"
abbreviation (input) "TX_EXTRA_TO_ADDRESS \<equiv> 0x05 :: u8"
abbreviation (input) "TX_EXTRA_AMOUNT \<equiv> 0x06 :: u8"
abbreviation (input) "TX_EXTRA_TXKEY \<equiv> 0x07 :: u8"

text \<open>The merge-mining tag is a length-prefixed string that holds the depth and the Merkle root.\<close>

definition write_MergeTag :: "u64 \<Rightarrow> Hash \<Rightarrow> byte list" where
  "write_MergeTag depth merkleRoot = bos_string (bos_uint64 depth @ bos_binary merkleRoot)"

definition read_MergeTag :: "byte list \<Rightarrow> ((u64 \<times> Hash) \<times> byte list) option" where
  "read_MergeTag inp = do {
     (field, inp) \<leftarrow> bis_string inp;
     (depth, field) \<leftarrow> bis_uint64 field;
     (merkleRoot, field) \<leftarrow> bis_binary 32 field;
     Some ((depth, merkleRoot), inp) }"

fun padding_loop :: "byte list \<Rightarrow> nat \<Rightarrow> (nat \<times> byte list) option" where
  "padding_loop [] n = Some (n, [])"
| "padding_loop (b # inp) n =
    (if n \<le> TX_EXTRA_PADDING_MAX_COUNT then if b \<noteq> 0 then None else padding_loop inp (n + 1)
     else Some (n, b # inp))"

definition read_address :: "byte list \<Rightarrow> (AccountPublicAddress \<times> byte list) option" where
  "read_address inp = do {
     (spend, inp) \<leftarrow> bis_binary 32 inp;
     (view, inp) \<leftarrow> bis_binary 32 inp;
     Some (\<lparr>spendPublicKey = spend, viewPublicKey = view\<rparr>, inp) }"

text \<open>
  One turn of the parser's loop after the tag \<open>c\<close> has been read: the field, or \<open>None\<close> for a tag the
  switch does not handle, and the rest of the input. Failure is \<open>return false\<close> or an exception.
\<close>

definition parse_extra_field :: "u8 \<Rightarrow> byte list \<Rightarrow> (TransactionExtraField option \<times> byte list) option" where
  "parse_extra_field c inp =
    (if c = TX_EXTRA_TAG_PADDING then do {
       (n, inp) \<leftarrow> padding_loop inp 1;
       if n > TX_EXTRA_PADDING_MAX_COUNT then None else Some (Some (TransactionExtraPadding n), inp) }
     else if c = TX_EXTRA_TAG_PUBKEY then do {
       (k, inp) \<leftarrow> bis_binary 32 inp; Some (Some (TransactionExtraPublicKey k), inp) }
     else if c = TX_EXTRA_NONCE then do {
       (n, inp) \<leftarrow> bis_binary 1 inp;
       if unat (hd n) > length inp then None
       else do { (nonce, inp) \<leftarrow> bis_binary (unat (hd n)) inp; Some (Some (TransactionExtraNonce nonce), inp) } }
     else if c = TX_EXTRA_MERGE_MINING_TAG then do {
       ((d, r), inp) \<leftarrow> read_MergeTag inp; Some (Some (TransactionExtraMergeTag d r), inp) }
     else if c = TX_EXTRA_FROM_ADDRESS then do {
       (a, inp) \<leftarrow> read_address inp; Some (Some (TransactionExtraFromAddress a), inp) }
     else if c = TX_EXTRA_TO_ADDRESS then do {
       (a, inp) \<leftarrow> read_address inp; Some (Some (TransactionExtraToAddress a), inp) }
     else if c = TX_EXTRA_AMOUNT then do {
       (a, inp) \<leftarrow> bis_binary 8 inp; Some (Some (TransactionExtraAmount a), inp) }
     else if c = TX_EXTRA_TXKEY then do {
       (k, inp) \<leftarrow> bis_binary 32 inp; Some (Some (TransactionExtraTxkey k), inp) }
     else Some (None, inp))"

lemma padding_loop_length: "padding_loop inp n = Some (m, r) \<Longrightarrow> length r \<le> length inp"
  by (induction inp n rule: padding_loop.induct) (fastforce split: if_splits)+

lemma bis_string_length: "bis_string inp = Some (x, r) \<Longrightarrow> length r \<le> length inp"
  by (auto simp: c_string.read_iff)

lemma parse_extra_field_length: "parse_extra_field c inp = Some (f, r) \<Longrightarrow> length r \<le> length inp"
  unfolding parse_extra_field_def read_MergeTag_def read_address_def
  by (auto simp: bind_eq_Some_conv bis_binary_iff dest!: padding_loop_length bis_string_length split: if_splits)

function parse_extra_loop :: "byte list \<Rightarrow> TransactionExtraField list \<Rightarrow> bool \<times> TransactionExtraField list" where
  "parse_extra_loop [] fs = (True, fs)"
| "parse_extra_loop (c # inp) fs =
    (case parse_extra_field c inp of
       None \<Rightarrow> (False, fs)
     | Some (None, inp) \<Rightarrow> parse_extra_loop inp fs
     | Some (Some f, inp) \<Rightarrow> parse_extra_loop inp (fs @ [f]))"
  by pat_completeness auto
termination
  by (relation "measure (length \<circ> fst)") (auto dest: parse_extra_field_length simp: less_Suc_eq_le)

definition parseTransactionExtra :: "byte list \<Rightarrow> bool \<times> TransactionExtraField list" where
  "parseTransactionExtra transactionExtra =
    (if transactionExtra = [] then (True, []) else parse_extra_loop transactionExtra [])"

definition addTransactionPublicKeyToExtra :: "byte list \<Rightarrow> PublicKey \<Rightarrow> byte list option" where
  "addTransactionPublicKeyToExtra ex key = Some (ex @ TX_EXTRA_TAG_PUBKEY # key)"

definition addFromAddressToExtra :: "byte list \<Rightarrow> AccountPublicAddress \<Rightarrow> byte list option" where
  "addFromAddressToExtra ex a = Some (ex @ TX_EXTRA_FROM_ADDRESS # spendPublicKey a @ viewPublicKey a)"

definition addToAddressToExtra :: "byte list \<Rightarrow> AccountPublicAddress \<Rightarrow> byte list option" where
  "addToAddressToExtra ex a = Some (ex @ TX_EXTRA_TO_ADDRESS # spendPublicKey a @ viewPublicKey a)"

definition addTxkeyToExtra :: "byte list \<Rightarrow> SecretKey \<Rightarrow> byte list option" where
  "addTxkeyToExtra ex key = Some (ex @ TX_EXTRA_TXKEY # key)"

definition addAmountToExtra :: "byte list \<Rightarrow> byte list \<Rightarrow> byte list option" where
  "addAmountToExtra ex amount = (if length amount \<noteq> 8 then None else Some (ex @ TX_EXTRA_AMOUNT # amount))"

definition addExtraNonceToTransactionExtra :: "byte list \<Rightarrow> byte list \<Rightarrow> byte list option" where
  "addExtraNonceToTransactionExtra ex nonce =
    (if length nonce > TX_EXTRA_NONCE_MAX_COUNT then None
     else Some (ex @ TX_EXTRA_NONCE # word_of_nat (length nonce) # nonce))"

definition appendMergeMiningTagToExtra :: "byte list \<Rightarrow> u64 \<Rightarrow> Hash \<Rightarrow> byte list option" where
  "appendMergeMiningTagToExtra ex depth merkleRoot =
    Some (ex @ TX_EXTRA_MERGE_MINING_TAG # write_MergeTag depth merkleRoot)"

fun ExtraSerializerVisitor :: "byte list \<Rightarrow> TransactionExtraField \<Rightarrow> byte list option" where
  "ExtraSerializerVisitor ex (TransactionExtraPadding n) =
    (if n > TX_EXTRA_PADDING_MAX_COUNT then None else Some (ex @ replicate n 0))"
| "ExtraSerializerVisitor ex (TransactionExtraPublicKey k) = addTransactionPublicKeyToExtra ex k"
| "ExtraSerializerVisitor ex (TransactionExtraNonce n) = addExtraNonceToTransactionExtra ex n"
| "ExtraSerializerVisitor ex (TransactionExtraMergeTag d r) = appendMergeMiningTagToExtra ex d r"
| "ExtraSerializerVisitor ex (TransactionExtraFromAddress a) = addFromAddressToExtra ex a"
| "ExtraSerializerVisitor ex (TransactionExtraToAddress a) = addToAddressToExtra ex a"
| "ExtraSerializerVisitor ex (TransactionExtraAmount a) = addAmountToExtra ex a"
| "ExtraSerializerVisitor ex (TransactionExtraTxkey k) = addTxkeyToExtra ex k"

fun writeTransactionExtra :: "byte list \<Rightarrow> TransactionExtraField list \<Rightarrow> byte list option" where
  "writeTransactionExtra ex [] = Some ex"
| "writeTransactionExtra ex (f # fs) = do { ex \<leftarrow> ExtraSerializerVisitor ex f; writeTransactionExtra ex fs }"

definition findPublicKey :: "TransactionExtraField list \<Rightarrow> PublicKey option" where
  "findPublicKey fs = map_option (\<lambda>f. case f of TransactionExtraPublicKey k \<Rightarrow> k)
    (find (\<lambda>f. case f of TransactionExtraPublicKey _ \<Rightarrow> True | _ \<Rightarrow> False) fs)"

definition findNonce :: "TransactionExtraField list \<Rightarrow> byte list option" where
  "findNonce fs = map_option (\<lambda>f. case f of TransactionExtraNonce n \<Rightarrow> n)
    (find (\<lambda>f. case f of TransactionExtraNonce _ \<Rightarrow> True | _ \<Rightarrow> False) fs)"

definition findMergeTag :: "TransactionExtraField list \<Rightarrow> (u64 \<times> Hash) option" where
  "findMergeTag fs = map_option (\<lambda>f. case f of TransactionExtraMergeTag d r \<Rightarrow> (d, r))
    (find (\<lambda>f. case f of TransactionExtraMergeTag _ _ \<Rightarrow> True | _ \<Rightarrow> False) fs)"

definition getTransactionPublicKeyFromExtra :: "byte list \<Rightarrow> PublicKey" where
  "getTransactionPublicKeyFromExtra ex =
    (case findPublicKey (snd (parseTransactionExtra ex)) of None \<Rightarrow> replicate 32 0 | Some k \<Rightarrow> k)"

definition getMergeMiningTagFromExtra :: "byte list \<Rightarrow> (u64 \<times> Hash) option" where
  "getMergeMiningTagFromExtra ex = findMergeTag (snd (parseTransactionExtra ex))"

definition setPaymentIdToTransactionExtraNonce :: "Hash \<Rightarrow> byte list" where
  "setPaymentIdToTransactionExtraNonce payment_id = TX_EXTRA_NONCE_PAYMENT_ID # payment_id"

definition getPaymentIdFromTransactionExtraNonce :: "byte list \<Rightarrow> Hash option" where
  "getPaymentIdFromTransactionExtraNonce nonce =
    (if length nonce \<noteq> 33 then None
     else if hd nonce \<noteq> TX_EXTRA_NONCE_PAYMENT_ID then None
     else Some (tl nonce))"

definition parsePaymentId :: "string \<Rightarrow> Hash option" where
  "parsePaymentId s = podFromHex 32 s"

definition createTxExtraWithPaymentId :: "string \<Rightarrow> byte list \<Rightarrow> byte list option" where
  "createTxExtraWithPaymentId s ex = do {
     pid \<leftarrow> parsePaymentId s;
     addExtraNonceToTransactionExtra ex (setPaymentIdToTransactionExtraNonce pid) }"

definition getPaymentIdFromTxExtra :: "byte list \<Rightarrow> Hash option" where
  "getPaymentIdFromTxExtra ex =
    (case parseTransactionExtra ex of (ok, fs) \<Rightarrow>
       if \<not> ok then None
       else do { nonce \<leftarrow> findNonce fs; getPaymentIdFromTransactionExtraNonce nonce })"

definition getAmountInt64 :: "byte list \<Rightarrow> i64" where
  "getAmountInt64 a =
    push_bit (8*7) (ucast (a ! 7)) OR push_bit (8*6) (ucast (a ! 6)) OR push_bit (8*5) (ucast (a ! 5))
    OR push_bit (8*4) (ucast (a ! 4)) OR push_bit (8*3) (ucast (a ! 3)) OR push_bit (8*2) (ucast (a ! 2))
    OR push_bit (8*1) (ucast (a ! 1)) OR push_bit (8*0) (ucast (a ! 0))"

definition getBinaryAmount :: "i64 \<Rightarrow> byte list" where
  "getBinaryAmount amount = map (\<lambda>i. ucast (drop_bit (8 * i) amount)) [0..<8]"

definition addToAddressAmountToExtraString :: "AccountPublicAddress \<Rightarrow> i64 \<Rightarrow> byte list \<Rightarrow> byte list" where
  "addToAddressAmountToExtraString acc amount s =
    s @ TX_EXTRA_TO_ADDRESS # spendPublicKey acc @ viewPublicKey acc @ TX_EXTRA_AMOUNT # getBinaryAmount amount"

definition addFromAddressToExtraString :: "AccountPublicAddress \<Rightarrow> byte list \<Rightarrow> byte list" where
  "addFromAddressToExtraString acc s = s @ TX_EXTRA_FROM_ADDRESS # spendPublicKey acc @ viewPublicKey acc"

definition addTxkeyToExtraString :: "SecretKey \<Rightarrow> byte list \<Rightarrow> byte list" where
  "addTxkeyToExtraString key s = s @ TX_EXTRA_TXKEY # key"

section \<open>Round trip\<close>

fun wf_field :: "TransactionExtraField \<Rightarrow> bool" where
  "wf_field (TransactionExtraPadding n) = (1 \<le> n \<and> n \<le> 255)"
| "wf_field (TransactionExtraPublicKey k) = (length k = 32)"
| "wf_field (TransactionExtraNonce n) = (length n \<le> 255)"
| "wf_field (TransactionExtraMergeTag d r) = (length r = 32)"
| "wf_field (TransactionExtraFromAddress a) = (length (spendPublicKey a) = 32 \<and> length (viewPublicKey a) = 32)"
| "wf_field (TransactionExtraToAddress a) = (length (spendPublicKey a) = 32 \<and> length (viewPublicKey a) = 32)"
| "wf_field (TransactionExtraAmount a) = (length a = 8)"
| "wf_field (TransactionExtraTxkey k) = (length k = 32)"

fun is_padding :: "TransactionExtraField \<Rightarrow> bool" where
  "is_padding (TransactionExtraPadding n) = True"
| "is_padding f = False"

lemma padding_loop_zeros: "n + k \<le> 255 \<Longrightarrow> padding_loop (replicate k 0) n = Some (n + k, [])"
  by (induction k arbitrary: n) simp_all

lemma bis_binary_append: "length x = n \<Longrightarrow> bis_binary n (x @ r) = Some (x, r)"
  by (simp add: bis_binary_iff)

lemma length_bos_uint64: "length (bos_uint64 v) \<le> 10"
proof -
  have "length (varint n) \<le> k + 1" if "n < 128 ^ (k + 1)" for n k
    using that
  proof (induction k arbitrary: n)
    case (Suc k)
    then show ?case by (cases "n < 128") (simp_all add: varint_small varint_big less_mult_imp_div_less mult.commute)
  qed (simp add: varint_small)
  from this[of "unat v" 9] show ?thesis using unat_less[of v] by (simp add: bos_uint64_def writeVarint64_varint)
qed

lemma read_MergeTag_write:
  "length r = 32 \<Longrightarrow> read_MergeTag (write_MergeTag d r @ rest) = Some ((d, r), rest)"
proof -
  assume r: "length r = 32"
  have "bis_string (bos_string (bos_uint64 d @ r) @ rest) = Some (bos_uint64 d @ r, rest)"
    using length_bos_uint64[of d] r by (intro c_string.roundtrip) simp_all
  moreover have "bis_uint64 (bos_uint64 d @ r) = Some (d, r)" by (simp add: c_u64.read_iff)
  moreover have "bis_binary 32 r = Some (r, [])" using r by (simp add: bis_binary_iff)
  ultimately show ?thesis by (simp add: read_MergeTag_def write_MergeTag_def bos_binary_def)
qed

lemmas add_extra_defs = addTransactionPublicKeyToExtra_def addFromAddressToExtra_def
  addToAddressToExtra_def addTxkeyToExtra_def addAmountToExtra_def addExtraNonceToTransactionExtra_def
  appendMergeMiningTagToExtra_def

lemma parse_extra_field_known:
  "length k = 32 \<Longrightarrow> parse_extra_field 1 (k @ r) = Some (Some (TransactionExtraPublicKey k), r)"
  "length n \<le> 255 \<Longrightarrow> parse_extra_field 2 (word_of_nat (length n) # n @ r) = Some (Some (TransactionExtraNonce n), r)"
  "length m = 32 \<Longrightarrow> parse_extra_field 3 (write_MergeTag d m @ r) = Some (Some (TransactionExtraMergeTag d m), r)"
  "length s = 32 \<Longrightarrow> length v = 32 \<Longrightarrow> parse_extra_field 4 (s @ v @ r) =
    Some (Some (TransactionExtraFromAddress \<lparr>spendPublicKey = s, viewPublicKey = v\<rparr>), r)"
  "length s = 32 \<Longrightarrow> length v = 32 \<Longrightarrow> parse_extra_field 5 (s @ v @ r) =
    Some (Some (TransactionExtraToAddress \<lparr>spendPublicKey = s, viewPublicKey = v\<rparr>), r)"
  "length a = 8 \<Longrightarrow> parse_extra_field 6 (a @ r) = Some (Some (TransactionExtraAmount a), r)"
  "length k = 32 \<Longrightarrow> parse_extra_field 7 (k @ r) = Some (Some (TransactionExtraTxkey k), r)"
  by (simp_all add: parse_extra_field_def bis_binary_def read_MergeTag_write read_address_def unat_of_nat)

lemma write_field_parse:
  assumes "wf_field f" "ExtraSerializerVisitor ex f = Some ex'" "\<not> is_padding f"
  shows "\<exists>c bs. ex' = ex @ c # bs \<and> (\<forall>r. parse_extra_field c (bs @ r) = Some (Some f, r))"
proof -
  have w: "ExtraSerializerVisitor ex f = Some (ex @ c # bs) \<Longrightarrow> (\<And>r. parse_extra_field c (bs @ r) = Some (Some f, r)) \<Longrightarrow> ?thesis" for c bs
    using assms(2) by auto
  show ?thesis
  proof (cases f)
    case (TransactionExtraPublicKey k)
    then show ?thesis using assms(1) by (intro w[of 1 k]) (simp_all add: add_extra_defs parse_extra_field_known)
  next
    case (TransactionExtraNonce n)
    then show ?thesis using assms(1)
      by (intro w[of 2 "word_of_nat (length n) # n"]) (simp_all add: add_extra_defs parse_extra_field_known)
  next
    case (TransactionExtraMergeTag d m)
    then show ?thesis using assms(1) by (intro w[of 3 "write_MergeTag d m"]) (simp_all add: add_extra_defs parse_extra_field_known)
  next
    case (TransactionExtraFromAddress a)
    then show ?thesis using assms(1)
      by (intro w[of 4 "spendPublicKey a @ viewPublicKey a"]) (simp_all add: add_extra_defs parse_extra_field_known)
  next
    case (TransactionExtraToAddress a)
    then show ?thesis using assms(1)
      by (intro w[of 5 "spendPublicKey a @ viewPublicKey a"]) (simp_all add: add_extra_defs parse_extra_field_known)
  next
    case (TransactionExtraAmount a)
    then show ?thesis using assms(1) by (intro w[of 6 a]) (simp_all add: add_extra_defs parse_extra_field_known)
  next
    case (TransactionExtraTxkey k)
    then show ?thesis using assms(1) by (intro w[of 7 k]) (simp_all add: add_extra_defs parse_extra_field_known)
  qed (use assms(3) in simp)
qed

lemma parse_extra_loop_write:
  assumes "list_all wf_field fs" "list_all (Not \<circ> is_padding) (butlast fs)"
    "writeTransactionExtra ex fs = Some ex'"
  shows "\<exists>bs. ex' = ex @ bs \<and> (\<forall>acc. parse_extra_loop bs acc = (True, acc @ fs))"
  using assms
proof (induction fs arbitrary: ex)
  case (Cons f fs)
  obtain e where e: "ExtraSerializerVisitor ex f = Some e" "writeTransactionExtra e fs = Some ex'"
    using Cons.prems(3) by (auto simp: bind_eq_Some_conv)
  show ?case
  proof (cases "is_padding f")
    case True
    then obtain n where f: "f = TransactionExtraPadding n" by (cases f) auto
    have fs: "fs = []" using Cons.prems(2) True by (cases fs) auto
    obtain k where n: "n = Suc k" "k \<le> 254" using Cons.prems(1) f by (cases n) auto
    have "parse_extra_field 0 (replicate k 0) = Some (Some (TransactionExtraPadding n), [])"
      using n padding_loop_zeros[of 1 k] by (simp add: parse_extra_field_def)
    then show ?thesis using e f fs n by (intro exI[of _ "replicate n 0"]) simp
  next
    case False
    then obtain c bs where c: "e = ex @ c # bs" "\<And>r. parse_extra_field c (bs @ r) = Some (Some f, r)"
      using write_field_parse[OF _ e(1)] Cons.prems(1) by auto
    have "list_all (Not \<circ> is_padding) (butlast fs)" using Cons.prems(2) by (cases fs) (auto simp: o_def)
    then obtain cs where cs: "ex' = e @ cs" "\<And>acc. parse_extra_loop cs acc = (True, acc @ fs)"
      using Cons.IH[OF _ _ e(2)] Cons.prems(1) by (auto simp: o_def)
    show ?thesis using c cs by (intro exI[of _ "c # bs @ cs"]) simp
  qed
qed simp

lemma parse_writeTransactionExtra:
  assumes "list_all wf_field fs" "list_all (Not \<circ> is_padding) (butlast fs)"
    "writeTransactionExtra [] fs = Some ex"
  shows "parseTransactionExtra ex = (True, fs)"
  using parse_extra_loop_write[OF assms] by (auto simp: parseTransactionExtra_def)

lemma writeTransactionExtra_total:
  "list_all wf_field fs \<Longrightarrow> \<exists>ex'. writeTransactionExtra ex fs = Some ex'"
proof (induction fs arbitrary: ex)
  case (Cons f fs)
  then have "\<exists>e. ExtraSerializerVisitor ex f = Some e"
    by (cases f) (auto simp: add_extra_defs)
  then show ?case using Cons by auto
qed simp

lemma payment_id_roundtrip:
  assumes "length pid = 32"
  shows "\<exists>ex. createTxExtraWithPaymentId (toHex pid) [] = Some ex \<and> getPaymentIdFromTxExtra ex = Some pid"
proof -
  let ?nonce = "setPaymentIdToTransactionExtraNonce pid"
  obtain ex where ex: "writeTransactionExtra [] [TransactionExtraNonce ?nonce] = Some ex"
    using writeTransactionExtra_total[of "[TransactionExtraNonce ?nonce]"] assms
    by (auto simp: setPaymentIdToTransactionExtraNonce_def)
  have "parseTransactionExtra ex = (True, [TransactionExtraNonce ?nonce])"
    using ex assms by (intro parse_writeTransactionExtra) (simp_all add: setPaymentIdToTransactionExtraNonce_def)
  then have "getPaymentIdFromTxExtra ex = Some pid"
    using assms by (simp add: getPaymentIdFromTxExtra_def findNonce_def getPaymentIdFromTransactionExtraNonce_def
      setPaymentIdToTransactionExtraNonce_def)
  moreover have "createTxExtraWithPaymentId (toHex pid) [] = Some ex"
    using ex assms by (simp add: createTxExtraWithPaymentId_def parsePaymentId_def podFromHex_toHex bind_eq_Some_conv)
  ultimately show ?thesis by blast
qed

section \<open>Amounts\<close>

lemma getBinaryAmount_le_bytes: "getBinaryAmount a = le_bytes 8 (unat a)"
proof (rule nth_equalityI)
  have le: "le_bytes n v ! i = word_of_nat (v div 256 ^ i)" if "i < n" for n v i
    using that
  proof (induction n arbitrary: v i)
    case (Suc n)
    then show ?case by (cases i) (simp_all add: div_mult2_eq)
  qed simp
  fix i assume "i < length (getBinaryAmount a)"
  then have i: "i < 8" by (simp add: getBinaryAmount_def)
  have "(256::nat) ^ i = 2 ^ (8 * i)" by (simp add: power_mult)
  then have "unat (ucast (drop_bit (8 * i) a) :: byte) = unat (word_of_nat (unat a div 256 ^ i) :: byte)"
    by (simp add: unat_ucast unat_drop_bit unat_of_nat)
  then show "getBinaryAmount a ! i = le_bytes 8 (unat a) ! i"
    using i by (simp add: getBinaryAmount_def le word_unat_eq_iff del: upt_Suc)
qed (simp add: getBinaryAmount_def)

lemma or_byte_step:
  assumes "unat (y::u64) < 2 ^ k" "k \<le> 56"
  shows "unat (push_bit k (ucast (b::byte)) OR y) = unat b * 2 ^ k + unat y"
    "unat (push_bit k (ucast b) OR y) < 2 ^ (k + 8)"
proof -
  have u: "unat (ucast b :: u64) = unat b" by (simp add: unat_ucast_up)
  have "unat b * 2 ^ k \<le> 255 * 2 ^ k" using unat_byte_less[of b] by (intro mult_le_mono1) simp
  moreover have "(2::nat) ^ (k + 8) \<le> 2 ^ 64" using assms(2) by (intro power_increasing) auto
  ultimately have b: "unat b * 2 ^ k + 2 ^ k \<le> 2 ^ (k + 8)" "(2::nat) ^ (k + 8) \<le> 2 ^ 64" by (simp_all add: power_add)
  have "0 < (2::nat) ^ k" by simp
  then have "unat b * 2 ^ k < 2 ^ 64" using b by linarith
  then show e: "unat (push_bit k (ucast b) OR y) = unat b * 2 ^ k + unat y"
    using unat_push_bit_or[OF assms(1), of "ucast b"] by (simp add: u)
  show "unat (push_bit k (ucast b) OR y) < 2 ^ (k + 8)" unfolding e using b assms(1) by linarith
qed

lemma getAmountInt64_le_nat:
  assumes "length a = 8"
  shows "unat (getAmountInt64 a) = le_nat a"
proof -
  obtain a0 a1 a2 a3 a4 a5 a6 a7 where a: "a = [a0, a1, a2, a3, a4, a5, a6, a7]"
    using assms by (auto simp: length_Suc_conv numeral_eq_Suc)
  define w0 w1 w2 w3 w4 w5 w6 :: u64 where "w0 = push_bit (8*0) (ucast a0)" and "w1 = push_bit (8*1) (ucast a1) OR w0"
    and "w2 = push_bit (8*2) (ucast a2) OR w1" and "w3 = push_bit (8*3) (ucast a3) OR w2"
    and "w4 = push_bit (8*4) (ucast a4) OR w3" and "w5 = push_bit (8*5) (ucast a5) OR w4"
    and "w6 = push_bit (8*6) (ucast a6) OR w5"
  note ws = w0_def w1_def w2_def w3_def w4_def w5_def w6_def
  have 0: "unat w0 = unat a0" "unat w0 < 2 ^ (8*1)"
    using unat_byte_less[of a0] by (simp_all add: w0_def unat_ucast_up)
  note 1 = or_byte_step[OF 0(2), of a1, folded w1_def, simplified]
  note 2 = or_byte_step[of w1 "8*2" a2, folded w2_def, simplified, OF 1(2)]
  note 3 = or_byte_step[of w2 "8*3" a3, folded w3_def, simplified, OF 2(2)]
  note 4 = or_byte_step[of w3 "8*4" a4, folded w4_def, simplified, OF 3(2)]
  note 5 = or_byte_step[of w4 "8*5" a5, folded w5_def, simplified, OF 4(2)]
  note 6 = or_byte_step[of w5 "8*6" a6, folded w6_def, simplified, OF 5(2)]
  note 7 = or_byte_step[of w6 "8*7" a7, simplified, OF 6(2)]
  have "getAmountInt64 a = push_bit (8*7) (ucast a7) OR w6"
    by (simp add: getAmountInt64_def a ws)
  then have "unat (getAmountInt64 a) = unat (push_bit 56 (ucast a7) OR w6)" by simp
  also have "\<dots> = le_nat a" unfolding 7(1) 6(1) 5(1) 4(1) 3(1) 2(1) 1(1) 0(1) by (simp add: a)
  finally show ?thesis .
qed

lemma amount_roundtrip: "getAmountInt64 (getBinaryAmount a) = a"
  using unat_less[of a] by (simp add: word_unat_eq_iff getAmountInt64_le_nat getBinaryAmount_le_bytes)

section \<open>Properties\<close>

text \<open>
  C39: a list of well-formed extra fields, with padding only at the end, is written and then parsed
  back to the same list.
\<close>

theorem extra_roundtrip:
  assumes "list_all wf_field fs" "list_all (Not \<circ> is_padding) (butlast fs)"
  shows "\<exists>ex. writeTransactionExtra [] fs = Some ex \<and> parseTransactionExtra ex = (True, fs)"
  using writeTransactionExtra_total[OF assms(1), of "[]"] parse_writeTransactionExtra[OF assms] by blast

theorem extra_roundtrip_witness:
  "list_all wf_field [TransactionExtraPublicKey (replicate 32 7), TransactionExtraNonce [1, 2], TransactionExtraPadding 3]
    \<and> (\<exists>ex. writeTransactionExtra [] [TransactionExtraPublicKey (replicate 32 7), TransactionExtraNonce [1, 2], TransactionExtraPadding 3] = Some ex
      \<and> parseTransactionExtra ex = (True, [TransactionExtraPublicKey (replicate 32 7), TransactionExtraNonce [1, 2], TransactionExtraPadding 3]))"
  using extra_roundtrip[of "[TransactionExtraPublicKey (replicate 32 7), TransactionExtraNonce [1, 2], TransactionExtraPadding 3]"]
  by simp

text \<open>
  A payment id put into the extra field of a transaction as hexadecimal text is the one found there.
\<close>

theorem payment_id_kept:
  assumes "length pid = 32"
  shows "\<exists>ex. createTxExtraWithPaymentId (toHex pid) [] = Some ex \<and> getPaymentIdFromTxExtra ex = Some pid"
  by (rule payment_id_roundtrip[OF assms])

theorem payment_id_kept_witness:
  "length (replicate 32 (0xab :: byte)) = 32 \<and> (\<exists>ex. createTxExtraWithPaymentId (toHex (replicate 32 0xab)) [] = Some ex
    \<and> getPaymentIdFromTxExtra ex = Some (replicate 32 0xab))"
  using payment_id_kept[of "replicate 32 0xab"] by simp

end
