(* ===== verification/BlockSerialization.thy ===== *)
theory BlockSerialization
  imports TreeHash TransactionExtra Varint
begin

text \<open>
  The binary format of blocks, the second half of
  \<open>src/src/DynexCNCore/DynexCNSerialization.cpp\<close>, the object helpers of
  \<open>src/src/DynexCNCore/DynexCNTools.h\<close>, and the block hashes of
  \<open>src/src/DynexCNCore/DynexCNFormatUtils.cpp\<close>. The hash function \<open>cn_fast_hash\<close> is the argument \<open>H\<close>.
  A reader of a block takes the block it reads into, because fields that the format of a version does
  not carry keep their old value.
\<close>

section \<open>Definitions\<close>

definition toBinaryArray :: "('a \<Rightarrow> byte list option) \<Rightarrow> 'a \<Rightarrow> BinaryArray option" where
  "toBinaryArray w obj = w obj"

definition fromBinaryArray :: "(byte list \<Rightarrow> ('a \<times> byte list) option) \<Rightarrow> BinaryArray \<Rightarrow> 'a option" where
  "fromBinaryArray rd ba = do { (x, rest) \<leftarrow> rd ba; if rest = [] then Some x else None }"

definition getObjectBinarySize :: "('a \<Rightarrow> byte list option) \<Rightarrow> 'a \<Rightarrow> bool \<times> nat" where
  "getObjectBinarySize w obj =
    (case toBinaryArray w obj of None \<Rightarrow> (False, 2 ^ 64 - 1) | Some ba \<Rightarrow> (True, length ba))"

definition getObjectHash :: "(byte list \<Rightarrow> Hash) \<Rightarrow> ('a \<Rightarrow> byte list option) \<Rightarrow> 'a \<Rightarrow> bool \<times> Hash" where
  "getObjectHash H w obj =
    (case toBinaryArray w obj of None \<Rightarrow> (False, NULL_HASH) | Some ba \<Rightarrow> (True, H ba))"

text \<open>The specialisation of \<open>toBinaryArray\<close> for a \<open>BinaryArray\<close> writes it as a string.\<close>

definition toBinaryArray_blob :: "BinaryArray \<Rightarrow> BinaryArray option" where
  "toBinaryArray_blob obj = Some (bos_string obj)"

definition write_hashes :: "Hash list \<Rightarrow> byte list" where
  "write_hashes hs = concat (map bos_binary hs)"

definition write_ParentBlock :: "(byte list \<Rightarrow> Hash) \<Rightarrow> ParentBlock \<Rightarrow> u64 \<Rightarrow> u32 \<Rightarrow> bool \<Rightarrow> bool \<Rightarrow> byte list option" where
  "write_ParentBlock H pb timestamp nonce hashingSerialization headerOnly = do {
     root \<leftarrow> (if hashingSerialization then
         case getObjectHash H write_Transaction (pb_baseTransaction pb) of
           (ok, minerTxHash) \<Rightarrow>
             if \<not> ok then None
             else Some (bos_binary (tree_hash_from_branch H (pb_baseTransactionBranch pb)
               (length (pb_baseTransactionBranch pb)) minerTxHash None))
       else Some []);
     let hdr = bos_uint8 (pb_majorVersion pb) @ bos_uint8 (pb_minorVersion pb) @ bos_uint64 timestamp
       @ bos_binary (pb_previousBlockHash pb) @ bos_binary (le_bytes 4 (unat nonce)) @ root
       @ bos_uint64 (ucast (pb_transactionCount pb));
     if pb_transactionCount pb < 1 then None
     else if headerOnly then Some hdr
     else if length (pb_baseTransactionBranch pb) \<noteq> tree_depth (ucast (pb_transactionCount pb)) then None
     else do {
       tx \<leftarrow> write_Transaction (pb_baseTransaction pb);
       (depth, mroot) \<leftarrow> getMergeMiningTagFromExtra (tx_extra (pb_baseTransaction pb));
       if depth > 8 * 32 then None
       else if unat depth \<noteq> length (pb_blockchainBranch pb) then None
       else Some (hdr @ write_hashes (pb_baseTransactionBranch pb) @ tx
         @ write_hashes (pb_blockchainBranch pb)) } }"

text \<open>Reading happens with both flags of the serializer off.\<close>

definition read_ParentBlock :: "byte list \<Rightarrow> ((ParentBlock \<times> u64 \<times> u32) \<times> byte list) option" where
  "read_ParentBlock inp = do {
     (major, inp) \<leftarrow> bis_uint8 inp;
     (minor, inp) \<leftarrow> bis_uint8 inp;
     (timestamp, inp) \<leftarrow> bis_uint64 inp;
     (prevId, inp) \<leftarrow> bis_binary 32 inp;
     (nonce, inp) \<leftarrow> bis_binary 4 inp;
     (txNum, inp) \<leftarrow> bis_uint64 inp;
     let txCount = (ucast txNum :: u16);
     if txCount < 1 then None
     else do {
       (branch, inp) \<leftarrow> read_items (bis_binary 32) (tree_depth (ucast txCount)) inp;
       (tx, inp) \<leftarrow> read_Transaction inp;
       (depth, mroot) \<leftarrow> getMergeMiningTagFromExtra (tx_extra tx);
       if depth > 8 * 32 then None
       else do {
         (bbranch, inp) \<leftarrow> read_items (bis_binary 32) (unat depth) inp;
         Some ((\<lparr>pb_majorVersion = major, pb_minorVersion = minor, pb_previousBlockHash = prevId,
           pb_transactionCount = txCount, pb_baseTransactionBranch = branch, pb_baseTransaction = tx,
           pb_blockchainBranch = bbranch\<rparr>, timestamp, word_of_nat (le_nat nonce)), inp) } } }"

definition write_BlockHeader :: "'a BlockHeader_scheme \<Rightarrow> byte list option" where
  "write_BlockHeader header =
    (let ver = blk_majorVersion header in
     if ver > BLOCK_MAJOR_VERSION_4 then None
     else let hd = bos_uint8 ver @ bos_uint8 (blk_minorVersion header) in
       if ver = BLOCK_MAJOR_VERSION_2 \<or> ver = BLOCK_MAJOR_VERSION_3
       then Some (hd @ bos_binary (blk_previousBlockHash header))
       else if ver = BLOCK_MAJOR_VERSION_1 \<or> ver \<ge> BLOCK_MAJOR_VERSION_4
       then Some (hd @ bos_uint64 (blk_timestamp header) @ bos_binary (blk_previousBlockHash header)
         @ bos_binary (le_bytes 4 (unat (blk_nonce header))))
       else None)"

definition read_BlockHeader :: "Block \<Rightarrow> byte list \<Rightarrow> (Block \<times> byte list) option" where
  "read_BlockHeader b inp = do {
     (ver, inp) \<leftarrow> bis_uint8 inp;
     if ver > BLOCK_MAJOR_VERSION_4 then None
     else do {
       (minor, inp) \<leftarrow> bis_uint8 inp;
       let b = b\<lparr>blk_majorVersion := ver, blk_minorVersion := minor\<rparr>;
       if ver = BLOCK_MAJOR_VERSION_2 \<or> ver = BLOCK_MAJOR_VERSION_3 then do {
         (prevId, inp) \<leftarrow> bis_binary 32 inp;
         Some (b\<lparr>blk_previousBlockHash := prevId\<rparr>, inp) }
       else if ver = BLOCK_MAJOR_VERSION_1 \<or> ver \<ge> BLOCK_MAJOR_VERSION_4 then do {
         (timestamp, inp) \<leftarrow> bis_uint64 inp;
         (prevId, inp) \<leftarrow> bis_binary 32 inp;
         (nonce, inp) \<leftarrow> bis_binary 4 inp;
         Some (b\<lparr>blk_timestamp := timestamp, blk_previousBlockHash := prevId,
           blk_nonce := word_of_nat (le_nat nonce)\<rparr>, inp) }
       else None } }"

definition write_Block :: "(byte list \<Rightarrow> Hash) \<Rightarrow> Block \<Rightarrow> byte list option" where
  "write_Block H b = do {
     hd \<leftarrow> write_BlockHeader b;
     pb \<leftarrow> (if blk_majorVersion b = BLOCK_MAJOR_VERSION_2 \<or> blk_majorVersion b = BLOCK_MAJOR_VERSION_3
            then write_ParentBlock H (blk_parentBlock b) (blk_timestamp b) (blk_nonce b) False False
            else Some []);
     tx \<leftarrow> write_Transaction (blk_baseTransaction b);
     hs \<leftarrow> write_container (\<lambda>h. Some (bos_binary h)) (blk_transactionHashes b);
     Some (hd @ pb @ tx @ hs) }"

definition read_Block :: "Block \<Rightarrow> byte list \<Rightarrow> (Block \<times> byte list) option" where
  "read_Block b inp = do {
     (b, inp) \<leftarrow> read_BlockHeader b inp;
     (b, inp) \<leftarrow>
       (if blk_majorVersion b = BLOCK_MAJOR_VERSION_2 \<or> blk_majorVersion b = BLOCK_MAJOR_VERSION_3 then do {
          ((pb, timestamp, nonce), inp) \<leftarrow> read_ParentBlock inp;
          Some (b\<lparr>blk_parentBlock := pb, blk_timestamp := timestamp, blk_nonce := nonce\<rparr>, inp) }
        else Some (b, inp));
     (tx, inp) \<leftarrow> read_Transaction inp;
     (hs, inp) \<leftarrow> read_container (bis_binary 32) inp;
     Some (b\<lparr>blk_baseTransaction := tx, blk_transactionHashes := hs\<rparr>, inp) }"

definition get_tx_tree_hash :: "(byte list \<Rightarrow> Hash) \<Rightarrow> Block \<Rightarrow> Hash" where
  "get_tx_tree_hash H b =
    tree_hash H (snd (getObjectHash H write_Transaction (blk_baseTransaction b)) # blk_transactionHashes b)"

definition get_block_hashing_blob :: "(byte list \<Rightarrow> Hash) \<Rightarrow> Block \<Rightarrow> BinaryArray option" where
  "get_block_hashing_blob H b = do {
     ba \<leftarrow> toBinaryArray write_BlockHeader b;
     Some (ba @ get_tx_tree_hash H b
       @ get_varint_data (word_of_nat (length (blk_transactionHashes b)) + 1)) }"

definition get_parent_block_hashing_blob :: "(byte list \<Rightarrow> Hash) \<Rightarrow> Block \<Rightarrow> BinaryArray option" where
  "get_parent_block_hashing_blob H b =
    write_ParentBlock H (blk_parentBlock b) (blk_timestamp b) (blk_nonce b) True True"

definition get_block_hash :: "(byte list \<Rightarrow> Hash) \<Rightarrow> Block \<Rightarrow> Hash option" where
  "get_block_hash H b = do {
     ba \<leftarrow> get_block_hashing_blob H b;
     ba \<leftarrow> (if blk_majorVersion b = BLOCK_MAJOR_VERSION_2 \<or> blk_majorVersion b = BLOCK_MAJOR_VERSION_3
       then do {
         parent_blob \<leftarrow> write_ParentBlock H (blk_parentBlock b) (blk_timestamp b) (blk_nonce b) True False;
         Some (ba @ parent_blob) }
       else Some ba);
     blob \<leftarrow> toBinaryArray_blob ba;
     Some (H blob) }"

definition get_aux_block_header_hash :: "(byte list \<Rightarrow> Hash) \<Rightarrow> Block \<Rightarrow> Hash option" where
  "get_aux_block_header_hash H b = do {
     blob \<leftarrow> get_block_hashing_blob H b;
     blob \<leftarrow> toBinaryArray_blob blob;
     Some (H blob) }"

text \<open>The slow hash \<open>cn_slow_hash\<close> is the argument \<open>slow\<close>.\<close>

definition get_block_longhash :: "(byte list \<Rightarrow> Hash) \<Rightarrow> (byte list \<Rightarrow> Hash) \<Rightarrow> Block \<Rightarrow> Hash option" where
  "get_block_longhash H slow b = do {
     bd \<leftarrow> (if blk_majorVersion b = BLOCK_MAJOR_VERSION_1 \<or> blk_majorVersion b \<ge> BLOCK_MAJOR_VERSION_4
       then get_block_hashing_blob H b
       else if blk_majorVersion b = BLOCK_MAJOR_VERSION_2 \<or> blk_majorVersion b = BLOCK_MAJOR_VERSION_3
       then get_parent_block_hashing_blob H b
       else None);
     Some (slow bd) }"

section \<open>Blocks survive a round trip\<close>

definition wf_ParentBlock :: "ParentBlock \<Rightarrow> bool" where
  "wf_ParentBlock pb \<longleftrightarrow> length (pb_previousBlockHash pb) = 32 \<and> list_all (\<lambda>h. length h = 32) (pb_baseTransactionBranch pb)
    \<and> wf_Transaction (pb_baseTransaction pb) \<and> list_all (\<lambda>h. length h = 32) (pb_blockchainBranch pb)"

definition wf_Block :: "Block \<Rightarrow> bool" where
  "wf_Block b \<longleftrightarrow> length (blk_previousBlockHash b) = 32 \<and> wf_Transaction (blk_baseTransaction b)
    \<and> length (blk_transactionHashes b) < 2 ^ 64 \<and> list_all (\<lambda>h. length h = 32) (blk_transactionHashes b)
    \<and> (blk_majorVersion b = 2 \<or> blk_majorVersion b = 3 \<longrightarrow> wf_ParentBlock (blk_parentBlock b))"

lemma write_hashes_items: "write_items (\<lambda>h. Some (bos_binary h)) hs = Some (write_hashes hs)"
  by (induction hs) (simp_all add: write_hashes_def)

lemma read_hashes:
  "list_all (\<lambda>h. length h = 32) hs \<Longrightarrow> length hs = n \<Longrightarrow> read_items (bis_binary 32) n (write_hashes hs @ r) = Some (hs, r)"
  by (simp add: c_pod32.read_items_iff write_hashes_items)

lemma nonce_roundtrip: "word_of_nat (unat n mod 4294967296) = (n :: u32)"
  using unat_less[of n] by simp

lemma bis_bos:
  "bis_uint8 (bos_uint8 v8 @ r) = Some (v8, r)" "bis_uint32 (bos_uint32 v32 @ r) = Some (v32, r)"
  "bis_uint64 (bos_uint64 v64 @ r) = Some (v64, r)"
  "length x = n \<Longrightarrow> bis_binary n (bos_binary x @ r) = Some (x, r)"
  by (simp_all add: c_u8.read_iff c_u32.read_iff c_u64.read_iff bis_binary_iff bos_binary_def)

lemma ucast_count: "(ucast (ucast (c::u16) :: u64) :: u16) = c"
  using unat_less[of c] by (simp add: word_unat_eq_iff unat_ucast)

lemma read_ParentBlock_write:
  assumes "wf_ParentBlock pb" "write_ParentBlock H pb ts n False False = Some bs"
  shows "read_ParentBlock (bs @ r) = Some ((pb, ts, n), r)"
proof -
  obtain tx depth mroot where w: "write_Transaction (pb_baseTransaction pb) = Some tx"
    "getMergeMiningTagFromExtra (tx_extra (pb_baseTransaction pb)) = Some (depth, mroot)"
    "\<not> pb_transactionCount pb < 1" "length (pb_baseTransactionBranch pb) = tree_depth (ucast (pb_transactionCount pb))"
    "\<not> depth > 8 * 32" "length (pb_blockchainBranch pb) = unat depth"
    "bs = bos_uint8 (pb_majorVersion pb) @ bos_uint8 (pb_minorVersion pb) @ bos_uint64 ts
       @ bos_binary (pb_previousBlockHash pb) @ bos_binary (le_bytes 4 (unat n))
       @ bos_uint64 (ucast (pb_transactionCount pb)) @ write_hashes (pb_baseTransactionBranch pb) @ tx
         @ write_hashes (pb_blockchainBranch pb)"
    using assms(2) by (auto simp: write_ParentBlock_def bind_eq_Some_conv Let_def split: if_splits)
  note wf = assms(1)[unfolded wf_ParentBlock_def]
  have tx: "read_Transaction (tx @ r') = Some (pb_baseTransaction pb, r')" for r'
    using c_transaction.roundtrip w(1) wf by blast
  show ?thesis
    unfolding read_ParentBlock_def w(7) append_assoc
    using wf w(2-6) tx by (simp add: bis_bos read_hashes Let_def ucast_count nonce_roundtrip)
qed

lemma read_BlockHeader_write:
  assumes "length (blk_previousBlockHash b) = 32" "write_BlockHeader b = Some bs"
  shows "read_BlockHeader b0 (bs @ r) = Some (if blk_majorVersion b = 2 \<or> blk_majorVersion b = 3
    then b0\<lparr>blk_majorVersion := blk_majorVersion b, blk_minorVersion := blk_minorVersion b,
      blk_previousBlockHash := blk_previousBlockHash b\<rparr>
    else b0\<lparr>blk_majorVersion := blk_majorVersion b, blk_minorVersion := blk_minorVersion b,
      blk_timestamp := blk_timestamp b, blk_previousBlockHash := blk_previousBlockHash b,
      blk_nonce := blk_nonce b\<rparr>, r)"
  using assms unfolding write_BlockHeader_def read_BlockHeader_def Let_def
  by (auto simp: bis_bos nonce_roundtrip split: if_splits)

lemma read_Block_write:
  assumes "wf_Block b" "write_Block H b = Some bs"
  shows "read_Block b0 (bs @ r) = Some (if blk_majorVersion b = 2 \<or> blk_majorVersion b = 3 then b
    else b\<lparr>blk_parentBlock := blk_parentBlock b0\<rparr>, r)"
proof -
  obtain hdr pb tx hs where w: "write_BlockHeader b = Some hdr"
    "(if blk_majorVersion b = 2 \<or> blk_majorVersion b = 3
      then write_ParentBlock H (blk_parentBlock b) (blk_timestamp b) (blk_nonce b) False False else Some []) = Some pb"
    "write_Transaction (blk_baseTransaction b) = Some tx"
    "write_container (\<lambda>h. Some (bos_binary h)) (blk_transactionHashes b) = Some hs" "bs = hdr @ pb @ tx @ hs"
    using assms(2) by (auto simp: write_Block_def bind_eq_Some_conv)
  note wf = assms(1)[unfolded wf_Block_def]
  have tx: "read_Transaction (tx @ r') = Some (blk_baseTransaction b, r')" for r'
    using c_transaction.roundtrip w(3) wf by blast
  have hs: "read_container (bis_binary 32) (hs @ r') = Some (blk_transactionHashes b, r')" for r'
    using c_pod32_vector.roundtrip w(4) wf by blast
  note hdr = read_BlockHeader_write[OF conjunct1[OF wf] w(1)]
  show ?thesis
  proof (cases "blk_majorVersion b = 2 \<or> blk_majorVersion b = 3")
    case True
    then have "read_ParentBlock (pb @ r') = Some ((blk_parentBlock b, blk_timestamp b, blk_nonce b), r')" for r'
      using w(2) wf by (intro read_ParentBlock_write) auto
    then show ?thesis using True unfolding read_Block_def w(5) append_assoc hdr
      by (cases b; cases b0) (auto simp: tx hs)
  next
    case False
    then show ?thesis using w(2) unfolding read_Block_def w(5) append_assoc hdr
      by (cases b; cases b0) (auto simp: tx hs)
  qed
qed

section \<open>Properties\<close>

definition sample_coinbase :: Transaction where
  "sample_coinbase = \<lparr>tx_version = 1, tx_unlockTime = 70, tx_inputs = [BaseInput 10],
    tx_outputs = [\<lparr>out_amount = 5, out_target = KeyOutput (replicate 32 3)\<rparr>], tx_extra = [1], tx_signatures = []\<rparr>"

definition sample_block :: Block where
  "sample_block = \<lparr>blk_majorVersion = 1, blk_minorVersion = 0, blk_nonce = 7, blk_timestamp = 300,
    blk_previousBlockHash = replicate 32 0,
    blk_parentBlock = \<lparr>pb_majorVersion = 0, pb_minorVersion = 0, pb_previousBlockHash = [], pb_transactionCount = 0,
      pb_baseTransactionBranch = [], pb_baseTransaction = sample_coinbase, pb_blockchainBranch = []\<rparr>,
    blk_baseTransaction = sample_coinbase, blk_transactionHashes = [replicate 32 9]\<rparr>"

lemma wf_sample_coinbase: "wf_Transaction sample_coinbase"
  by (simp add: wf_Transaction_def wf_prefix_def sample_coinbase_def is_base_only_def wf_output_def)

lemma wf_sample_block: "wf_Block sample_block"
  using wf_sample_coinbase by (simp add: wf_Block_def sample_block_def)

text \<open>
  C38: a well-formed block that serializes is read back from its bytes. Its parent block is part of
  the encoding for the versions 2 and 3 only: for the others the reader keeps the one it had.
\<close>

theorem block_roundtrip:
  assumes "wf_Block b" "write_Block H b = Some bs"
  shows "read_Block b0 (bs @ r) = Some (if blk_majorVersion b = 2 \<or> blk_majorVersion b = 3 then b
    else b\<lparr>blk_parentBlock := blk_parentBlock b0\<rparr>, r)"
  by (rule read_Block_write[OF assms])

theorem block_roundtrip_witness:
  "wf_Block sample_block \<and> (\<exists>bs. write_Block (\<lambda>x. x) sample_block = Some bs \<and>
    read_Block sample_block (bs @ [5]) = Some (sample_block, [5]))"
proof -
  have "write_Block (\<lambda>x. x) sample_block \<noteq> None"
    by (simp add: write_Block_def sample_block_def write_BlockHeader_def write_Transaction_def sample_coinbase_def
      write_TransactionPrefix_def write_container_def write_TransactionOutput_def is_base_only_def write_as_binary_def)
  then obtain bs where bs: "write_Block (\<lambda>x. x) sample_block = Some bs" by blast
  show ?thesis using wf_sample_block bs block_roundtrip[OF wf_sample_block bs, of sample_block "[5]"]
    by (simp add: sample_block_def)
qed

end
