(* ===== verification/FormatUtils.thy ===== *)
theory FormatUtils
  imports BlockSerialization "HOL-Library.Multiset"
begin

text \<open>
  Transaction helpers: \<open>src/src/DynexCNCore/DynexCNFormatUtils.cpp\<close>, \<open>DynexCNFormatUtils.h\<close>, the
  amounts of \<open>DynexCNTools.cpp\<close> and \<open>is_coinbase\<close> of \<open>DynexCNBasicImpl.cpp\<close>. Amounts are 64-bit
  words, and every sum wraps as in the code; the lemmas say when it is the sum of the numbers.

  The operations of \<open>src/src/crypto\<close> on keys are the fields of the record \<open>Crypto\<close>, an argument of
  the definitions that use them; \<open>generateKeyPair\<close>, which is random, is an argument as well.
\<close>

section \<open>Definitions\<close>

type_synonym KeyDerivation = "byte list"

record Crypto =
  cn_fast_hash :: "byte list \<Rightarrow> Hash"
  check_key :: "PublicKey \<Rightarrow> bool"
  generate_key_derivation :: "PublicKey \<Rightarrow> SecretKey \<Rightarrow> KeyDerivation option"
  derive_public_key :: "KeyDerivation \<Rightarrow> nat \<Rightarrow> PublicKey \<Rightarrow> PublicKey option"
  derive_secret_key :: "KeyDerivation \<Rightarrow> nat \<Rightarrow> SecretKey \<Rightarrow> SecretKey"
  generate_key_image :: "PublicKey \<Rightarrow> SecretKey \<Rightarrow> KeyImage"
  generate_ring_signature :: "Hash \<Rightarrow> KeyImage \<Rightarrow> PublicKey list \<Rightarrow> SecretKey \<Rightarrow> nat \<Rightarrow> Signature list"

definition parseAndValidateTransactionFromBinaryArray ::
  "(byte list \<Rightarrow> Hash) \<Rightarrow> BinaryArray \<Rightarrow> (Transaction \<times> Hash \<times> Hash) option" where
  "parseAndValidateTransactionFromBinaryArray H tx_blob = do {
     tx \<leftarrow> fromBinaryArray read_Transaction tx_blob;
     Some (tx, H tx_blob, snd (getObjectHash H write_TransactionPrefix tx)) }"

definition generate_key_image_helper ::
  "Crypto \<Rightarrow> AccountKeys \<Rightarrow> PublicKey \<Rightarrow> nat \<Rightarrow> (KeyPair \<times> KeyImage) option" where
  "generate_key_image_helper C ack tx_public_key real_output_index = do {
     recv \<leftarrow> generate_key_derivation C tx_public_key (ak_viewSecretKey ack);
     pub \<leftarrow> derive_public_key C recv real_output_index (spendPublicKey (ak_address ack));
     let sec = derive_secret_key C recv real_output_index (ak_spendSecretKey ack);
     Some (\<lparr>kp_publicKey = pub, kp_secretKey = sec\<rparr>, generate_key_image C pub sec) }"

definition power_integral :: "u64 \<Rightarrow> u64 \<Rightarrow> u64" where
  "power_integral a b = (if b = 0 then 1 else fold (\<lambda>_ total. total * a) [1..<unat b] a)"

fun input_amount :: "TransactionInput \<Rightarrow> u64" where
  "input_amount (BaseInput i) = 0"
| "input_amount (KeyInput amount idx ki) = amount"
| "input_amount (MultisignatureInput amount c i) = amount"

definition get_tx_fee :: "'a TransactionPrefix_scheme \<Rightarrow> u64 option" where
  "get_tx_fee tx =
    (let amount_in = fold (\<lambda>i s. s + input_amount i) (tx_inputs tx) 0;
         amount_out = fold (\<lambda>out s. s + out_amount out) (tx_outputs tx) 0
     in if \<not> amount_in \<ge> amount_out then None else Some (amount_in - amount_out))"

definition get_tx_fee_or_0 :: "'a TransactionPrefix_scheme \<Rightarrow> u64" where
  "get_tx_fee_or_0 tx = (case get_tx_fee tx of None \<Rightarrow> 0 | Some fee \<Rightarrow> fee)"

definition get_inputs_money_amount :: "'a TransactionPrefix_scheme \<Rightarrow> u64" where
  "get_inputs_money_amount tx = fold (\<lambda>i money. money + input_amount i) (tx_inputs tx) 0"

definition get_outs_money_amount :: "'a TransactionPrefix_scheme \<Rightarrow> u64" where
  "get_outs_money_amount tx = fold (\<lambda>out money. money + out_amount out) (tx_outputs tx) 0"

definition getInputsAmounts :: "'a TransactionPrefix_scheme \<Rightarrow> u64 list" where
  "getInputsAmounts tx = concat (map (\<lambda>i. case i of BaseInput _ \<Rightarrow> [] | _ \<Rightarrow> [input_amount i]) (tx_inputs tx))"

definition get_block_height :: "Block \<Rightarrow> u32" where
  "get_block_height b =
    (case tx_inputs (blk_baseTransaction b) of [BaseInput i] \<Rightarrow> i | _ \<Rightarrow> 0)"

definition is_coinbase :: "'a TransactionPrefix_scheme \<Rightarrow> bool" where
  "is_coinbase tx =
    (if length (tx_inputs tx) \<noteq> 1 then False
     else if \<not> is_BaseInput (tx_inputs tx ! 0) then False
     else True)"

definition check_inputs_types_supported :: "'a TransactionPrefix_scheme \<Rightarrow> bool" where
  "check_inputs_types_supported tx = list_all (\<lambda>i. is_KeyInput i \<or> is_MultisignatureInput i) (tx_inputs tx)"

text \<open>\<open>None\<close> for a valid list of outputs, otherwise the error text of the code.\<close>

fun check_msig_keys :: "(PublicKey \<Rightarrow> bool) \<Rightarrow> PublicKey list \<Rightarrow> PublicKey list \<Rightarrow> string + PublicKey list" where
  "check_msig_keys ck [] seen = Inr seen"
| "check_msig_keys ck (key # keys) seen =
    (if \<not> ck key then Inl ''Multisignature output with invalid public key''
     else if key \<in> set seen then Inl ''The same multisignature output target is present more than once''
     else check_msig_keys ck keys (key # seen))"

fun check_outs_loop :: "(PublicKey \<Rightarrow> bool) \<Rightarrow> TransactionOutput list \<Rightarrow> PublicKey list \<Rightarrow> string option" where
  "check_outs_loop ck [] seen = None"
| "check_outs_loop ck (out # outs) seen =
    (case out_target out of
       KeyOutput key \<Rightarrow>
         if out_amount out = 0 then Some ''Zero amount ouput''
         else if \<not> ck key then Some ''Output with invalid key''
         else if key \<in> set seen then Some ''The same output target is present more than once''
         else check_outs_loop ck outs (key # seen)
     | MultisignatureOutput keys n \<Rightarrow>
         if unat n > length keys then Some ''Multisignature output with invalid required signature count''
         else case check_msig_keys ck keys seen of
             Inl e \<Rightarrow> Some e
           | Inr seen \<Rightarrow> check_outs_loop ck outs seen)"

definition check_outs_valid :: "(PublicKey \<Rightarrow> bool) \<Rightarrow> 'a TransactionPrefix_scheme \<Rightarrow> string option" where
  "check_outs_valid ck tx = check_outs_loop ck (tx_outputs tx) []"

fun msig_diff_loop :: "TransactionInput list \<Rightarrow> (u64 \<times> u32) list \<Rightarrow> bool" where
  "msig_diff_loop [] used = True"
| "msig_diff_loop (i # ins) used =
    (case i of
       MultisignatureInput amount c idx \<Rightarrow>
         if (amount, idx) \<in> set used then False else msig_diff_loop ins ((amount, idx) # used)
     | _ \<Rightarrow> msig_diff_loop ins used)"

definition checkMultisignatureInputsDiff :: "'a TransactionPrefix_scheme \<Rightarrow> bool" where
  "checkMultisignatureInputsDiff tx = msig_diff_loop (tx_inputs tx) []"

text \<open>The loop of both overflow checks over the amounts, with the sum so far.\<close>

fun overflow_loop :: "u64 list \<Rightarrow> u64 \<Rightarrow> bool" where
  "overflow_loop [] money = True"
| "overflow_loop (amount # amounts) money =
    (if money > amount + money then False else overflow_loop amounts (money + amount))"

definition check_inputs_overflow :: "'a TransactionPrefix_scheme \<Rightarrow> bool" where
  "check_inputs_overflow tx = overflow_loop (map input_amount (tx_inputs tx)) 0"

definition check_outs_overflow :: "'a TransactionPrefix_scheme \<Rightarrow> bool" where
  "check_outs_overflow tx = overflow_loop (map out_amount (tx_outputs tx)) 0"

definition check_money_overflow :: "'a TransactionPrefix_scheme \<Rightarrow> bool" where
  "check_money_overflow tx = (check_inputs_overflow tx \<and> check_outs_overflow tx)"

definition short_hash_str :: "Hash \<Rightarrow> string" where
  "short_hash_str h =
    (let res = toHex h in
     if length res = 64 then
       let res = take 8 res @ drop 56 res in take 8 res @ ''....'' @ drop 8 res
     else res)"

text \<open>
  A failing \<open>derive_public_key\<close> leaves the key it should fill uninitialised; it is modelled as a key
  that matches no output, and a failing key derivation as a failing lookup.
\<close>

definition is_out_to_acc :: "Crypto \<Rightarrow> AccountKeys \<Rightarrow> PublicKey \<Rightarrow> KeyDerivation \<Rightarrow> nat \<Rightarrow> bool" where
  "is_out_to_acc C acc key derivation keyIndex =
    (derive_public_key C derivation keyIndex (spendPublicKey (ak_address acc)) = Some key)"

text \<open>The loop over the outputs with the two indexes, the indexes found and the money so far.\<close>

fun lookup_acc_outs_loop :: "Crypto \<Rightarrow> AccountKeys \<Rightarrow> KeyDerivation \<Rightarrow> TransactionOutput list \<Rightarrow> nat \<Rightarrow> nat
    \<Rightarrow> nat list \<Rightarrow> u64 \<Rightarrow> nat list \<times> u64" where
  "lookup_acc_outs_loop C acc deriv [] keyIndex outputIndex found money = (found, money)"
| "lookup_acc_outs_loop C acc deriv (out # outs) keyIndex outputIndex found money =
    (case out_target out of
       KeyOutput key \<Rightarrow>
         (if is_out_to_acc C acc key deriv keyIndex
          then lookup_acc_outs_loop C acc deriv outs (keyIndex + 1) (outputIndex + 1)
            (found @ [outputIndex]) (money + out_amount out)
          else lookup_acc_outs_loop C acc deriv outs (keyIndex + 1) (outputIndex + 1) found money)
     | MultisignatureOutput keys n \<Rightarrow>
         lookup_acc_outs_loop C acc deriv outs (keyIndex + length keys) (outputIndex + 1) found money)"

text \<open>
  The result of \<open>generate_key_derivation\<close> is not looked at: when it fails, the derivation is what the
  uninitialised variable held, the argument \<open>junk\<close>.
\<close>

definition lookup_acc_outs :: "Crypto \<Rightarrow> KeyDerivation \<Rightarrow> AccountKeys \<Rightarrow> Transaction \<Rightarrow> (nat list \<times> u64) option" where
  "lookup_acc_outs C junk acc tx =
    (let key = getTransactionPublicKeyFromExtra (tx_extra tx) in
     if key = replicate 32 0 then None
     else let derivation = (case generate_key_derivation C key (ak_viewSecretKey acc) of Some d \<Rightarrow> d | None \<Rightarrow> junk) in
       Some (lookup_acc_outs_loop C acc derivation (tx_outputs tx) 0 0 [] 0))"

definition relative_output_offsets_to_absolute :: "u32 list \<Rightarrow> u32 list" where
  "relative_output_offsets_to_absolute off =
    fold (\<lambda>i res. res[i := res ! i + res ! (i - 1)]) [1..<length off] off"

definition absolute_output_offsets_to_relative :: "u32 list \<Rightarrow> u32 list" where
  "absolute_output_offsets_to_relative off =
    (if off = [] then off
     else fold (\<lambda>i res. res[i := res ! i - res ! (i - 1)]) (rev [1..<length off]) (sort off))"

definition decompose_amount_into_digits :: "u64 \<Rightarrow> u64 \<Rightarrow> u64 list" where
  "decompose_amount_into_digits amount dust_threshold = (if amount = 0 then [] else [amount])"

record TransactionSourceEntry =
  src_outputs :: "(u32 \<times> PublicKey) list"
  src_realOutput :: nat
  src_realTransactionPublicKey :: PublicKey
  src_realOutputIndexInTransaction :: nat
  src_amount :: u64

record TransactionDestinationEntry =
  dst_amount :: u64
  dst_addr :: AccountPublicAddress

text \<open>The first loop of \<open>constructTransaction\<close>: the inputs, their ephemeral keys and the money.\<close>

fun construct_inputs :: "Crypto \<Rightarrow> AccountKeys \<Rightarrow> TransactionSourceEntry list
    \<Rightarrow> ((TransactionInput \<times> KeyPair) list \<times> u64) option" where
  "construct_inputs C keys [] = Some ([], 0)"
| "construct_inputs C keys (src # srcs) =
    (if src_realOutput src \<ge> length (src_outputs src) then None
     else do {
       (eph, img) \<leftarrow> generate_key_image_helper C keys (src_realTransactionPublicKey src) (src_realOutputIndexInTransaction src);
       if kp_publicKey eph \<noteq> snd (src_outputs src ! src_realOutput src) then None
       else do {
         let i = KeyInput (src_amount src) (absolute_output_offsets_to_relative (map fst (src_outputs src))) img;
         (rest, money) \<leftarrow> construct_inputs C keys srcs;
         Some ((i, eph) # rest, src_amount src + money) } })"

text \<open>The second loop, over the destinations sorted by amount.\<close>

fun construct_outputs :: "Crypto \<Rightarrow> SecretKey \<Rightarrow> TransactionDestinationEntry list \<Rightarrow> nat
    \<Rightarrow> (TransactionOutput list \<times> u64) option" where
  "construct_outputs C sec [] output_index = Some ([], 0)"
| "construct_outputs C sec (dst # dsts) output_index =
    (if \<not> dst_amount dst > 0 then None
     else do {
       derivation \<leftarrow> generate_key_derivation C (viewPublicKey (dst_addr dst)) sec;
       key \<leftarrow> derive_public_key C derivation output_index (spendPublicKey (dst_addr dst));
       (outs, money) \<leftarrow> construct_outputs C sec dsts (output_index + 1);
       Some (\<lparr>out_amount = dst_amount dst, out_target = KeyOutput key\<rparr> # outs, dst_amount dst + money) })"

definition constructTransaction :: "Crypto \<Rightarrow> KeyPair \<Rightarrow> AccountKeys \<Rightarrow> TransactionSourceEntry list
    \<Rightarrow> TransactionDestinationEntry list \<Rightarrow> byte list \<Rightarrow> u64 \<Rightarrow> (Transaction \<times> SecretKey) option" where
  "constructTransaction C txkey keys sources destinations ex unlock_time = do {
     ex \<leftarrow> addTransactionPublicKeyToExtra ex (kp_publicKey txkey);
     ex \<leftarrow> addTxkeyToExtra ex (kp_secretKey txkey);
     (ins, in_money) \<leftarrow> construct_inputs C keys sources;
     (outs, out_money) \<leftarrow> construct_outputs C (kp_secretKey txkey) (sort_key dst_amount destinations) 0;
     if out_money > in_money then None
     else do {
       let prefix = \<lparr>tx_version = CURRENT_TRANSACTION_VERSION, tx_unlockTime = unlock_time,
         tx_inputs = map fst ins, tx_outputs = outs, tx_extra = ex\<rparr>;
       let prefix_hash = snd (getObjectHash (cn_fast_hash C) write_TransactionPrefix prefix);
       let sigs = map2 (\<lambda>src (i, eph). generate_ring_signature C prefix_hash (ki_keyImage i)
         (map snd (src_outputs src)) (kp_secretKey eph) (src_realOutput src)) sources ins;
       Some (TransactionPrefix.extend prefix (Transaction.fields sigs), kp_secretKey txkey) } }"

section \<open>Sums of amounts\<close>

lemma overflow_loop_iff:
  "overflow_loop amounts money \<longleftrightarrow> unat money + sum_list (map unat amounts) < 2 ^ 64"
proof (induction amounts arbitrary: money)
  case Nil
  show ?case using unat_less[of money] by simp
next
  case (Cons a as)
  have "money > a + money \<longleftrightarrow> 2 ^ 64 \<le> unat money + unat a"
    unfolding add.commute[of a money] using add_carry_iff[of money a] by simp
  moreover have "unat (money + a) = unat money + unat a" if "unat money + unat a < 2 ^ 64"
    using that by (simp add: unat_plus)
  ultimately show ?case using Cons by (auto simp: add.assoc not_le)
qed

lemma fold_sum_exact:
  "unat s + sum_list (map (unat \<circ> f) xs) < 2 ^ 64 \<Longrightarrow>
    unat (fold (\<lambda>x s. s + f x) xs (s :: u64)) = unat s + sum_list (map (unat \<circ> f) xs)"
proof (induction xs arbitrary: s)
  case (Cons x xs)
  then have "unat (s + f x) = unat s + unat (f x)" by (simp add: unat_plus)
  then show ?case using Cons by simp
qed simp

definition inputs_total :: "'a TransactionPrefix_scheme \<Rightarrow> nat" where
  "inputs_total tx = sum_list (map (unat \<circ> input_amount) (tx_inputs tx))"

definition outputs_total :: "'a TransactionPrefix_scheme \<Rightarrow> nat" where
  "outputs_total tx = sum_list (map (unat \<circ> out_amount) (tx_outputs tx))"

lemma check_money_overflow_iff:
  "check_money_overflow tx \<longleftrightarrow> inputs_total tx < 2 ^ 64 \<and> outputs_total tx < 2 ^ 64"
  by (simp add: check_money_overflow_def check_inputs_overflow_def check_outs_overflow_def
      overflow_loop_iff inputs_total_def outputs_total_def)

lemma get_tx_fee_exact:
  assumes "check_money_overflow tx"
  shows "get_tx_fee tx = (if outputs_total tx \<le> inputs_total tx
      then Some (word_of_nat (inputs_total tx - outputs_total tx)) else None)"
proof -
  let ?i = "fold (\<lambda>i s. s + input_amount i) (tx_inputs tx) (0::u64)"
  let ?o = "fold (\<lambda>out s. s + out_amount out) (tx_outputs tx) (0::u64)"
  have io: "unat ?i = inputs_total tx" "unat ?o = outputs_total tx"
    using assms fold_sum_exact[of 0 input_amount "tx_inputs tx"] fold_sum_exact[of 0 out_amount "tx_outputs tx"]
    unfolding check_money_overflow_iff by (simp_all add: inputs_total_def outputs_total_def)
  have "?i - ?o = word_of_nat (inputs_total tx - outputs_total tx)" if "?o \<le> ?i"
  proof -
    have "unat (?i - ?o) = inputs_total tx - outputs_total tx" using that io by (simp add: unat_sub)
    then show ?thesis by (metis of_nat_unat ucast_id)
  qed
  then show ?thesis using io by (auto simp: get_tx_fee_def Let_def word_le_nat_alt)
qed

section \<open>Output offsets\<close>

lemma fold_update_len: "length (fold (\<lambda>i res. res[i := g i res]) is res) = length res"
  by (induction "is" arbitrary: res) simp_all

lemma prefix_sums_nth:
  assumes "n \<le> length off"
  shows "fold (\<lambda>i res. res[i := res ! i + res ! (i - 1)]) [1..<n] off ! k =
    (if k < n then sum_list (take (Suc k) off) else (off ! k :: u32))"
  using assms
proof (induction n arbitrary: k)
  case (Suc n)
  show ?case
  proof (cases "n = 0")
    case True
    then show ?thesis using Suc.prems by (cases off) (auto simp: less_Suc_eq)
  next
    case False
    let ?r = "fold (\<lambda>i res. res[i := res ! i + res ! (i - 1)]) [1..<n] off"
    have "fold (\<lambda>i res. res[i := res ! i + res ! (i - 1)]) [1..<Suc n] off = ?r[n := ?r ! n + ?r ! (n - 1)]"
      using False by simp
    moreover have "?r ! n = off ! n" "?r ! (n - 1) = sum_list (take n off)" using Suc False by auto
    moreover have "sum_list (take (Suc n) off) = sum_list (take n off) + off ! n"
      using Suc.prems by (simp add: take_Suc_conv_app_nth)
    ultimately show ?thesis using Suc by (auto simp: nth_list_update fold_update_len less_Suc_eq)
  qed
qed simp

lemma relative_to_absolute_nth:
  "k < length off \<Longrightarrow> relative_output_offsets_to_absolute off ! k = sum_list (take (Suc k) off)"
  using prefix_sums_nth[of "length off" off k] by (simp add: relative_output_offsets_to_absolute_def)

lemma length_offsets [simp]:
  "length (relative_output_offsets_to_absolute off) = length off"
  "length (absolute_output_offsets_to_relative off) = length off"
  by (simp_all add: relative_output_offsets_to_absolute_def absolute_output_offsets_to_relative_def fold_update_len)

lemma differences_nth:
  assumes "n \<le> length off" "1 \<le> m"
  shows "fold (\<lambda>i res. res[i := res ! i - res ! (i - 1)]) (rev [m..<n]) off ! k =
    (if m \<le> k \<and> k < n then off ! k - off ! (k - 1) else (off ! k :: u32))"
  using assms
proof (induction n arbitrary: off k)
  case (Suc n)
  show ?case
  proof (cases "m \<le> n")
    case True
    let ?o = "off[n := off ! n - off ! (n - 1)]"
    have "fold (\<lambda>i res. res[i := res ! i - res ! (i - 1)]) (rev [m..<Suc n]) off ! k =
        fold (\<lambda>i res. res[i := res ! i - res ! (i - 1)]) (rev [m..<n]) ?o ! k"
      using True by simp
    also have "\<dots> = (if m \<le> k \<and> k < n then ?o ! k - ?o ! (k - 1) else ?o ! k)"
      using Suc by (subst Suc.IH) simp_all
    finally show ?thesis using Suc.prems True by (auto simp: nth_list_update)
  qed (use Suc in auto)
qed simp

lemma absolute_to_relative_nth:
  assumes "k < length off"
  shows "absolute_output_offsets_to_relative off ! k = (if k = 0 then sort off ! 0 else sort off ! k - sort off ! (k - 1))"
  using assms differences_nth[of "length off" "sort off" 1 k]
  by (auto simp: absolute_output_offsets_to_relative_def)

lemma sum_list_differences:
  assumes "\<And>k. k < length ds \<Longrightarrow> ds ! k = (if k = 0 then xs ! 0 else xs ! k - xs ! (k - 1))" "n < length ds"
  shows "sum_list (take (Suc n) ds) = (xs ! n :: u32)"
  using assms(2)
proof (induction n)
  case 0
  then show ?case using assms(1)[of 0] by (cases ds) simp_all
next
  case (Suc n)
  then show ?case using assms(1)[of "Suc n"] by (simp add: take_Suc_conv_app_nth[of "Suc n"])
qed

lemma offsets_roundtrip:
  "relative_output_offsets_to_absolute (absolute_output_offsets_to_relative off) = sort off"
proof (rule nth_equalityI)
  fix k assume "k < length (relative_output_offsets_to_absolute (absolute_output_offsets_to_relative off))"
  then have k: "k < length off" by simp
  then have "sum_list (take (Suc k) (absolute_output_offsets_to_relative off)) = sort off ! k"
    by (intro sum_list_differences) (simp_all add: absolute_to_relative_nth)
  then show "relative_output_offsets_to_absolute (absolute_output_offsets_to_relative off) ! k = sort off ! k"
    using k by (simp add: relative_to_absolute_nth)
qed simp

lemma relative_to_absolute_sorted:
  assumes "sum_list (map unat off) < 2 ^ 32"
  shows "sorted (relative_output_offsets_to_absolute off)"
    "k < length off \<Longrightarrow> unat (relative_output_offsets_to_absolute off ! k) = sum_list (map unat (take (Suc k) off))"
proof -
  have e: "unat (sum_list ys) = sum_list (map unat ys)" if "sum_list (map unat ys) < 2 ^ 32" for ys :: "u32 list"
    using that by (induction ys) (simp_all add: unat_plus)
  have le: "sum_list (map unat (take j off)) \<le> sum_list (map unat (take k off))" if "j \<le> k" for j k
  proof -
    have "take k off = take j off @ take (k - j) (drop j off)" using that by (metis le_add_diff_inverse take_add)
    then show ?thesis by simp
  qed
  have u: "unat (relative_output_offsets_to_absolute off ! k) = sum_list (map unat (take (Suc k) off))" if "k < length off" for k
    using e[of "take (Suc k) off"] le[of "Suc k" "length off"] assms that by (simp add: relative_to_absolute_nth)
  then show "k < length off \<Longrightarrow> unat (relative_output_offsets_to_absolute off ! k) = sum_list (map unat (take (Suc k) off))" .
  show "sorted (relative_output_offsets_to_absolute off)"
    unfolding sorted_iff_nth_mono_less by (auto simp: word_le_nat_alt u intro!: le)
qed

lemma offsets_roundtrip_relative:
  assumes "sum_list (map unat off) < 2 ^ 32"
  shows "absolute_output_offsets_to_relative (relative_output_offsets_to_absolute off) = off"
proof (rule nth_equalityI)
  let ?a = "relative_output_offsets_to_absolute off"
  fix k assume "k < length (absolute_output_offsets_to_relative ?a)"
  then have k: "k < length off" by simp
  have s: "sort ?a = ?a" using relative_to_absolute_sorted(1)[OF assms] by (rule sorted_sort_id)
  have "?a ! k = ?a ! (k - 1) + off ! k" if "k \<noteq> 0"
    using k that take_Suc_conv_app_nth[OF k] by (cases k) (simp_all add: relative_to_absolute_nth)
  moreover have "?a ! 0 = off ! 0" using k by (cases off) (simp_all add: relative_to_absolute_nth)
  ultimately show "absolute_output_offsets_to_relative ?a ! k = off ! k"
    using k by (auto simp: absolute_to_relative_nth s)
qed simp

section \<open>Valid outputs\<close>

fun target_keys :: "TransactionOutputTarget \<Rightarrow> PublicKey list" where
  "target_keys (KeyOutput k) = [k]"
| "target_keys (MultisignatureOutput ks n) = ks"

fun target_ok :: "TransactionOutput \<Rightarrow> bool" where
  "target_ok out = (case out_target out of KeyOutput k \<Rightarrow> out_amount out \<noteq> 0
    | MultisignatureOutput ks n \<Rightarrow> unat n \<le> length ks)"

lemma check_msig_keys_iff:
  "check_msig_keys ck keys seen = Inr seen' \<longleftrightarrow> list_all ck keys \<and> distinct keys \<and> set keys \<inter> set seen = {} \<and> seen' = rev keys @ seen"
  by (induction keys arbitrary: seen) auto

lemma check_outs_loop_iff:
  "check_outs_loop ck outs seen = None \<longleftrightarrow> list_all target_ok outs
    \<and> list_all (list_all ck \<circ> target_keys \<circ> out_target) outs
    \<and> distinct (concat (map (target_keys \<circ> out_target) outs))
    \<and> set (concat (map (target_keys \<circ> out_target) outs)) \<inter> set seen = {}"
proof (induction outs arbitrary: seen)
  case (Cons out outs)
  show ?case
  proof (cases "out_target out")
    case (KeyOutput k)
    then show ?thesis by (auto simp: Cons)
  next
    case (MultisignatureOutput ks n)
    show ?thesis
    proof (cases "check_msig_keys ck ks seen")
      case (Inl e)
      then have "\<not> (list_all ck ks \<and> distinct ks \<and> set ks \<inter> set seen = {})"
        using check_msig_keys_iff[of ck ks seen] by auto
      then show ?thesis using MultisignatureOutput Inl by auto
    next
      case (Inr s)
      then have "list_all ck ks" "distinct ks" "set ks \<inter> set seen = {}" "s = rev ks @ seen"
        using check_msig_keys_iff[of ck ks seen s] by auto
      then show ?thesis using MultisignatureOutput Inr Cons[of s] by (auto simp: not_less)
    qed
  qed
qed simp

section \<open>Constructed transactions\<close>

lemma fold_sum_list: "fold (\<lambda>x s. s + f x) xs (s :: u64) = s + sum_list (map f xs)"
  by (induction xs arbitrary: s) (simp_all add: algebra_simps)

lemma construct_inputs_shape:
  assumes "construct_inputs C keys sources = Some (ins, money)"
  shows "list_all2 (\<lambda>src (i, eph). is_KeyInput i \<and> input_amount i = src_amount src \<and>
      getSignaturesCount i = length (src_outputs src)) sources ins"
    "money = sum_list (map (input_amount \<circ> fst) ins)"
  using assms
proof (induction sources arbitrary: ins money)
  case (Cons src srcs)
  {
    case 1
    then show ?case using Cons by (auto simp: bind_eq_Some_conv Let_def split: if_splits)
  next
    case 2
    then show ?case using Cons by (auto simp: bind_eq_Some_conv Let_def split: if_splits)
  }
qed auto

lemma construct_outputs_shape:
  assumes "construct_outputs C sec dsts n = Some (outs, money)"
  shows "list_all (\<lambda>out. out_amount out \<noteq> 0 \<and> is_KeyOutput (out_target out)) outs"
    "map out_amount outs = map dst_amount dsts" "money = sum_list (map out_amount outs)"
  using assms
proof (induction dsts arbitrary: n outs money)
  case (Cons dst dsts)
  {
    case 1
    then show ?case using Cons by (auto simp: bind_eq_Some_conv split: if_splits)
  next
    case 2
    then show ?case using Cons by (auto simp: bind_eq_Some_conv split: if_splits)
  next
    case 3
    then show ?case using Cons by (auto simp: bind_eq_Some_conv split: if_splits)
  }
qed auto

lemma constructTransaction_shape:
  assumes sig: "\<And>h ki ks s r. length (generate_ring_signature C h ki ks s r) = length ks"
    and ok: "constructTransaction C txkey keys sources destinations ex unlock_time = Some (tx, sec)"
  shows "check_inputs_types_supported tx"
    "map length (tx_signatures tx) = map getSignaturesCount (tx_inputs tx)"
    "list_all (\<lambda>out. out_amount out \<noteq> 0 \<and> is_KeyOutput (out_target out)) (tx_outputs tx)"
    "map out_amount (tx_outputs tx) = sort (map dst_amount destinations)"
    "get_tx_fee tx \<noteq> None"
proof -
  obtain ins im outs om where i: "construct_inputs C keys sources = Some (ins, im)"
    and o: "construct_outputs C (kp_secretKey txkey) (sort_key dst_amount destinations) 0 = Some (outs, om)"
    and le: "om \<le> im" and tx: "tx_inputs tx = map fst ins" "tx_outputs tx = outs"
    and sigs: "tx_signatures tx = map2 (\<lambda>src (i, eph). generate_ring_signature C
         (snd (getObjectHash (cn_fast_hash C) write_TransactionPrefix (TransactionPrefix.truncate tx))) (ki_keyImage i)
         (map snd (src_outputs src)) (kp_secretKey eph) (src_realOutput src)) sources ins"
    using ok by (auto simp: constructTransaction_def bind_eq_Some_conv Let_def TransactionPrefix.defs
        Transaction.defs not_less split: if_splits)
  note I = construct_inputs_shape[OF i] and O = construct_outputs_shape[OF o]
  have "list_all is_KeyInput (map fst ins)"
    using I(1) by (auto simp: list_all2_conv_all_nth list_all_length)
  then show "check_inputs_types_supported tx"
    by (auto simp: check_inputs_types_supported_def tx elim: list.pred_mono_strong)
  show "map length (tx_signatures tx) = map getSignaturesCount (tx_inputs tx)"
    using I(1) sigs sig by (auto simp: tx list_all2_conv_all_nth intro!: nth_equalityI split: prod.splits) force+
  show "list_all (\<lambda>out. out_amount out \<noteq> 0 \<and> is_KeyOutput (out_target out)) (tx_outputs tx)"
    using O(1) by (simp add: tx)
  show "map out_amount (tx_outputs tx) = sort (map dst_amount destinations)"
    unfolding tx O(2) by (rule properties_for_sort[symmetric]) simp_all
  show "get_tx_fee tx \<noteq> None"
    using le I(2) O(3) by (simp add: get_tx_fee_def fold_sum_list tx Let_def o_def)
qed

section \<open>Properties\<close>

definition sample_tx :: Transaction where
  "sample_tx = sample_coinbase\<lparr>tx_inputs := [KeyInput 9 [1, 2] (replicate 32 4)], tx_signatures := [[]]\<rparr>"

definition sample_crypto :: Crypto where
  "sample_crypto = \<lparr>cn_fast_hash = (\<lambda>_. replicate 32 0), check_key = (\<lambda>_. True),
    generate_key_derivation = (\<lambda>p s. Some p), derive_public_key = (\<lambda>d n k. Some k), derive_secret_key = (\<lambda>d n k. k),
    generate_key_image = (\<lambda>p s. p), generate_ring_signature = (\<lambda>h i ks s n. map (\<lambda>_. replicate 64 0) ks)\<rparr>"

definition sample_address :: AccountPublicAddress where
  "sample_address = \<lparr>spendPublicKey = replicate 32 1, viewPublicKey = replicate 32 2\<rparr>"

definition sample_source :: TransactionSourceEntry where
  "sample_source = \<lparr>src_outputs = [(4, replicate 32 8), (6, replicate 32 1)], src_realOutput = 1,
    src_realTransactionPublicKey = replicate 32 5, src_realOutputIndexInTransaction = 0, src_amount = 10\<rparr>"

text \<open>
  C35: the overflow check on 64-bit sums passes exactly when neither the inputs nor the outputs of
  the transaction add up to 2 to the 64 or more.
\<close>

theorem money_overflow_exact:
  "check_money_overflow tx \<longleftrightarrow> inputs_total tx < 2 ^ 64 \<and> outputs_total tx < 2 ^ 64"
  by (rule check_money_overflow_iff)

text \<open>
  After the overflow check the fee is exactly inputs minus outputs, and it is refused exactly
  when the outputs exceed the inputs.
\<close>

theorem tx_fee_exact:
  assumes "check_money_overflow tx"
  shows "get_tx_fee tx = (if outputs_total tx \<le> inputs_total tx
      then Some (word_of_nat (inputs_total tx - outputs_total tx)) else None)"
  by (rule get_tx_fee_exact[OF assms])

theorem tx_fee_exact_witness: "check_money_overflow sample_tx \<and> get_tx_fee sample_tx = Some 4"
proof -
  have "check_money_overflow sample_tx" by (simp add: check_money_overflow_iff sample_tx_def sample_coinbase_def inputs_total_def outputs_total_def)
  then show ?thesis using tx_fee_exact[of sample_tx] by (simp add: sample_tx_def sample_coinbase_def inputs_total_def outputs_total_def)
qed

text \<open>
  Turning absolute output indexes into relative ones and back sorts them; relative ones whose
  sum fits 32 bits survive the opposite round trip and denote ascending indexes.
\<close>

theorem offsets_roundtrips:
  "relative_output_offsets_to_absolute (absolute_output_offsets_to_relative off) = sort off \<and>
   (sum_list (map unat off) < 2 ^ 32 \<longrightarrow>
     absolute_output_offsets_to_relative (relative_output_offsets_to_absolute off) = off \<and>
     sorted (relative_output_offsets_to_absolute off))"
  using offsets_roundtrip offsets_roundtrip_relative relative_to_absolute_sorted(1) by blast

theorem offsets_roundtrips_witness:
  "absolute_output_offsets_to_relative (relative_output_offsets_to_absolute [3, 0, 7]) = [3, 0, 7]"
  using offsets_roundtrips[of "[3, 0, 7]"] by simp

text \<open>
  C37: the outputs of a transaction are valid exactly when every key output has a positive amount,
  every multisignature output asks for no more signatures than it has keys, every key is a valid
  one, and no key occurs twice in the whole transaction.
\<close>

theorem outs_valid_exact:
  "check_outs_valid ck tx = None \<longleftrightarrow> list_all target_ok (tx_outputs tx)
    \<and> list_all (list_all ck \<circ> target_keys \<circ> out_target) (tx_outputs tx)
    \<and> distinct (concat (map (target_keys \<circ> out_target) (tx_outputs tx)))"
  by (simp add: check_outs_valid_def check_outs_loop_iff)



end
