(* ===== verification/IntUtil.thy ===== *)
theory IntUtil
  imports Prelude
begin

text \<open>
  The integer helpers of \<open>src/src/Common/int-util.h\<close>: rotations, the \<open>64 \<times> 64 \<rightarrow> 128\<close> bit product,
  the long division of a 128-bit number by a 32-bit one, and the byte swaps. A division by zero,
  which traps in the program, is the value \<open>None\<close>.
\<close>

section \<open>Definitions\<close>

definition rol32 :: "u32 \<Rightarrow> int \<Rightarrow> u32" where
  "rol32 x r = push_bit (nat (r mod 32)) x OR drop_bit (nat ((- r) mod 32)) x"

definition rol64 :: "u64 \<Rightarrow> int \<Rightarrow> u64" where
  "rol64 x r = push_bit (nat (r mod 64)) x OR drop_bit (nat ((- r) mod 64)) x"

definition hi_dword :: "u64 \<Rightarrow> u64" where
  "hi_dword val = drop_bit 32 val"

definition lo_dword :: "u64 \<Rightarrow> u64" where
  "lo_dword val = val AND 0xFFFFFFFF"

text \<open>The result is the pair of the returned low half and of \<open>*product_hi\<close>.\<close>

definition mul128 :: "u64 \<Rightarrow> u64 \<Rightarrow> u64 \<times> u64" where
  "mul128 multiplier multiplicand =
    (let a = hi_dword multiplier; b = lo_dword multiplier;
         c = hi_dword multiplicand; d = lo_dword multiplicand;
         ac = a * c; ad = a * d; bc = b * c; bd = b * d;
         adbc = ad + bc;
         adbc_carry = (if adbc < ad then 1 else 0);
         product_lo = bd + push_bit 32 adbc;
         product_lo_carry = (if product_lo < bd then 1 else 0);
         product_hi = ac + drop_bit 32 adbc + push_bit 32 adbc_carry + product_lo_carry
     in (product_lo, product_hi))"

text \<open>The result is the quotient and the new value of \<open>*remainder\<close>.\<close>

definition div_with_reminder :: "u64 \<Rightarrow> u32 \<Rightarrow> u32 \<Rightarrow> (u64 \<times> u32) option" where
  "div_with_reminder dividend divisor remainder =
    (let dividend = dividend OR push_bit 32 (ucast remainder) in
     if divisor = 0 then None
     else Some (dividend div ucast divisor, ucast (dividend mod ucast divisor)))"

text \<open>The result is the returned remainder, \<open>*quotient_hi\<close> and \<open>*quotient_lo\<close>.\<close>

definition div128_32 :: "u64 \<Rightarrow> u64 \<Rightarrow> u32 \<Rightarrow> (u32 \<times> u64 \<times> u64) option" where
  "div128_32 dividend_hi dividend_lo divisor = do {
     (q3, remainder) \<leftarrow> div_with_reminder (hi_dword dividend_hi) divisor 0;
     (q2, remainder) \<leftarrow> div_with_reminder (lo_dword dividend_hi) divisor remainder;
     (q1, remainder) \<leftarrow> div_with_reminder (hi_dword dividend_lo) divisor remainder;
     (q0, remainder) \<leftarrow> div_with_reminder (lo_dword dividend_lo) divisor remainder;
     Some (remainder, push_bit 32 q3 OR q2, push_bit 32 q1 OR q0) }"

definition swap32 :: "u32 \<Rightarrow> u32" where
  "swap32 x =
    (let x = push_bit 8 (x AND 0x00ff00ff) OR drop_bit 8 (x AND 0xff00ff00)
     in push_bit 16 x OR drop_bit 16 x)"

definition swap64 :: "u64 \<Rightarrow> u64" where
  "swap64 x =
    (let x = push_bit 8 (x AND 0x00ff00ff00ff00ff) OR drop_bit 8 (x AND 0xff00ff00ff00ff00);
         x = push_bit 16 (x AND 0x0000ffff0000ffff) OR drop_bit 16 (x AND 0xffff0000ffff0000)
     in push_bit 32 x OR drop_bit 32 x)"

definition mem_inplace_swap32 :: "u32 list \<Rightarrow> u32 list" where
  "mem_inplace_swap32 mem = map swap32 mem"

definition mem_inplace_swap64 :: "u64 list \<Rightarrow> u64 list" where
  "mem_inplace_swap64 mem = map swap64 mem"

section \<open>The 128-bit product\<close>

lemma unat_hi_dword: "unat (hi_dword v) = unat v div 2 ^ 32"
  unfolding hi_dword_def by (rule unat_drop_bit)

lemma unat_lo_dword: "unat (lo_dword v) = unat v mod 2 ^ 32"
proof -
  have "(0xFFFFFFFF::u64) = mask 32" by (simp add: mask_eq_exp_minus_1)
  then show ?thesis using unat_and_mask[of v 32] by (simp add: lo_dword_def)
qed

lemma unat_dwords:
  "unat (hi_dword v) < 2 ^ 32" "unat (lo_dword v) < 2 ^ 32"
  "unat (hi_dword v) * 2 ^ 32 + unat (lo_dword v) = unat v"
  using unat_less[of v] by (simp_all add: unat_hi_dword unat_lo_dword less_mult_imp_div_less)

lemma dword_mult_less: "x < 2 ^ 32 \<Longrightarrow> y < 2 ^ 32 \<Longrightarrow> (x::nat) * y < 2 ^ 64"
  using mult_strict_mono[of x "2 ^ 32" y "2 ^ 32"] by simp

lemma long_mul_identity:
  fixes a b c d M :: nat
  defines "s \<equiv> a * d + b * c"
  defines "t \<equiv> s mod (M * M)"
  defines "l \<equiv> b * d + (t mod M) * M"
  shows "(a * c + t div M + s div (M * M) * M + l div (M * M)) * (M * M) + l mod (M * M)
         = (a * M + b) * (c * M + d)"
proof -
  have l: "l div (M * M) * (M * M) + l mod (M * M) = b * d + (t mod M) * M"
    unfolding l_def by (rule div_mult_mod_eq)
  have t: "(t div M) * (M * M) + (t mod M) * M = t * M"
    by (metis add_mult_distrib div_mult_mod_eq mult.assoc)
  have s: "(s div (M * M) * M) * (M * M) + t * M = s * M"
    unfolding t_def by (metis (no_types, lifting) add_mult_distrib div_mult_mod_eq mult.assoc mult.commute)
  have "(a * c + t div M + s div (M * M) * M + l div (M * M)) * (M * M) + l mod (M * M)
        = a * c * (M * M) + ((s div (M * M) * M) * (M * M) + (t div M) * (M * M)) 
          + (l div (M * M) * (M * M) + l mod (M * M))" by (simp add: algebra_simps)
  also have "\<dots> = a * c * (M * M) + s * M + b * d" using s t l by linarith
  also have "\<dots> = (a * M + b) * (c * M + d)" by (simp add: s_def algebra_simps)
  finally show ?thesis .
qed

lemma mul128_correct:
  "mul128 x y = (lo, hi) \<Longrightarrow> unat hi * 2 ^ 64 + unat lo = unat x * unat y"
proof -
  assume *: "mul128 x y = (lo, hi)"
  define a b c d where abcd: "a = hi_dword x" "b = lo_dword x" "c = hi_dword y" "d = lo_dword y"
  have bnd: "unat a < 2 ^ 32" "unat b < 2 ^ 32" "unat c < 2 ^ 32" "unat d < 2 ^ 32"
    by (simp_all only: abcd unat_dwords)
  note prod = dword_mult_less[OF bnd(1,3)] dword_mult_less[OF bnd(1,4)] dword_mult_less[OF bnd(2,3)] dword_mult_less[OF bnd(2,4)]
  define s where "s = unat a * unat d + unat b * unat c"
  define t where "t = s mod (2 ^ 32 * 2 ^ 32)"
  define l where "l = unat b * unat d + (t mod 2 ^ 32) * 2 ^ 32"
  define adbc where "adbc = a * d + b * c"
  have t: "unat adbc = t"
    using prod by (simp add: adbc_def t_def s_def unat_plus unat_times)
  have sh: "unat (push_bit 32 adbc) = (t mod 2 ^ 32) * 2 ^ 32"
    unfolding unat_push_bit t using mult_mod_right[of "2 ^ 32" t "2 ^ 32"] by (simp add: mult.commute)
  have lo: "unat lo = l mod (2 ^ 32 * 2 ^ 32)"
    using * prod(4) sh by (auto simp: mul128_def Let_def unat_plus unat_times l_def simp flip: adbc_def abcd)
  have c1: "unat (push_bit 32 (if adbc < a * d then 1 else 0 :: u64)) = s div (2 ^ 32 * 2 ^ 32) * 2 ^ 32"
    using prod unat_carry[of "a * d" "b * c", where 'b = 64] by (auto simp: adbc_def s_def unat_times unat_push_bit)
  have c2: "unat (if b * d + push_bit 32 adbc < b * d then 1 else 0 :: u64) = l div (2 ^ 32 * 2 ^ 32)"
    using prod(4) unfolding unat_carry sh by (simp add: l_def unat_times)
  have hi: "unat hi = (unat a * unat c + t div 2 ^ 32 + s div (2 ^ 32 * 2 ^ 32) * 2 ^ 32 + l div (2 ^ 32 * 2 ^ 32)) mod 2 ^ 64"
    using * prod(1) c1 c2 t by (auto simp: mul128_def Let_def unat_plus unat_times unat_drop_bit mod_simps simp flip: adbc_def abcd)
  have id: "(unat a * unat c + t div 2 ^ 32 + s div (2 ^ 32 * 2 ^ 32) * 2 ^ 32 + l div (2 ^ 32 * 2 ^ 32)) * (2 ^ 32 * 2 ^ 32) + l mod (2 ^ 32 * 2 ^ 32)
    = unat x * unat y"
    unfolding l_def t_def s_def long_mul_identity abcd unat_dwords(3) ..
  have "unat x * unat y < 2 ^ 64 * 2 ^ 64"
    using unat_less[of x] unat_less[of y] by (intro mult_strict_mono) simp_all
  with id show ?thesis unfolding hi lo by simp
qed

section \<open>Long division\<close>

lemma div_with_reminder_correct:
  assumes "divisor \<noteq> 0" "unat dividend < 2 ^ 32"
  obtains q r where "div_with_reminder dividend divisor remainder = Some (q, r)"
    "unat q = (unat remainder * 2 ^ 32 + unat dividend) div unat divisor"
    "unat r = (unat remainder * 2 ^ 32 + unat dividend) mod unat divisor"
proof -
  define D where "D = dividend OR push_bit 32 (ucast remainder)"
  have D: "unat D = unat remainder * 2 ^ 32 + unat dividend"
    using assms(2) unat_push_bit_or[of dividend 32 "ucast remainder"] unat_less[of remainder]
    by (simp add: D_def or.commute unat_ucast_up)
  have "unat (ucast (D mod ucast divisor) :: u32) = unat D mod unat divisor"
    using unat_less[of divisor] assms(1)
    by (simp add: unat_ucast unat_mod unat_gt_0 order_less_trans[OF mod_less_divisor])
  moreover have "unat (D div ucast divisor) = unat D div unat divisor"
    by (simp add: unat_div unat_ucast_up)
  ultimately show ?thesis using assms(1)
    by (intro that[of "D div ucast divisor" "ucast (D mod ucast divisor)"])
      (simp_all add: div_with_reminder_def D D_def[symmetric] Let_def)
qed

lemma long_div_step:
  fixes X h d M :: nat
  shows "(X * M + h) div d = (X div d) * M + (X mod d * M + h) div d"
    and "(X * M + h) mod d = (X mod d * M + h) mod d"
proof -
  have "(X mod d * M + h) + d * (X div d * M) = (d * (X div d) + X mod d) * M + h"
    by (simp only: algebra_simps)
  then have eq: "X * M + h = (X mod d * M + h) + d * (X div d * M)"
    by (simp only: mult_div_mod_eq)
  show "(X * M + h) div d = (X div d) * M + (X mod d * M + h) div d"
    unfolding eq by (cases "d = 0") simp_all
  show "(X * M + h) mod d = (X mod d * M + h) mod d"
    unfolding eq by simp
qed

lemma long_div4:
  fixes h3 h2 h1 h0 d M :: nat
  assumes "r3 = h3 mod d" "r2 = (r3 * M + h2) mod d" "r1 = (r2 * M + h1) mod d"
  shows "(((h3 * M + h2) * M + h1) * M + h0) div d
      = (h3 div d * M + (r3 * M + h2) div d) * (M * M) + ((r2 * M + h1) div d * M + (r1 * M + h0) div d)"
    and "(((h3 * M + h2) * M + h1) * M + h0) mod d = (r1 * M + h0) mod d"
proof -
  note step = long_div_step[of h3 M h2 d] long_div_step[of "h3 * M + h2" M h1 d]
    long_div_step[of "(h3 * M + h2) * M + h1" M h0 d]
  have 2: "(h3 * M + h2) mod d = r2" and 1: "((h3 * M + h2) * M + h1) mod d = r1"
    using step assms by metis+
  show "(((h3 * M + h2) * M + h1) * M + h0) mod d = (r1 * M + h0) mod d"
    using step(6) 1 by simp
  have "(((h3 * M + h2) * M + h1) * M + h0) div d
      = ((h3 div d * M + (r3 * M + h2) div d) * M + (r2 * M + h1) div d) * M + (r1 * M + h0) div d"
    using step(1,3,5) 1 2 assms(1) by simp
  then show "(((h3 * M + h2) * M + h1) * M + h0) div d
      = (h3 div d * M + (r3 * M + h2) div d) * (M * M) + ((r2 * M + h1) div d * M + (r1 * M + h0) div d)"
    by (simp add: add_mult_distrib)
qed

lemma digit_less: "r < d \<Longrightarrow> h < M \<Longrightarrow> (r * M + h) div d < (M::nat)"
proof (rule less_mult_imp_div_less)
  assume "r < d" "h < M"
  then have "r * M + h < (r + 1) * M" by simp
  also have "\<dots> \<le> M * d" using \<open>r < d\<close> by (metis Suc_eq_plus1 Suc_leI mult.commute mult_le_mono1)
  finally show "r * M + h < M * d" .
qed

lemma div128_32_correct:
  assumes "divisor \<noteq> 0"
  shows "\<exists>r qh ql. div128_32 hi lo divisor = Some (r, qh, ql) \<and>
    unat qh * 2 ^ 64 + unat ql = (unat hi * 2 ^ 64 + unat lo) div unat divisor \<and>
    unat r = (unat hi * 2 ^ 64 + unat lo) mod unat divisor"
proof -
  define d where "d = unat divisor"
  have d: "0 < d" using assms by (simp add: d_def unat_gt_0)
  obtain q3 r3 where 3: "div_with_reminder (hi_dword hi) divisor 0 = Some (q3, r3)"
    "unat q3 = unat (hi_dword hi) div d" "unat r3 = unat (hi_dword hi) mod d"
    using div_with_reminder_correct[OF assms unat_dwords(1), of hi 0] unfolding d_def by auto
  obtain q2 r2 where 2: "div_with_reminder (lo_dword hi) divisor r3 = Some (q2, r2)"
    "unat q2 = (unat r3 * 2 ^ 32 + unat (lo_dword hi)) div d" "unat r2 = (unat r3 * 2 ^ 32 + unat (lo_dword hi)) mod d"
    using div_with_reminder_correct[OF assms unat_dwords(2)] unfolding d_def by metis
  obtain q1 r1 where 1: "div_with_reminder (hi_dword lo) divisor r2 = Some (q1, r1)"
    "unat q1 = (unat r2 * 2 ^ 32 + unat (hi_dword lo)) div d" "unat r1 = (unat r2 * 2 ^ 32 + unat (hi_dword lo)) mod d"
    using div_with_reminder_correct[OF assms unat_dwords(1)] unfolding d_def by metis
  obtain q0 r0 where 0: "div_with_reminder (lo_dword lo) divisor r1 = Some (q0, r0)"
    "unat q0 = (unat r1 * 2 ^ 32 + unat (lo_dword lo)) div d" "unat r0 = (unat r1 * 2 ^ 32 + unat (lo_dword lo)) mod d"
    using div_with_reminder_correct[OF assms unat_dwords(2)] unfolding d_def by metis
  have q: "unat q3 < 2 ^ 32" "unat q2 < 2 ^ 32" "unat q1 < 2 ^ 32" "unat q0 < 2 ^ 32"
    using d le_less_trans[OF div_le_dividend unat_dwords(1)[of hi]]
    unfolding 3 2 1 0 by (auto intro!: digit_less simp: unat_dwords[simplified])
  have N: "unat hi * 2 ^ 64 + unat lo = ((unat (hi_dword hi) * 2 ^ 32 + unat (lo_dword hi)) * 2 ^ 32 + unat (hi_dword lo)) * 2 ^ 32 + unat (lo_dword lo)"
    using unat_dwords(3)[of lo] unat_dwords(3)[of hi] by simp
  have MM: "2 ^ 32 * 2 ^ 32 = (2 ^ 64 :: nat)" by simp
  note L = long_div4[OF 3(3) 2(3) 1(3), of "unat (lo_dword lo)", folded N 3(2) 2(2) 1(2) 0(2) 0(3), unfolded MM]
  have Q: "unat (push_bit 32 q3 OR q2) = unat q3 * 2 ^ 32 + unat q2" 
    "unat (push_bit 32 q1 OR q0) = unat q1 * 2 ^ 32 + unat q0"
    using q by (simp_all add: unat_push_bit_or)
  have "div128_32 hi lo divisor = Some (r0, push_bit 32 q3 OR q2, push_bit 32 q1 OR q0)"
    by (simp add: div128_32_def 3(1) 2(1) 1(1) 0(1))
  then show ?thesis using L unfolding Q(1)[symmetric] Q(2)[symmetric] d_def by metis
qed

section \<open>Byte swaps\<close>

lemma swap32_mask_bits:
  "bit (0x00ff00ff::u32) n \<longleftrightarrow> n < 32 \<and> n mod 16 < 8"
  "bit (0xff00ff00::u32) n \<longleftrightarrow> n < 32 \<and> 8 \<le> n mod 16"
proof -
  have a: "\<forall>n\<in>set [0..<32]. bit (0x00ff00ff::u32) n \<longleftrightarrow> n mod 16 < 8"
    by (simp add: upt_rec)
  have b: "\<forall>n\<in>set [0..<32]. bit (0xff00ff00::u32) n \<longleftrightarrow> 8 \<le> n mod 16"
    by (simp add: upt_rec)
  show "bit (0x00ff00ff::u32) n \<longleftrightarrow> n < 32 \<and> n mod 16 < 8"
  "bit (0xff00ff00::u32) n \<longleftrightarrow> n < 32 \<and> 8 \<le> n mod 16"
    using a b by (auto dest: bit_imp_le_length)
qed

lemma bit_exchange:
  fixes x m1 m2 :: "'a::len word"
  shows "bit (push_bit k (x AND m1) OR drop_bit k (x AND m2)) n \<longleftrightarrow>
    (k \<le> n \<and> n < LENGTH('a) \<and> bit x (n - k) \<and> bit m1 (n - k)) \<or> (bit x (k + n) \<and> bit m2 (k + n))"
  by (auto simp: bit_simps)

lemma bit_rotate:
  fixes x :: "'a::len word"
  shows "bit (push_bit k x OR drop_bit k x) n \<longleftrightarrow> (k \<le> n \<and> n < LENGTH('a) \<and> bit x (n - k)) \<or> bit x (k + n)"
  by (auto simp: bit_simps)

lemma byte_offset_mod:
  assumes "r < (8::nat)"
  shows "(16 + r) mod 16 = r" "(24 + r) mod 16 = 8 + r" "(32 + r) mod 16 = r" "(40 + r) mod 16 = 8 + r"
    "(48 + r) mod 16 = r" "(56 + r) mod 16 = 8 + r" "(32 + r) mod 32 = r" "(40 + r) mod 32 = 8 + r"
    "(48 + r) mod 32 = 16 + r" "(56 + r) mod 32 = 24 + r"
  using assms by (auto intro!: mod_nat_eqI)

lemma bit_swap32:
  assumes "r < 8"
  shows "bit (swap32 x) r = bit x (24 + r)" "bit (swap32 x) (8 + r) = bit x (16 + r)"
   "bit (swap32 x) (16 + r) = bit x (8 + r)" "bit (swap32 x) (24 + r) = bit x r"
  unfolding swap32_def Let_def bit_exchange bit_rotate swap32_mask_bits using assms by (auto simp: byte_offset_mod dest: bit_imp_le_length)

lemma swap64_mask_bits:
  "bit (0x00ff00ff00ff00ff::u64) n \<longleftrightarrow> n < 64 \<and> n mod 16 < 8"
  "bit (0xff00ff00ff00ff00::u64) n \<longleftrightarrow> n < 64 \<and> 8 \<le> n mod 16"
  "bit (0x0000ffff0000ffff::u64) n \<longleftrightarrow> n < 64 \<and> n mod 32 < 16"
  "bit (0xffff0000ffff0000::u64) n \<longleftrightarrow> n < 64 \<and> 16 \<le> n mod 32"
proof -
  have a: "\<forall>n\<in>set [0..<64]. bit (0x00ff00ff00ff00ff::u64) n \<longleftrightarrow> n mod 16 < 8"
    by (simp add: upt_rec)
  have b: "\<forall>n\<in>set [0..<64]. bit (0xff00ff00ff00ff00::u64) n \<longleftrightarrow> 8 \<le> n mod 16"
    by (simp add: upt_rec)
  have c: "\<forall>n\<in>set [0..<64]. bit (0x0000ffff0000ffff::u64) n \<longleftrightarrow> n mod 32 < 16"
    by (simp add: upt_rec)
  have d: "\<forall>n\<in>set [0..<64]. bit (0xffff0000ffff0000::u64) n \<longleftrightarrow> 16 \<le> n mod 32"
    by (simp add: upt_rec)
  show "bit (0x00ff00ff00ff00ff::u64) n \<longleftrightarrow> n < 64 \<and> n mod 16 < 8"
  "bit (0xff00ff00ff00ff00::u64) n \<longleftrightarrow> n < 64 \<and> 8 \<le> n mod 16"
  "bit (0x0000ffff0000ffff::u64) n \<longleftrightarrow> n < 64 \<and> n mod 32 < 16"
  "bit (0xffff0000ffff0000::u64) n \<longleftrightarrow> n < 64 \<and> 16 \<le> n mod 32"
    using a b c d by (auto dest: bit_imp_le_length)
qed

lemma bit_swap64:
  assumes "r < 8"
  shows "bit (swap64 x) r = bit x (56 + r)" "bit (swap64 x) (8 + r) = bit x (48 + r)"
   "bit (swap64 x) (16 + r) = bit x (40 + r)" "bit (swap64 x) (24 + r) = bit x (32 + r)"
  "bit (swap64 x) (32 + r) = bit x (24 + r)" "bit (swap64 x) (40 + r) = bit x (16 + r)"
   "bit (swap64 x) (48 + r) = bit x (8 + r)" "bit (swap64 x) (56 + r) = bit x r"
  unfolding swap64_def Let_def bit_exchange bit_rotate swap64_mask_bits using assms by (auto simp: byte_offset_mod dest: bit_imp_le_length)

lemma byte_index_cases:
  assumes "n < (64::nat)"
  shows "\<exists>r<8. n = r \<or> n = 8 + r \<or> n = 16 + r \<or> n = 24 + r \<or> n = 32 + r \<or> n = 40 + r \<or> n = 48 + r \<or> n = 56 + r"
proof -
  have n: "n = 8 * (n div 8) + n mod 8" by simp
  have "n div 8 < 8" using assms by simp
  then have "n div 8 = 0 \<or> n div 8 = 1 \<or> n div 8 = 2 \<or> n div 8 = 3 \<or> n div 8 = 4 \<or> n div 8 = 5 \<or> n div 8 = 6 \<or> n div 8 = 7"
    by linarith
  then show ?thesis using n
    by (intro exI[of _ "n mod 8"] conjI; elim disjE) (simp_all only: mod_less_divisor, simp_all)
qed

lemma swap64_swap64: "swap64 (swap64 x) = x"
proof (rule bit_word_eqI)
  fix n assume "n < LENGTH(64)"
  then have "n < 64" by simp
  from byte_index_cases[OF this] show "bit (swap64 (swap64 x)) n = bit x n"
    by (elim exE conjE disjE) (simp_all only: bit_swap64)
qed

lemma swap32_swap32: "swap32 (swap32 x) = x"
proof (rule bit_word_eqI)
  fix n assume "n < LENGTH(32)"
  then have "n < 64" "n < 32" by simp_all
  from byte_index_cases[OF this(1)] \<open>n < 32\<close> show "bit (swap32 (swap32 x)) n = bit x n"
    by (elim exE conjE disjE) (simp_all add: bit_swap32)
qed

lemma mem_inplace_swap_twice:
  "mem_inplace_swap32 (mem_inplace_swap32 mem32) = mem32"
  "mem_inplace_swap64 (mem_inplace_swap64 mem64) = mem64"
  by (simp_all add: mem_inplace_swap32_def mem_inplace_swap64_def o_def swap32_swap32 swap64_swap64
      cong: map_cong)

end
