(* ===== verification/Base58.thy ===== *)
theory Base58
  imports IntUtil StreamTools StringTools
begin

text \<open>
  Base58 text and addresses, \<open>src/src/Common/Base58.cpp\<close>. Data are byte lists and encodings are
  strings. A returned \<open>false\<close> is \<open>None\<close>. The hash \<open>cn_fast_hash\<close> of the address checksum is the
  argument \<open>H\<close>.
\<close>

section \<open>Definitions\<close>

definition alphabet :: string where
  "alphabet = ''123456789ABCDEFGHJKLMNPQRSTUVWXYZabcdefghijkmnopqrstuvwxyz''"

abbreviation (input) "alphabet_size \<equiv> 58 :: nat"

definition encoded_block_sizes :: "nat list" where
  "encoded_block_sizes = [0, 2, 3, 5, 6, 7, 9, 10, 11]"

abbreviation (input) "full_block_size \<equiv> 8 :: nat"
abbreviation (input) "full_encoded_block_size \<equiv> 11 :: nat"
abbreviation (input) "addr_checksum_size \<equiv> 4 :: nat"

definition reverse_alphabet_data :: "int list" where
  "reverse_alphabet_data =
    fold (\<lambda>i m. m[of_char (alphabet ! i) - 49 := int i]) [0..<alphabet_size] (replicate 74 (- 1))"

definition reverse_alphabet :: "char \<Rightarrow> int" where
  "reverse_alphabet letter =
    (if of_char letter < (49 :: nat) then - 1
     else let idx = of_char letter - 49 in
       if idx < length reverse_alphabet_data then reverse_alphabet_data ! idx else - 1)"

definition decoded_block_sizes :: "nat \<Rightarrow> int" where
  "decoded_block_sizes n =
    fold (\<lambda>i m. m[encoded_block_sizes ! i := int i]) [0..<full_block_size + 1]
      (replicate (full_encoded_block_size + 1) (- 1)) ! n"

definition uint_8be_to_64 :: "byte list \<Rightarrow> u64" where
  "uint_8be_to_64 data = fold (\<lambda>b res. push_bit 8 res OR ucast b) data 0"

definition uint_64_to_8be :: "u64 \<Rightarrow> nat \<Rightarrow> byte list" where
  "uint_64_to_8be num n = drop (8 - n) (rev (le_bytes 8 (unat num)))"

function encode_block_loop :: "u64 \<Rightarrow> int \<Rightarrow> string \<Rightarrow> string" where
  "encode_block_loop num i res =
    (if 0 < num
     then encode_block_loop (num div 58) (i - 1) (res[nat i := alphabet ! unat (num mod 58)])
     else res)"
  by pat_completeness auto
termination by (relation "measure (\<lambda>(num, _, _). unat num)") (auto simp: unat_div word_less_nat_alt)

declare encode_block_loop.simps [simp del]

definition encode_block :: "byte list \<Rightarrow> string" where
  "encode_block block =
    (let n = encoded_block_sizes ! length block in
     encode_block_loop (uint_8be_to_64 block) (int n - 1) (replicate n (alphabet ! 0)))"

text \<open>The loop of \<open>decode_block\<close> goes from the last character to the first; it is given them reversed.\<close>

fun decode_block_loop :: "string \<Rightarrow> u64 \<Rightarrow> u64 \<Rightarrow> u64 option" where
  "decode_block_loop [] res_num order = Some res_num"
| "decode_block_loop (c # block) res_num order =
    (let digit = reverse_alphabet c in
     if digit < 0 then None
     else let (lo, product_hi) = mul128 order (word_of_int digit);
              tmp = res_num + lo in
       if tmp < res_num \<or> product_hi \<noteq> 0 then None
       else decode_block_loop block tmp (order * 58))"

definition decode_block :: "string \<Rightarrow> byte list option" where
  "decode_block block =
    (let res_size = decoded_block_sizes (length block) in
     if res_size \<le> 0 then None
     else do {
       res_num \<leftarrow> decode_block_loop (rev block) 0 1;
       if nat res_size < full_block_size \<and> push_bit (8 * nat res_size) 1 \<le> res_num then None
       else Some (uint_64_to_8be res_num (nat res_size)) })"

text \<open>Full blocks first, then the shorter last block.\<close>

fun encode_blocks :: "nat \<Rightarrow> byte list \<Rightarrow> string" where
  "encode_blocks 0 data = (if data = [] then [] else encode_block data)"
| "encode_blocks (Suc n) data = encode_block (take full_block_size data) @ encode_blocks n (drop full_block_size data)"

definition encode :: "byte list \<Rightarrow> string" where
  "encode data = encode_blocks (length data div full_block_size) data"

fun decode_blocks :: "nat \<Rightarrow> string \<Rightarrow> byte list option" where
  "decode_blocks 0 enc = (if enc = [] then Some [] else decode_block enc)"
| "decode_blocks (Suc n) enc = do {
     b \<leftarrow> decode_block (take full_encoded_block_size enc);
     bs \<leftarrow> decode_blocks n (drop full_encoded_block_size enc);
     Some (b @ bs) }"

definition decode :: "string \<Rightarrow> byte list option" where
  "decode enc =
    (if enc = [] then Some []
     else if decoded_block_sizes (length enc mod full_encoded_block_size) < 0 then None
     else decode_blocks (length enc div full_encoded_block_size) enc)"

definition encode_addr :: "(byte list \<Rightarrow> byte list) \<Rightarrow> u64 \<Rightarrow> byte list \<Rightarrow> string" where
  "encode_addr H tag data =
    (let buf = get_varint_data tag @ data in encode (buf @ take addr_checksum_size (H buf)))"

definition decode_addr :: "(byte list \<Rightarrow> byte list) \<Rightarrow> string \<Rightarrow> (u64 \<times> byte list) option" where
  "decode_addr H addr = do {
     addr_data \<leftarrow> decode addr;
     if length addr_data \<le> addr_checksum_size then None
     else do {
       let checksum = drop (length addr_data - addr_checksum_size) addr_data;
       let addr_data = take (length addr_data - addr_checksum_size) addr_data;
       if take addr_checksum_size (H addr_data) \<noteq> checksum then None
       else case read_varint addr_data of (rd, tag, rest) \<Rightarrow>
         if rd \<le> 0 then None else Some (tag, drop (nat rd) addr_data) } }"

section \<open>Digits\<close>

primrec digits58 :: "nat \<Rightarrow> nat \<Rightarrow> nat list" where
  "digits58 0 v = []"
| "digits58 (Suc n) v = v mod 58 # digits58 n (v div 58)"

fun val58 :: "nat list \<Rightarrow> nat" where
  "val58 [] = 0"
| "val58 (d # ds) = d + 58 * val58 ds"

lemma length_digits58 [simp]: "length (digits58 n v) = n"
  by (induction n arbitrary: v) simp_all

lemma val58_digits58: "val58 (digits58 n v) = v mod 58 ^ n"
  by (induction n arbitrary: v) (simp_all add: mod_mult2_eq)

lemma digits58_val58: "list_all (\<lambda>d. d < 58) ds \<Longrightarrow> digits58 (length ds) (val58 ds) = ds"
  by (induction ds) simp_all

lemma digits58_bound: "list_all (\<lambda>d. d < 58) (digits58 n v)"
  by (induction n arbitrary: v) simp_all

lemma val58_less: "list_all (\<lambda>d. d < 58) ds \<Longrightarrow> val58 ds < 58 ^ length ds"
  by (induction ds) simp_all

section \<open>The alphabet\<close>

lemma length_alphabet: "length alphabet = 58"
  by (simp add: alphabet_def)

lemma upt_tables:
  "[0..<58::nat] = [0,1,2,3,4,5,6,7,8,9,10,11,12,13,14,15,16,17,18,19,20,21,22,23,24,25,26,27,28,
    29,30,31,32,33,34,35,36,37,38,39,40,41,42,43,44,45,46,47,48,49,50,51,52,53,54,55,56,57]"
  "[0..<74::nat] = [0,1,2,3,4,5,6,7,8,9,10,11,12,13,14,15,16,17,18,19,20,21,22,23,24,25,26,27,28,
    29,30,31,32,33,34,35,36,37,38,39,40,41,42,43,44,45,46,47,48,49,50,51,52,53,54,55,56,57,58,59,60,
    61,62,63,64,65,66,67,68,69,70,71,72,73]"
  "[0..<9::nat] = [0,1,2,3,4,5,6,7,8]"
  by (simp_all add: upt_rec)

lemma replicate_74: "replicate 74 (- 1 :: int) = [
    -1,-1,-1,-1,-1,-1,-1,-1,-1,-1,-1,-1,-1,-1,-1,-1,-1,-1,-1,-1,-1,-1,-1,-1,-1,-1,-1,-1,-1,-1,-1,-1,
    -1,-1,-1,-1,-1,-1,-1,-1,-1,-1,-1,-1,-1,-1,-1,-1,-1,-1,-1,-1,-1,-1,-1,-1,-1,-1,-1,-1,-1,-1,-1,-1,
    -1,-1,-1,-1,-1,-1,-1,-1,-1,-1]"
  by (simp add: numeral_eq_Suc)

lemma reverse_alphabet_data_eq: "reverse_alphabet_data =
  [0,1,2,3,4,5,6,7,8,-1,-1,-1,-1,-1,-1,-1,9,10,11,12,13,14,15,16,-1,17,18,19,20,21,-1,22,23,24,25,26,
   27,28,29,30,31,32,-1,-1,-1,-1,-1,-1,33,34,35,36,37,38,39,40,41,42,43,-1,44,45,46,47,48,49,50,51,
   52,53,54,55,56,57]"
  unfolding reverse_alphabet_data_def upt_tables replicate_74 alphabet_def by simp

lemma reverse_alphabet_nth: "d < 58 \<Longrightarrow> reverse_alphabet (alphabet ! d) = int d"
proof -
  have "\<forall>d\<in>set [0..<58]. reverse_alphabet (alphabet ! d) = int d"
    unfolding reverse_alphabet_def reverse_alphabet_data_eq upt_tables alphabet_def Let_def by simp
  then show "d < 58 \<Longrightarrow> ?thesis" by simp
qed

lemma reverse_alphabet_inv:
  assumes "0 \<le> reverse_alphabet c"
  shows "reverse_alphabet c < 58" "alphabet ! nat (reverse_alphabet c) = c"
proof -
  let ?P = "\<lambda>i. reverse_alphabet_data ! i < 0 \<or>
    reverse_alphabet_data ! i < 58 \<and> of_char (alphabet ! nat (reverse_alphabet_data ! i)) = i + 49"
  have all: "\<forall>i\<in>set [0..<74]. ?P i"
    unfolding reverse_alphabet_data_eq upt_tables alphabet_def by simp
  define i :: nat where "i = of_char c - 49"
  have l: "length reverse_alphabet_data = 74" by (simp add: reverse_alphabet_data_eq)
  have i: "49 \<le> (of_char c :: nat)" "i < 74" "reverse_alphabet c = reverse_alphabet_data ! i"
    using assms by (auto simp: reverse_alphabet_def i_def l Let_def split: if_splits)
  then have "?P i" using all by simp
  then have "reverse_alphabet c < 58 \<and> of_char (alphabet ! nat (reverse_alphabet c)) = (of_char c :: nat)"
    using assms i by (auto simp: i_def)
  then show "reverse_alphabet c < 58" "alphabet ! nat (reverse_alphabet c) = c"
    by (auto simp: of_char_eq_iff)
qed

lemma encoded_sizes:
  assumes "n \<le> 8"
  shows "decoded_block_sizes (encoded_block_sizes ! n) = int n"
    "256 ^ n \<le> (58 :: nat) ^ (encoded_block_sizes ! n)" "encoded_block_sizes ! n \<le> 11"
    "0 < n \<Longrightarrow> 0 < encoded_block_sizes ! n"
proof -
  have "n \<in> set [0..<9]" using assms by simp
  then have n: "n \<in> {0,1,2,3,4,5,6,7,8}" unfolding upt_tables by simp
  then show "decoded_block_sizes (encoded_block_sizes ! n) = int n"
    "256 ^ n \<le> (58 :: nat) ^ (encoded_block_sizes ! n)" "encoded_block_sizes ! n \<le> 11"
    "0 < n \<Longrightarrow> 0 < encoded_block_sizes ! n"
    by (auto simp: decoded_block_sizes_def encoded_block_sizes_def upt_rec)
qed

section \<open>Blocks\<close>

lemma unat_div58: "unat (num div 58 :: u64) = unat num div 58" "unat (num mod 58 :: u64) = unat num mod 58"
  by (simp_all add: unat_div unat_mod)

lemma encode_block_loop_digits:
  assumes "unat num < 58 ^ n"
  shows "encode_block_loop num (int n - 1) (replicate n (alphabet ! 0) @ suf)
    = map ((!) alphabet) (rev (digits58 n (unat num))) @ suf"
  using assms
proof (induction n arbitrary: num suf)
  case 0
  then show ?case by (subst encode_block_loop.simps) (simp add: word_less_nat_alt)
next
  case (Suc n)
  let ?c = "alphabet ! (unat num mod 58)"
  have zero: "digits58 m 0 = replicate m 0" for m by (induction m) simp_all
  show ?case
  proof (cases "num = 0")
    case True
    then show ?thesis by (subst encode_block_loop.simps) (simp add: zero replicate_append_same flip: replicate_Suc)
  next
    case False
    have upd: "(replicate (Suc n) (alphabet ! 0) @ suf)[n := ?c] = replicate n (alphabet ! 0) @ ?c # suf"
      by (simp add: replicate_append_same[symmetric] list_update_append del: replicate_append_same)
    have "encode_block_loop num (int (Suc n) - 1) (replicate (Suc n) (alphabet ! 0) @ suf)
        = encode_block_loop (num div 58) (int n - 1) (replicate n (alphabet ! 0) @ ?c # suf)"
      using False upd by (subst encode_block_loop.simps) (simp add: word_less_nat_alt unat_div58 unat_gt_0)
    also have "\<dots> = map ((!) alphabet) (rev (digits58 n (unat num div 58))) @ ?c # suf"
      using Suc.IH[of "num div 58" "?c # suf"] Suc.prems
      by (simp add: unat_div58 less_mult_imp_div_less mult.commute)
    finally show ?thesis by simp
  qed
qed

lemma decode_block_loop_iff:
  assumes "unat order = 58 ^ k" "k + length cs \<le> 11"
  shows "decode_block_loop cs r order = Some r' \<longleftrightarrow>
    (\<exists>ds. cs = map ((!) alphabet) ds \<and> list_all (\<lambda>d. d < 58) ds \<and> unat r' = unat r + 58 ^ k * val58 ds)"
  using assms
proof (induction cs arbitrary: r order k)
  case Nil
  then show ?case by (auto simp: word_unat_eq_iff)
next
  case (Cons c cs)
  show ?case
  proof (cases "reverse_alphabet c < 0")
    case True
    have "c \<noteq> alphabet ! d" if "d < 58" for d using True reverse_alphabet_nth[OF that] by auto
    then show ?thesis using True by (auto simp: Cons_eq_map_conv) blast
  next
    case False
    define d where "d = nat (reverse_alphabet c)"
    have d: "d < 58" "c = alphabet ! d" "reverse_alphabet c = int d"
      using reverse_alphabet_inv[of c] False by (auto simp: d_def)
    obtain lo hi where m: "mul128 order (word_of_int (int d)) = (lo, hi)" by fastforce
    have ud: "unat (word_of_int (int d) :: u64) = d" using d(1) by (simp add: unat_of_nat)
    have prod: "unat hi * 2 ^ 64 + unat lo = 58 ^ k * d"
      using mul128_correct[OF m] ud Cons.prems(1) by simp
    show ?thesis
    proof (cases "r + lo < r \<or> hi \<noteq> 0")
      case True
      have "2 ^ 64 \<le> unat r + 58 ^ k * d"
      proof (cases "hi = 0")
        case True
        then show ?thesis using \<open>r + lo < r \<or> hi \<noteq> 0\<close> prod by (simp add: add_carry_iff)
      next
        case False
        then have "1 \<le> unat hi" by (simp add: Suc_le_eq unat_gt_0)
        then have "1 * 2 ^ 64 \<le> unat hi * 2 ^ 64" by (rule mult_right_mono) simp
        then show ?thesis unfolding prod[symmetric] by simp
      qed
      moreover have "e = d" if "c = alphabet ! e" "e < 58" for e
        using that d reverse_alphabet_nth by (metis of_nat_eq_iff)
      moreover have "unat r' < 2 ^ 64" using unat_less[of r'] by simp
      ultimately have "\<not> (\<exists>ds. c # cs = map ((!) alphabet) ds \<and> list_all (\<lambda>d. d < 58) ds \<and> unat r' = unat r + 58 ^ k * val58 ds)"
        by (auto simp: Cons_eq_map_conv distrib_left)
      then show ?thesis using True m d by (simp add: Let_def)
    next
      case False
      then have lo: "unat lo = 58 ^ k * d" using prod by simp
      have rl: "unat (r + lo) = unat r + 58 ^ k * d"
        using False lo by (simp add: add_carry_iff unat_plus)
      have step: "decode_block_loop (c # cs) r order = decode_block_loop cs (r + lo) (order * 58)"
        using False m d by (simp add: Let_def)
      have ex: "(\<exists>ds. c # cs = map ((!) alphabet) ds \<and> list_all (\<lambda>d. d < 58) ds \<and> P (val58 ds)) \<longleftrightarrow>
          (\<exists>ds. cs = map ((!) alphabet) ds \<and> list_all (\<lambda>d. d < 58) ds \<and> P (d + 58 * val58 ds))" for P
      proof
        assume "\<exists>ds. c # cs = map ((!) alphabet) ds \<and> list_all (\<lambda>d. d < 58) ds \<and> P (val58 ds)"
        then obtain e es where "c = alphabet ! e" "e < 58" "cs = map ((!) alphabet) es" "list_all (\<lambda>d. d < 58) es" "P (e + 58 * val58 es)"
          by (auto simp: Cons_eq_map_conv)
        moreover then have "e = d" using d reverse_alphabet_nth by (metis of_nat_eq_iff)
        ultimately show "\<exists>ds. cs = map ((!) alphabet) ds \<and> list_all (\<lambda>d. d < 58) ds \<and> P (d + 58 * val58 ds)" by auto
      next
        assume "\<exists>ds. cs = map ((!) alphabet) ds \<and> list_all (\<lambda>d. d < 58) ds \<and> P (d + 58 * val58 ds)"
        then obtain ds where "cs = map ((!) alphabet) ds" "list_all (\<lambda>d. d < 58) ds" "P (d + 58 * val58 ds)" by auto
        then show "\<exists>ds. c # cs = map ((!) alphabet) ds \<and> list_all (\<lambda>d. d < 58) ds \<and> P (val58 ds)"
          using d by (intro exI[of _ "d # ds"]) simp
      qed
      show ?thesis
      proof (cases "cs = []")
        case True
        show ?thesis unfolding step ex[of "\<lambda>v. unat r' = unat r + 58 ^ k * v"] using True rl by (auto simp: word_unat_eq_iff)
      next
        case False
        then have "k + 1 \<le> 10" using Cons.prems(2) by (cases cs) auto
        then have "(58::nat) ^ (k + 1) \<le> 58 ^ 10" by (intro power_increasing) auto
        then have "unat (order * 58) = 58 ^ (k + 1)" using Cons.prems(1) by (simp add: unat_times mult.commute)
        then show ?thesis unfolding step ex[of "\<lambda>v. unat r' = unat r + 58 ^ k * v"] using Cons.IH[of "order * 58" "k + 1" "r + lo"] Cons.prems(2) rl
          by (simp add: algebra_simps)
      qed
    qed
  qed
qed

lemma uint_8be_to_64_value:
  "length data \<le> 8 \<Longrightarrow> unat (uint_8be_to_64 data) = le_nat (rev data)"
proof (induction data rule: rev_induct)
  case Nil
  show ?case by (simp add: uint_8be_to_64_def)
next
  case (snoc b data)
  let ?r = "uint_8be_to_64 data"
  have r: "unat ?r = le_nat (rev data)" using snoc by simp
  have "le_nat (rev data) < 256 ^ length data" using le_nat_less[of "rev data"] by simp
  also have "\<dots> \<le> 256 ^ 7" using snoc.prems by (intro power_increasing) simp_all
  finally have "unat ?r * 2 ^ 8 < 2 ^ 64" unfolding r by simp
  moreover have "unat (ucast b :: u64) = unat b" by (simp add: unat_ucast_up)
  ultimately have "unat (push_bit 8 ?r OR ucast b) = unat ?r * 2 ^ 8 + unat b"
    using unat_push_bit_or[of "ucast b :: u64" 8 ?r] unat_byte_less[of b] by simp
  then show ?case using r by (simp add: uint_8be_to_64_def)
qed

lemma take_le_bytes: "n \<le> m \<Longrightarrow> take n (le_bytes m v) = le_bytes n v"
proof (induction n arbitrary: m v)
  case (Suc n)
  then show ?case by (cases m) simp_all
qed simp

lemma uint_64_to_8be_le: "n \<le> 8 \<Longrightarrow> uint_64_to_8be num n = rev (le_bytes n (unat num))"
  by (simp add: uint_64_to_8be_def drop_rev take_le_bytes)

lemma encode_block_digits:
  assumes "length b \<le> 8"
  defines "n \<equiv> encoded_block_sizes ! length b"
  shows "encode_block b = map ((!) alphabet) (rev (digits58 n (le_nat (rev b))))"
    "length (encode_block b) = n"
proof -
  have "le_nat (rev b) < 256 ^ length b" using le_nat_less[of "rev b"] by simp
  also have "\<dots> \<le> 58 ^ n" using encoded_sizes(2)[OF assms(1)] by (simp add: n_def)
  finally show e: "encode_block b = map ((!) alphabet) (rev (digits58 n (le_nat (rev b))))"
    using encode_block_loop_digits[of "uint_8be_to_64 b" n "[]"] assms(1)
    by (simp add: encode_block_def n_def Let_def uint_8be_to_64_value)
  show "length (encode_block b) = n" unfolding e by simp
qed

lemma decoded_sizes:
  assumes "m \<le> 11" "0 < decoded_block_sizes m"
  shows "nat (decoded_block_sizes m) \<le> 8" "encoded_block_sizes ! nat (decoded_block_sizes m) = m"
proof -
  have "m \<in> {0,1,2,3,4,5,6,7,8,9,10,11}" using assms(1) by (simp add: atMost_Suc numeral_eq_Suc le_Suc_eq)
  moreover have u: "[0..<full_block_size + 1] = [0,1,2,3,4,5,6,7,8]" by (simp add: upt_rec)
  moreover have r: "replicate (full_encoded_block_size + 1) (- 1 :: int) = [-1,-1,-1,-1,-1,-1,-1,-1,-1,-1,-1,-1]"
    by (simp add: numeral_eq_Suc)
  ultimately show "nat (decoded_block_sizes m) \<le> 8" "encoded_block_sizes ! nat (decoded_block_sizes m) = m"
    using assms(2) unfolding decoded_block_sizes_def u r encoded_block_sizes_def by auto
qed

lemma decode_block_iff:
  assumes "length enc \<le> 11"
  shows "decode_block enc = Some b \<longleftrightarrow> 1 \<le> length b \<and> length b \<le> 8 \<and> enc = encode_block b"
proof
  assume dec: "decode_block enc = Some b"
  define s where "s = nat (decoded_block_sizes (length enc))"
  obtain r where r: "decode_block_loop (rev enc) 0 1 = Some r" "s < 8 \<Longrightarrow> \<not> push_bit (8 * s) 1 \<le> r"
    "b = uint_64_to_8be r s" "0 < decoded_block_sizes (length enc)"
    using dec by (auto simp: decode_block_def Let_def bind_eq_Some_conv s_def not_le split: if_splits)
  have s: "0 < s" "s \<le> 8" "encoded_block_sizes ! s = length enc"
    using decoded_sizes[OF assms r(4)] r(4) by (simp_all add: s_def)
  obtain ds where ds: "rev enc = map ((!) alphabet) ds" "list_all (\<lambda>d. d < 58) ds" "unat r = val58 ds"
    using decode_block_loop_iff[of 1 0 "rev enc" 0 r] r(1) assms by auto
  have len: "length ds = length enc" using ds(1) by (metis length_map length_rev)
  have b: "b = rev (le_bytes s (unat r))" using r(3) s by (simp add: uint_64_to_8be_le)
  have "unat r < 256 ^ s"
  proof (cases "s = 8")
    case True
    then show ?thesis using unat_less[of r] by simp
  next
    case False
    then have "8 * s < 64" "push_bit (8 * s) (1::u64) = 2 ^ (8 * s)" using s by (simp_all add: push_bit_eq_mult)
    moreover have "unat (2 ^ (8 * s) :: u64) = 2 ^ (8 * s)"
      using \<open>8 * s < 64\<close> by (intro unat_power2) simp
    ultimately show ?thesis using r(2) False s by (simp add: word_le_nat_alt power_mult)
  qed
  then have "le_nat (rev b) = val58 ds" using b ds(3) by simp
  then have "encode_block b = map ((!) alphabet) (rev (digits58 (length ds) (val58 ds)))"
    using encode_block_digits(1)[of b] s b len by simp
  also have "\<dots> = enc" using ds by (simp add: digits58_val58 rev_map[symmetric] flip: ds(1))
  finally show "1 \<le> length b \<and> length b \<le> 8 \<and> enc = encode_block b" using s b by simp
next
  assume *: "1 \<le> length b \<and> length b \<le> 8 \<and> enc = encode_block b"
  define n where "n = encoded_block_sizes ! length b"
  define v where "v = le_nat (rev b)"
  note e = encode_block_digits[of b, folded n_def v_def] and sz = encoded_sizes[of "length b", folded n_def]
  have v: "v < 256 ^ length b" using le_nat_less[of "rev b"] by (simp add: v_def)
  also have p: "(256::nat) ^ length b \<le> 256 ^ 8" using * by (intro power_increasing) auto
  finally have v64: "v < 2 ^ 64" by simp
  have "v < 58 ^ n" using v sz(2) * by simp
  then have "decode_block_loop (rev enc) 0 1 = Some (word_of_nat v)"
    using decode_block_loop_iff[of 1 0 "rev enc" 0 "word_of_nat v"] * e sz(3) v64
    by (auto simp: rev_map unat_of_nat val58_digits58 digits58_bound intro!: exI[of _ "digits58 n v"])
  moreover have "decoded_block_sizes (length enc) = int (length b)" using * e sz by simp
  moreover have "\<not> push_bit (8 * length b) 1 \<le> (word_of_nat v :: u64)" if "length b < 8"
  proof -
    have "8 * length b < 64" using that by simp
    then have "unat (2 ^ (8 * length b) :: u64) = 2 ^ (8 * length b)"
      by (intro unat_power2) simp
    then show ?thesis using v v64 by (simp add: word_le_nat_alt push_bit_eq_mult power_mult unat_of_nat)
  qed
  moreover have "uint_64_to_8be (word_of_nat v) (length b) = b"
    using * v64 le_bytes_le_nat[of "rev b"] by (simp add: uint_64_to_8be_le unat_of_nat v_def)
  moreover have "\<not> int (length b) \<le> 0" using * by auto
  ultimately show "decode_block enc = Some b"
    by (auto simp: decode_block_def Let_def)
qed

section \<open>Whole strings\<close>

lemma encode_block_full: "length b \<le> 8 \<Longrightarrow> length (encode_block b) = 11 \<longleftrightarrow> length b = 8"
  using encode_block_digits(2)[of b] encoded_sizes(1)[of "length b"] encoded_sizes(1)[of 8]
  by (auto simp: encoded_block_sizes_def)

lemma encode_block_not_Nil: "0 < length b \<Longrightarrow> length b \<le> 8 \<Longrightarrow> encode_block b \<noteq> []"
  using encode_block_digits(2)[of b] encoded_sizes(4)[of "length b"] by auto

lemma decode_blocks_iff:
  "11 * n \<le> length enc \<Longrightarrow> length enc < 11 * n + 11 \<Longrightarrow>
    decode_blocks n enc = Some d \<longleftrightarrow> 8 * n \<le> length d \<and> length d < 8 * n + 8 \<and> enc = encode_blocks n d"
proof (induction n arbitrary: enc d)
  case 0
  show ?case
  proof (cases "enc = []")
    case True
    then show ?thesis using encode_block_not_Nil[of d] by auto
  next
    case False
    have "length d \<noteq> 8" if "enc = encode_block d" using 0 that encode_block_full[of d] by auto
    moreover have "d \<noteq> []" if "enc = encode_block d"
      using that False encode_block_digits(2)[of d] by (auto simp: encoded_block_sizes_def)
    ultimately show ?thesis using False 0 decode_block_iff[of enc d]
      by (auto simp: Suc_le_eq dest: le_neq_implies_less)
  qed
next
  case (Suc n)
  define e1 e2 where "e1 = take 11 enc" and "e2 = drop 11 enc"
  have e: "enc = e1 @ e2" "length e1 = 11" "11 * n \<le> length e2" "length e2 < 11 * n + 11"
    using Suc.prems by (simp_all add: e1_def e2_def)
  have b1: "decode_block e1 = Some b \<longleftrightarrow> length b = 8 \<and> e1 = encode_block b" for b
    using decode_block_iff[of e1 b] e(2) encode_block_full[of b] by auto
  have "decode_blocks (Suc n) enc = Some d \<longleftrightarrow>
      (\<exists>b bs. decode_block e1 = Some b \<and> decode_blocks n e2 = Some bs \<and> d = b @ bs)"
    by (auto simp: bind_eq_Some_conv e1_def e2_def)
  also have "\<dots> \<longleftrightarrow> (\<exists>b bs. (length b = 8 \<and> e1 = encode_block b) \<and> 8 * n \<le> length bs \<and> length bs < 8 * n + 8 \<and>
      e2 = encode_blocks n bs \<and> d = b @ bs)"
    unfolding Suc.IH[OF e(3,4)] b1 conj_assoc ..
  also have "\<dots> \<longleftrightarrow> 8 * Suc n \<le> length d \<and> length d < 8 * Suc n + 8 \<and> enc = encode_blocks (Suc n) d"
  proof
    assume "\<exists>b bs. (length b = 8 \<and> e1 = encode_block b) \<and> 8 * n \<le> length bs \<and> length bs < 8 * n + 8 \<and>
      e2 = encode_blocks n bs \<and> d = b @ bs"
    then show "8 * Suc n \<le> length d \<and> length d < 8 * Suc n + 8 \<and> enc = encode_blocks (Suc n) d"
      using e by auto
  next
    assume a: "8 * Suc n \<le> length d \<and> length d < 8 * Suc n + 8 \<and> enc = encode_blocks (Suc n) d"
    moreover from a have "length (encode_block (take 8 d)) = 11" using encode_block_full[of "take 8 d"] by simp
    ultimately show "\<exists>b bs. (length b = 8 \<and> e1 = encode_block b) \<and> 8 * n \<le> length bs \<and> length bs < 8 * n + 8 \<and>
      e2 = encode_blocks n bs \<and> d = b @ bs"
      by (intro exI[of _ "take 8 d"] exI[of _ "drop 8 d"]) (auto simp: e1_def e2_def)
  qed
  finally show ?case .
qed

lemma length_encode_blocks:
  "8 * n \<le> length d \<Longrightarrow> length d < 8 * n + 8 \<Longrightarrow>
    length (encode_blocks n d) = 11 * n + encoded_block_sizes ! (length d - 8 * n)"
proof (induction n arbitrary: d)
  case 0
  then show ?case using encode_block_digits(2)[of d] by (auto simp: encoded_block_sizes_def)
next
  case (Suc n)
  then show ?case using encode_block_full[of "take 8 d"] Suc.IH[of "drop 8 d"] by (simp add: diff_diff_left)
qed

lemma encoded_partial: "k < 8 \<Longrightarrow> encoded_block_sizes ! k < 11"
  using encoded_sizes(1,3)[of k] encoded_sizes(1)[of 8] by (fastforce simp: encoded_block_sizes_def le_less)

lemma decode_iff: "decode enc = Some d \<longleftrightarrow> enc = encode d"
proof
  assume a: "decode enc = Some d"
  show "enc = encode d"
  proof (cases "enc = []")
    case True
    then show ?thesis using a by (simp add: decode_def encode_def)
  next
    case False
    define n where "n = length enc div 11"
    have "decode_blocks n enc = Some d" using a False by (auto simp: decode_def n_def split: if_splits)
    moreover have "11 * n \<le> length enc" "length enc < 11 * n + 11" by (auto simp: n_def)
    ultimately have *: "8 * n \<le> length d" "length d < 8 * n + 8" "enc = encode_blocks n d"
      using decode_blocks_iff by auto
    then have "length d div 8 = n" by (intro div_nat_eqI) auto
    then show ?thesis using * by (simp add: encode_def)
  qed
next
  define n where "n = length d div 8"
  have n: "8 * n \<le> length d" "length d < 8 * n + 8" "length d - 8 * n < 8" by (auto simp: n_def)
  have e: "encode d = encode_blocks n d" by (simp add: encode_def n_def)
  note len = length_encode_blocks[OF n(1,2)] and p = encoded_partial[OF n(3)]
  have "length (encode d) div 11 = n" using len p unfolding e by (intro div_nat_eqI) auto
  moreover have "length (encode d) mod 11 = encoded_block_sizes ! (length d - 8 * n)" using len p unfolding e by simp
  moreover have "decode_blocks n (encode d) = Some d" using decode_blocks_iff[of n "encode d" d] n len p e by simp
  moreover have "d = []" if "encode d = []"
    using that e len encoded_sizes(4)[of "length d - 8 * n"] n by (cases n) auto
  moreover assume "enc = encode d"
  ultimately show "decode enc = Some d" using encoded_sizes(1)[of "length d - 8 * n"] n
    by (auto simp: decode_def encode_def)
qed

lemma read_varint_varint:
  fixes v :: u64
  shows "read_varint (varint (unat v) @ rest) = (int (length (varint (unat v))), v, rest)"
  using read_varint_loop_readVarint_loop[where ?'a = 64, of "varint (unat v) @ rest" 0 0 0]
    readVarint_correct[where ?'a = 64, of "varint (unat v) @ rest" v rest]
  by (simp add: read_varint_def readVarint_def)

lemma decode_addr_encode_addr:
  assumes "\<And>x. addr_checksum_size \<le> length (H x)"
  shows "decode_addr H (encode_addr H tag data) = Some (tag, data)"
proof -
  define buf where "buf = varint (unat tag) @ data"
  have "length (take addr_checksum_size (H buf)) = addr_checksum_size" using assms by simp
  moreover have "buf \<noteq> []" by (simp add: buf_def)
  moreover have "decode (encode (buf @ take addr_checksum_size (H buf))) = Some (buf @ take addr_checksum_size (H buf))"
    by (simp add: decode_iff)
  moreover have "read_varint buf = (int (length (varint (unat tag))), tag, data)"
    by (simp add: buf_def read_varint_varint)
  moreover have "drop (length (varint (unat tag))) buf = data" by (simp add: buf_def)
  moreover have "varint (unat tag) \<noteq> []" by simp
  ultimately show ?thesis
    by (simp add: decode_addr_def encode_addr_def Let_def get_varint_data_varint flip: buf_def)
qed

section \<open>Properties\<close>

text \<open>
  C17: Base58 decoding is the exact inverse of encoding: a string is accepted if and only if it is
  the encoding of the bytes returned.
\<close>

theorem base58_exact: "decode enc = Some data \<longleftrightarrow> enc = encode data"
  by (rule decode_iff)

end
