(* ===== verification/BasicImpl.thy ===== *)
theory BasicImpl
  imports FormatUtils Base58
begin

text \<open>
  The helper functions of \<open>src/src/DynexCNCore/DynexCNBasicImpl.cpp\<close>: the block-size penalty on an
  amount, and account addresses as strings. A failing \<open>assert\<close> is the value \<open>None\<close>.
\<close>

section \<open>Definitions\<close>

definition getPenalizedAmount :: "u64 \<Rightarrow> u64 \<Rightarrow> u64 \<Rightarrow> u64 option" where
  "getPenalizedAmount amount medianSize currentBlockSize =
    (if \<not> currentBlockSize \<le> 2 * medianSize \<or> \<not> medianSize \<le> 0xffffffff \<or> \<not> currentBlockSize \<le> 0xffffffff then None
     else if amount = 0 then Some 0
     else if currentBlockSize \<le> medianSize then Some amount
     else do {
       let multiplicand = (2 * medianSize - currentBlockSize) * currentBlockSize;
       let (productLo, productHi) = mul128 amount multiplicand;
       (_, penalizedAmountHi, penalizedAmountLo) \<leftarrow> div128_32 productHi productLo (ucast medianSize);
       (_, penalizedAmountHi, penalizedAmountLo) \<leftarrow> div128_32 penalizedAmountHi penalizedAmountLo (ucast medianSize);
       if penalizedAmountHi \<noteq> 0 \<or> \<not> penalizedAmountLo < amount then None
       else Some penalizedAmountLo })"

definition write_AccountPublicAddress :: "AccountPublicAddress \<Rightarrow> BinaryArray option" where
  "write_AccountPublicAddress adr = Some (bos_binary (spendPublicKey adr) @ bos_binary (viewPublicKey adr))"

definition read_AccountPublicAddress :: "BinaryArray \<Rightarrow> (AccountPublicAddress \<times> BinaryArray) option" where
  "read_AccountPublicAddress inp = do {
     (spend, inp) \<leftarrow> bis_binary 32 inp;
     (view, inp) \<leftarrow> bis_binary 32 inp;
     Some (\<lparr>spendPublicKey = spend, viewPublicKey = view\<rparr>, inp) }"

definition getAccountAddressAsStr :: "Crypto \<Rightarrow> u64 \<Rightarrow> AccountPublicAddress \<Rightarrow> string option" where
  "getAccountAddressAsStr C prefix adr = do {
     ba \<leftarrow> toBinaryArray write_AccountPublicAddress adr;
     Some (encode_addr (cn_fast_hash C) prefix ba) }"

definition parseAccountAddressString :: "Crypto \<Rightarrow> string \<Rightarrow> (u64 \<times> AccountPublicAddress) option" where
  "parseAccountAddressString C str = do {
     (prefix, data) \<leftarrow> decode_addr (cn_fast_hash C) str;
     adr \<leftarrow> fromBinaryArray read_AccountPublicAddress data;
     if check_key C (spendPublicKey adr) \<and> check_key C (viewPublicKey adr) then Some (prefix, adr) else None }"

definition parse_hash256 :: "string \<Rightarrow> Hash option" where
  "parse_hash256 str_hash = podFromHex 32 str_hash"

section \<open>The penalty\<close>

lemma penalty_factor:
  fixes c m :: nat
  assumes "m < c" "c \<le> 2 * m"
  shows "(2 * m - c) * c < m * m"
proof -
  obtain k where k: "c = m + k" "0 < k" using less_imp_add_positive[OF assms(1)] by auto
  obtain j where j: "m = k + j" using assms(2) k by (metis le_Suc_ex add_le_cancel_left mult_2)
  have "(2 * m - c) * c + k * k = m * m" using k j by (simp add: algebra_simps)
  then show ?thesis using k(2) by (metis less_add_same_cancel1 mult_pos_pos)
qed

lemma getPenalizedAmount_value:
  assumes c: "unat c \<le> 2 * unat m" and m: "unat m < 2 ^ 32" and c32: "unat c < 2 ^ 32"
  shows "\<exists>r. getPenalizedAmount amount m c = Some r \<and>
    unat r = (if c \<le> m then unat amount else unat amount * ((2 * unat m - unat c) * unat c) div (unat m * unat m)) \<and>
    (m < c \<longrightarrow> amount \<noteq> 0 \<longrightarrow> r < amount)"
proof (cases "amount = 0 \<or> c \<le> m")
  case True
  have "unat (2 * m) = 2 * unat m" using m by (simp add: unat_times)
  then show ?thesis using True c m c32
    by (auto simp: getPenalizedAmount_def word_le_nat_alt word_less_nat_alt)
next
  case False
  then have mc: "unat m < unat c" "0 < unat amount" by (auto simp: word_less_nat_alt word_le_nat_alt unat_gt_0)
  have m2: "unat (2 * m) = 2 * unat m" using m by (simp add: unat_times)
  have diff: "unat (2 * m - c) = 2 * unat m - unat c"
    using c m2 by (simp add: unat_sub word_le_nat_alt)
  have f: "(2 * unat m - unat c) * unat c < unat m * unat m" using penalty_factor[OF mc(1) c] .
  have "unat m * unat m < 2 ^ 32 * 2 ^ 32" using m by (intro mult_strict_mono) auto
  then have mult: "unat ((2 * m - c) * c) = (2 * unat m - unat c) * unat c"
    using f diff by (simp add: unat_times)
  obtain lo hi where p: "mul128 amount ((2 * m - c) * c) = (lo, hi)" by fastforce
  have m0: "unat m > 0" using c mc by linarith
  have um: "unat (ucast m :: u32) = unat m" using m by (simp add: unat_ucast)
  then have d0: "(ucast m :: u32) \<noteq> 0" using m0 by (auto simp: unat_eq_0)
  obtain r1 qh ql where q: "div128_32 hi lo (ucast m) = Some (r1, qh, ql)"
    "unat qh * 2 ^ 64 + unat ql = unat amount * ((2 * unat m - unat c) * unat c) div unat m"
    using div128_32_correct[OF d0, of hi lo] mul128_correct[OF p] mult um by auto
  obtain r2 sh sl where s: "div128_32 qh ql (ucast m) = Some (r2, sh, sl)"
    "unat sh * 2 ^ 64 + unat sl = unat amount * ((2 * unat m - unat c) * unat c) div (unat m * unat m)"
    using div128_32_correct[OF d0, of qh ql] q(2) um by (auto simp: div_mult2_eq)
  have "unat amount * ((2 * unat m - unat c) * unat c) < unat amount * (unat m * unat m)"
    using f mc(2) by simp
  then have lt: "unat sh * 2 ^ 64 + unat sl < unat amount"
    unfolding s(2) using m0 by (simp add: less_mult_imp_div_less mult.commute)
  moreover have "unat amount < 2 ^ 64" using unat_less[of amount] by simp
  ultimately have "sh = 0" by (cases "unat sh") (auto simp: unat_eq_0)
  then show ?thesis using False c m c32 m2 p q(1) s lt
    by (auto simp: getPenalizedAmount_def word_le_nat_alt word_less_nat_alt Let_def)
qed

section \<open>Addresses\<close>

lemma read_AccountPublicAddress_iff:
  "read_AccountPublicAddress inp = Some (adr, rest) \<longleftrightarrow>
    length (spendPublicKey adr) = 32 \<and> length (viewPublicKey adr) = 32 \<and>
    (\<exists>bs. write_AccountPublicAddress adr = Some bs \<and> inp = bs @ rest)"
  by (cases adr)
    (auto simp: read_AccountPublicAddress_def write_AccountPublicAddress_def bind_eq_Some_conv c_pod32.read_iff
      bos_binary_def)

interpretation c_address: codec write_AccountPublicAddress read_AccountPublicAddress
  "\<lambda>adr. length (spendPublicKey adr) = 32 \<and> length (viewPublicKey adr) = 32"
  by unfold_locales (simp add: read_AccountPublicAddress_iff)

lemma fromBinaryArray_address:
  "length (spendPublicKey adr) = 32 \<Longrightarrow> length (viewPublicKey adr) = 32 \<Longrightarrow>
    write_AccountPublicAddress adr = Some ba \<Longrightarrow> fromBinaryArray read_AccountPublicAddress ba = Some adr"
  using c_address.roundtrip[of adr ba "[]"] by (simp add: fromBinaryArray_def)

lemma address_roundtrip:
  assumes "\<And>x. length (cn_fast_hash C x) = 32"
    and "length (spendPublicKey adr) = 32" "length (viewPublicKey adr) = 32"
    and "check_key C (spendPublicKey adr)" "check_key C (viewPublicKey adr)"
  shows "\<exists>str. getAccountAddressAsStr C prefix adr = Some str \<and> parseAccountAddressString C str = Some (prefix, adr)"
proof -
  obtain ba where ba: "write_AccountPublicAddress adr = Some ba" by (simp add: write_AccountPublicAddress_def)
  have "decode_addr (cn_fast_hash C) (encode_addr (cn_fast_hash C) prefix ba) = Some (prefix, ba)"
    by (rule decode_addr_encode_addr) (simp add: assms(1))
  then show ?thesis using ba assms fromBinaryArray_address[OF assms(2,3) ba]
    by (simp add: getAccountAddressAsStr_def parseAccountAddressString_def toBinaryArray_def)
qed

section \<open>Properties\<close>

text \<open>
  C40: an account address printed with any prefix is parsed back to the same prefix and keys, when
  the hash function yields 32 bytes and both keys are valid.
\<close>

theorem account_address_roundtrip:
  assumes "\<And>x. length (cn_fast_hash C x) = 32"
    and "length (spendPublicKey adr) = 32" "length (viewPublicKey adr) = 32"
    and "check_key C (spendPublicKey adr)" "check_key C (viewPublicKey adr)"
  shows "\<exists>str. getAccountAddressAsStr C prefix adr = Some str \<and> parseAccountAddressString C str = Some (prefix, adr)"
  by (rule address_roundtrip[OF assms])

theorem account_address_roundtrip_witness:
  "\<exists>str. getAccountAddressAsStr sample_crypto 0xb9 sample_address = Some str
    \<and> parseAccountAddressString sample_crypto str = Some (0xb9, sample_address)"
  by (rule account_address_roundtrip) (simp_all add: sample_crypto_def sample_address_def)

text \<open>
  C34: for sizes of 32 bits with the block at most twice the median, no assertion of the penalty
  fails: the 128-bit arithmetic gives the amount times (2m-c)c divided by m squared, rounded down,
  and an amount penalized by a block above the median is strictly smaller.
\<close>

theorem penalized_amount_exact:
  assumes "unat c \<le> 2 * unat m" "unat m < 2 ^ 32" "unat c < 2 ^ 32"
  shows "\<exists>r. getPenalizedAmount amount m c = Some r \<and>
    unat r = (if c \<le> m then unat amount else unat amount * ((2 * unat m - unat c) * unat c) div (unat m * unat m)) \<and>
    (m < c \<longrightarrow> amount \<noteq> 0 \<longrightarrow> r < amount)"
  by (rule getPenalizedAmount_value[OF assms])

theorem penalized_amount_exact_witness:
  "\<exists>r. getPenalizedAmount 1000 100 150 = Some r \<and> unat r = 750 \<and> r < 1000"
  using penalized_amount_exact[of 150 100 1000] by simp

end
