(* ===== verification/CurrencyConfig.thy ===== *)
theory CurrencyConfig
  imports BasicImpl
begin

text \<open>
  The parameters of the coin: the constants of \<open>src/src/DynexCNConfig.h\<close>, the members of the class
  \<open>Currency\<close> of \<open>src/src/DynexCNCore/Currency.h\<close> as a record, the accessors that compute something,
  and the builder of \<open>Currency.cpp\<close> with the values it sets and the values it refuses. The type
  \<open>size_t\<close> has 64 bits, \<open>unsigned int\<close> has 32.
\<close>

section \<open>Constants\<close>

abbreviation (input) "ENFORCE_NON_PRIVACY_BLOCK_NUMBER \<equiv> 0 :: u64"
abbreviation (input) "GENESIS_BLOCK_REWARD \<equiv> 0 :: u64"
abbreviation (input) "CRYPTONOTE_MAX_BLOCK_NUMBER \<equiv> 500000000 :: u64"
abbreviation (input) "CRYPTONOTE_MAX_BLOCK_BLOB_SIZE \<equiv> 500000000 :: u64"
abbreviation (input) "CRYPTONOTE_MAX_TX_SIZE \<equiv> 1000000000 :: u64"
abbreviation (input) "CRYPTONOTE_PUBLIC_ADDRESS_BASE58_PREFIX \<equiv> 0xb9 :: u64"
abbreviation (input) "CRYPTONOTE_MINED_MONEY_UNLOCK_WINDOW \<equiv> 60 :: u64"
abbreviation (input) "CRYPTONOTE_BLOCK_FUTURE_TIME_LIMIT \<equiv> 60 * 60 * 2 :: u64"
abbreviation (input) "BLOCKCHAIN_TIMESTAMP_CHECK_WINDOW \<equiv> 60 :: u64"
abbreviation (input) "BLOCKCHAIN_TIMESTAMP_CHECK_WINDOW_V1 \<equiv> 11 :: u64"
abbreviation (input) "MONEY_SUPPLY \<equiv> 110000000000000000 :: u64"
abbreviation (input) "CRYPTONOTE_COIN_VERSION \<equiv> 1 :: u64"
abbreviation (input) "EMISSION_SPEED_FACTOR \<equiv> 18 :: u32"
abbreviation (input) "CRYPTONOTE_REWARD_BLOCKS_WINDOW \<equiv> 100 :: u64"
abbreviation (input) "CRYPTONOTE_BLOCK_GRANTED_FULL_REWARD_ZONE \<equiv> 20000 :: u64"
abbreviation (input) "CRYPTONOTE_BLOCK_GRANTED_FULL_REWARD_ZONE_V1 \<equiv> 20000 :: u64"
abbreviation (input) "CRYPTONOTE_BLOCK_GRANTED_FULL_REWARD_ZONE_V2 \<equiv> 100000 :: u64"
abbreviation (input) "CRYPTONOTE_BLOCK_GRANTED_FULL_REWARD_ZONE_CURRENT \<equiv> CRYPTONOTE_BLOCK_GRANTED_FULL_REWARD_ZONE"
abbreviation (input) "CRYPTONOTE_COINBASE_BLOB_RESERVED_SIZE \<equiv> 600 :: u64"
abbreviation (input) "CRYPTONOTE_DISPLAY_DECIMAL_POINT \<equiv> 9 :: u64"
abbreviation (input) "MINIMUM_FEE \<equiv> 100000 :: u64"
abbreviation (input) "MAXIMUM_FEE \<equiv> 1000000 :: u64"
abbreviation (input) "DEFAULT_DUST_THRESHOLD \<equiv> MINIMUM_FEE"
abbreviation (input) "MIN_TX_MIXIN_SIZE \<equiv> 0 :: u64"
abbreviation (input) "MAX_TX_MIXIN_SIZE \<equiv> 10000000 :: u64"
abbreviation (input) "DIFFICULTY_TARGET \<equiv> 120 :: u64"
abbreviation (input) "EXPECTED_NUMBER_OF_BLOCKS_PER_DAY \<equiv> 720 :: u64"
abbreviation (input) "DIFFICULTY_WINDOW \<equiv> EXPECTED_NUMBER_OF_BLOCKS_PER_DAY"
abbreviation (input) "DIFFICULTY_WINDOW_V4 \<equiv> 200 :: u64"
abbreviation (input) "DIFFICULTY_CUT \<equiv> 60 :: u64"
abbreviation (input) "DIFFICULTY_LAG \<equiv> 15 :: u64"
abbreviation (input) "CRYPTONOTE_TX_SPENDABLE_AGE \<equiv> 6 :: u64"
abbreviation (input) "CRYPTONOTE_BLOCK_FUTURE_TIME_LIMIT_V1 \<equiv> DIFFICULTY_TARGET * 3"
abbreviation (input) "CRYPTONOTE_MINED_MONEY_UNLOCK_WINDOW_V1 \<equiv> EXPECTED_NUMBER_OF_BLOCKS_PER_DAY"
abbreviation (input) "UPGRADE_HEIGHT_V2 \<equiv> 999999990 :: u32"
abbreviation (input) "UPGRADE_HEIGHT_V3 \<equiv> 999999991 :: u32"
abbreviation (input) "UPGRADE_HEIGHT_V4 \<equiv> 999999991 :: u32"
abbreviation (input) "UPGRADE_HEIGHT_V4_FIX_1 \<equiv> 999999992 :: u32"
abbreviation (input) "MAX_BLOCK_SIZE_INITIAL \<equiv> 20 * 1024 :: u64"
abbreviation (input) "MAX_BLOCK_SIZE_GROWTH_SPEED_NUMERATOR \<equiv> 100 * 1024 :: u64"
abbreviation (input) "MAX_BLOCK_SIZE_GROWTH_SPEED_DENOMINATOR \<equiv> 262800 :: u64"
abbreviation (input) "CRYPTONOTE_LOCKED_TX_ALLOWED_DELTA_BLOCKS \<equiv> 1 :: u64"
abbreviation (input) "CRYPTONOTE_LOCKED_TX_ALLOWED_DELTA_SECONDS \<equiv> DIFFICULTY_TARGET * CRYPTONOTE_LOCKED_TX_ALLOWED_DELTA_BLOCKS"
abbreviation (input) "CRYPTONOTE_MEMPOOL_TX_LIVETIME \<equiv> 60 * 60 * 24 :: u64"
abbreviation (input) "CRYPTONOTE_MEMPOOL_TX_FROM_ALT_BLOCK_LIVETIME \<equiv> 60 * 60 * 24 * 7 :: u64"
abbreviation (input) "CRYPTONOTE_NUMBER_OF_PERIODS_TO_FORGET_TX_DELETED_FROM_POOL \<equiv> 7 :: u64"
abbreviation (input) "FUSION_TX_MAX_SIZE \<equiv> 6000 :: u64"
abbreviation (input) "FUSION_TX_MIN_INPUT_COUNT \<equiv> 12 :: u64"
abbreviation (input) "FUSION_TX_MIN_IN_OUT_COUNT_RATIO \<equiv> 4 :: u64"
abbreviation (input) "MAX_TRANSACTION_SIZE_LIMIT \<equiv> 24400 :: u64"
abbreviation (input) "UPGRADE_VOTING_THRESHOLD \<equiv> 90 :: u32"
abbreviation (input) "UPGRADE_VOTING_WINDOW \<equiv> 720 :: u32"
abbreviation (input) "UPGRADE_WINDOW \<equiv> 720 :: u32"

definition GENESIS_COINBASE_TX_HEX :: string where
  "GENESIS_COINBASE_TX_HEX = ''013c01ff0001e2aef88a8d0b029b2e4c0281c0b02e7c53291a94d1d0cbff8883f8024f5142ee494ffbbd08807121017aaaaafc6f441e95b7311cf9b0e6a78a64d8ed87a7d7ddec07afeb098ecf4c78''"

section \<open>The class\<close>

record Currency =
  m_maxBlockHeight :: u64
  m_maxBlockBlobSize :: u64
  m_maxTxSize :: u64
  m_publicAddressBase58Prefix :: u64
  m_minedMoneyUnlockWindow :: u64
  m_minedMoneyUnlockWindow_v1 :: u64
  m_transactionSpendableAge :: u64
  m_expectedNumberOfBlocksPerDay :: u64
  m_timestampCheckWindow :: u64
  m_timestampCheckWindow_v1 :: u64
  m_blockFutureTimeLimit :: u64
  m_blockFutureTimeLimit_v1 :: u64
  m_moneySupply :: u64
  m_emissionSpeedFactor :: u32
  m_genesisBlockReward :: u64
  m_enforceNonPrivacyBlock :: u64
  m_cryptonoteCoinVersion :: u64
  m_rewardBlocksWindow :: u64
  m_blockGrantedFullRewardZone :: u64
  m_minerTxBlobReservedSize :: u64
  m_maxTransactionSizeLimit :: u64
  m_numberOfDecimalPlaces :: u64
  m_coin :: u64
  m_minimumFee :: u64
  m_minMixin :: u64
  m_maxMixin :: u64
  m_defaultDustThreshold :: u64
  m_difficultyTarget :: u64
  m_difficultyWindow :: u64
  m_difficultyLag :: u64
  m_difficultyCut :: u64
  m_maxBlockSizeInitial :: u64
  m_maxBlockSizeGrowthSpeedNumerator :: u64
  m_maxBlockSizeGrowthSpeedDenominator :: u64
  m_lockedTxAllowedDeltaSeconds :: u64
  m_lockedTxAllowedDeltaBlocks :: u64
  m_mempoolTxLiveTime :: u64
  m_mempoolTxFromAltBlockLiveTime :: u64
  m_numberOfPeriodsToForgetTxDeletedFromPool :: u64
  m_fusionTxMaxSize :: u64
  m_fusionTxMinInputCount :: u64
  m_fusionTxMinInOutCountRatio :: u64
  m_upgradeHeightV2 :: u32
  m_upgradeHeightV3 :: u32
  m_upgradeHeightV4 :: u32
  m_upgradeVotingThreshold :: u32
  m_upgradeVotingWindow :: u32
  m_upgradeWindow :: u32
  m_blocksFileName :: string
  m_blocksCacheFileName :: string
  m_blockIndexesFileName :: string
  m_txPoolFileName :: string
  m_blockchainIndicesFileName :: string
  m_testnet :: bool
  m_genesisBlock :: Block
  m_genesisBlockHash :: Hash

definition timestampCheckWindow :: "'a Currency_scheme \<Rightarrow> u8 \<Rightarrow> u64" where
  "timestampCheckWindow c blockMajorVersion =
    (if blockMajorVersion \<ge> BLOCK_MAJOR_VERSION_4 then m_timestampCheckWindow_v1 c else m_timestampCheckWindow c)"

definition blockFutureTimeLimit :: "'a Currency_scheme \<Rightarrow> u8 \<Rightarrow> u64" where
  "blockFutureTimeLimit c blockMajorVersion =
    (if blockMajorVersion \<ge> BLOCK_MAJOR_VERSION_4 then m_blockFutureTimeLimit_v1 c else m_blockFutureTimeLimit c)"

definition difficultyBlocksCount :: "'a Currency_scheme \<Rightarrow> u64" where
  "difficultyBlocksCount c = m_difficultyWindow c + m_difficultyLag c"

definition difficultyBlocksCountByBlockVersion :: "'a Currency_scheme \<Rightarrow> u8 \<Rightarrow> u64" where
  "difficultyBlocksCountByBlockVersion c blockMajorVersion =
    (if blockMajorVersion = BLOCK_MAJOR_VERSION_4 then DIFFICULTY_WINDOW_V4 else difficultyBlocksCount c)"

definition minNumberVotingBlocks :: "'a Currency_scheme \<Rightarrow> u32" where
  "minNumberVotingBlocks c = (m_upgradeVotingWindow c * m_upgradeVotingThreshold c + 99) div 100"

definition maxUpgradeDistance :: "'a Currency_scheme \<Rightarrow> u32" where
  "maxUpgradeDistance c = 7 * m_upgradeWindow c"

definition calculateUpgradeHeight :: "'a Currency_scheme \<Rightarrow> u32 \<Rightarrow> u32" where
  "calculateUpgradeHeight c voteCompleteHeight = voteCompleteHeight + m_upgradeWindow c"

definition blockGrantedFullRewardZoneByBlockVersion :: "'a Currency_scheme \<Rightarrow> u8 \<Rightarrow> u64" where
  "blockGrantedFullRewardZoneByBlockVersion c blockMajorVersion =
    (if blockMajorVersion \<ge> BLOCK_MAJOR_VERSION_3 then m_blockGrantedFullRewardZone c
     else if blockMajorVersion = BLOCK_MAJOR_VERSION_2 then CRYPTONOTE_BLOCK_GRANTED_FULL_REWARD_ZONE_V2
     else CRYPTONOTE_BLOCK_GRANTED_FULL_REWARD_ZONE_V1)"

definition upgradeHeight :: "'a Currency_scheme \<Rightarrow> u8 \<Rightarrow> u32" where
  "upgradeHeight c majorVersion =
    (if majorVersion = BLOCK_MAJOR_VERSION_4 then m_upgradeHeightV4 c
     else if majorVersion = BLOCK_MAJOR_VERSION_2 then m_upgradeHeightV2 c
     else if majorVersion = BLOCK_MAJOR_VERSION_3 then m_upgradeHeightV3 c
     else - 1)"

section \<open>Genesis block\<close>

definition empty_transaction :: Transaction where
  "empty_transaction = \<lparr>tx_version = 0, tx_unlockTime = 0, tx_inputs = [], tx_outputs = [], tx_extra = [], tx_signatures = []\<rparr>"

definition empty_block :: Block where
  "empty_block = \<lparr>blk_majorVersion = 0, blk_minorVersion = 0, blk_nonce = 0, blk_timestamp = 0,
    blk_previousBlockHash = replicate 32 0,
    blk_parentBlock = \<lparr>pb_majorVersion = 0, pb_minorVersion = 0, pb_previousBlockHash = replicate 32 0,
      pb_transactionCount = 0, pb_baseTransactionBranch = [], pb_baseTransaction = empty_transaction,
      pb_blockchainBranch = []\<rparr>,
    blk_baseTransaction = empty_transaction, blk_transactionHashes = []\<rparr>"

definition generateGenesisBlock :: "'a Currency_scheme \<Rightarrow> 'a Currency_scheme option" where
  "generateGenesisBlock c = do {
     minerTxBlob \<leftarrow> fromHex GENESIS_COINBASE_TX_HEX;
     tx \<leftarrow> fromBinaryArray read_Transaction minerTxBlob;
     Some (c\<lparr>m_genesisBlock := empty_block\<lparr>blk_baseTransaction := tx, blk_majorVersion := BLOCK_MAJOR_VERSION_1,
       blk_minorVersion := BLOCK_MINOR_VERSION_0, blk_timestamp := 0,
       blk_nonce := (if m_testnet c then 71 else 70)\<rparr>\<rparr>) }"

definition currency_init :: "(byte list \<Rightarrow> Hash) \<Rightarrow> 'a Currency_scheme \<Rightarrow> 'a Currency_scheme option" where
  "currency_init H c = do {
     c \<leftarrow> generateGenesisBlock c;
     h \<leftarrow> get_block_hash H (m_genesisBlock c);
     let c = c\<lparr>m_genesisBlockHash := h\<rparr>;
     Some (if m_testnet c
       then c\<lparr>m_upgradeHeightV2 := 1, m_upgradeHeightV3 := 2, m_upgradeHeightV4 := 5,
         m_blocksFileName := ''testnet_'' @ m_blocksFileName c,
         m_blocksCacheFileName := ''testnet_'' @ m_blocksCacheFileName c,
         m_blockIndexesFileName := ''testnet_'' @ m_blockIndexesFileName c,
         m_txPoolFileName := ''testnet_'' @ m_txPoolFileName c,
         m_blockchainIndicesFileName := ''testnet_'' @ m_blockchainIndicesFileName c\<rparr>
       else c) }"

section \<open>The builder\<close>

text \<open>The setters that refuse a value: \<open>None\<close> stands for the exception they throw.\<close>

definition set_emissionSpeedFactor :: "u32 \<Rightarrow> 'a Currency_scheme \<Rightarrow> 'a Currency_scheme option" where
  "set_emissionSpeedFactor val c = (if val \<le> 0 \<or> val > 64 then None else Some (c\<lparr>m_emissionSpeedFactor := val\<rparr>))"

definition set_numberOfDecimalPlaces :: "u64 \<Rightarrow> 'a Currency_scheme \<Rightarrow> 'a Currency_scheme" where
  "set_numberOfDecimalPlaces val c =
    c\<lparr>m_numberOfDecimalPlaces := val, m_coin := fold (\<lambda>_ coin. coin * 10) [0..<unat val] 1\<rparr>"

definition set_difficultyWindow :: "u64 \<Rightarrow> 'a Currency_scheme \<Rightarrow> 'a Currency_scheme option" where
  "set_difficultyWindow val c = (if val < 2 then None else Some (c\<lparr>m_difficultyWindow := val\<rparr>))"

definition set_upgradeVotingThreshold :: "u32 \<Rightarrow> 'a Currency_scheme \<Rightarrow> 'a Currency_scheme option" where
  "set_upgradeVotingThreshold val c =
    (if val \<le> 0 \<or> val > 100 then None else Some (c\<lparr>m_upgradeVotingThreshold := val\<rparr>))"

definition set_upgradeWindow :: "u64 \<Rightarrow> 'a Currency_scheme \<Rightarrow> 'a Currency_scheme option" where
  "set_upgradeWindow val c = (if val \<le> 0 then None else Some (c\<lparr>m_upgradeWindow := ucast val\<rparr>))"

text \<open>
  The constructor of the builder, all the plain setters at once and then the checked ones; the block
  and the hash of the genesis are set by \<open>currency_init\<close>, which \<open>currency\<close> calls.
\<close>

definition CurrencyBuilder :: "Currency option" where
  "CurrencyBuilder =
    (let c = \<lparr>m_maxBlockHeight = CRYPTONOTE_MAX_BLOCK_NUMBER,
       m_maxBlockBlobSize = CRYPTONOTE_MAX_BLOCK_BLOB_SIZE,
       m_maxTxSize = CRYPTONOTE_MAX_TX_SIZE,
       m_publicAddressBase58Prefix = CRYPTONOTE_PUBLIC_ADDRESS_BASE58_PREFIX,
       m_minedMoneyUnlockWindow = CRYPTONOTE_MINED_MONEY_UNLOCK_WINDOW,
       m_minedMoneyUnlockWindow_v1 = CRYPTONOTE_MINED_MONEY_UNLOCK_WINDOW_V1,
       m_transactionSpendableAge = CRYPTONOTE_TX_SPENDABLE_AGE,
       m_expectedNumberOfBlocksPerDay = EXPECTED_NUMBER_OF_BLOCKS_PER_DAY,
       m_timestampCheckWindow = BLOCKCHAIN_TIMESTAMP_CHECK_WINDOW,
       m_timestampCheckWindow_v1 = BLOCKCHAIN_TIMESTAMP_CHECK_WINDOW_V1,
       m_blockFutureTimeLimit = CRYPTONOTE_BLOCK_FUTURE_TIME_LIMIT,
       m_blockFutureTimeLimit_v1 = CRYPTONOTE_BLOCK_FUTURE_TIME_LIMIT_V1,
       m_moneySupply = MONEY_SUPPLY,
       m_emissionSpeedFactor = 0,
       m_genesisBlockReward = GENESIS_BLOCK_REWARD,
       m_enforceNonPrivacyBlock = ENFORCE_NON_PRIVACY_BLOCK_NUMBER,
       m_cryptonoteCoinVersion = CRYPTONOTE_COIN_VERSION,
       m_rewardBlocksWindow = CRYPTONOTE_REWARD_BLOCKS_WINDOW,
       m_blockGrantedFullRewardZone = CRYPTONOTE_BLOCK_GRANTED_FULL_REWARD_ZONE,
       m_minerTxBlobReservedSize = CRYPTONOTE_COINBASE_BLOB_RESERVED_SIZE,
       m_maxTransactionSizeLimit = MAX_TRANSACTION_SIZE_LIMIT,
       m_numberOfDecimalPlaces = 0,
       m_coin = 0,
       m_minimumFee = MINIMUM_FEE,
       m_minMixin = MIN_TX_MIXIN_SIZE,
       m_maxMixin = MAX_TX_MIXIN_SIZE,
       m_defaultDustThreshold = DEFAULT_DUST_THRESHOLD,
       m_difficultyTarget = DIFFICULTY_TARGET,
       m_difficultyWindow = 0,
       m_difficultyLag = DIFFICULTY_LAG,
       m_difficultyCut = DIFFICULTY_CUT,
       m_maxBlockSizeInitial = MAX_BLOCK_SIZE_INITIAL,
       m_maxBlockSizeGrowthSpeedNumerator = MAX_BLOCK_SIZE_GROWTH_SPEED_NUMERATOR,
       m_maxBlockSizeGrowthSpeedDenominator = MAX_BLOCK_SIZE_GROWTH_SPEED_DENOMINATOR,
       m_lockedTxAllowedDeltaSeconds = CRYPTONOTE_LOCKED_TX_ALLOWED_DELTA_SECONDS,
       m_lockedTxAllowedDeltaBlocks = CRYPTONOTE_LOCKED_TX_ALLOWED_DELTA_BLOCKS,
       m_mempoolTxLiveTime = CRYPTONOTE_MEMPOOL_TX_LIVETIME,
       m_mempoolTxFromAltBlockLiveTime = CRYPTONOTE_MEMPOOL_TX_FROM_ALT_BLOCK_LIVETIME,
       m_numberOfPeriodsToForgetTxDeletedFromPool = CRYPTONOTE_NUMBER_OF_PERIODS_TO_FORGET_TX_DELETED_FROM_POOL,
       m_fusionTxMaxSize = FUSION_TX_MAX_SIZE,
       m_fusionTxMinInputCount = FUSION_TX_MIN_INPUT_COUNT,
       m_fusionTxMinInOutCountRatio = FUSION_TX_MIN_IN_OUT_COUNT_RATIO,
       m_upgradeHeightV2 = UPGRADE_HEIGHT_V2,
       m_upgradeHeightV3 = UPGRADE_HEIGHT_V3,
       m_upgradeHeightV4 = UPGRADE_HEIGHT_V4,
       m_upgradeVotingThreshold = 0,
       m_upgradeVotingWindow = UPGRADE_VOTING_WINDOW,
       m_upgradeWindow = 0,
       m_blocksFileName = ''blocks.dat'',
       m_blocksCacheFileName = ''blockscache.dat'',
       m_blockIndexesFileName = ''blockindexes.dat'',
       m_txPoolFileName = ''poolstate.bin'',
       m_blockchainIndicesFileName = ''blockchainindices.dat'',
       m_testnet = False,
       m_genesisBlock = empty_block,
       m_genesisBlockHash = replicate 32 0\<rparr>
     in do {
       c \<leftarrow> set_emissionSpeedFactor EMISSION_SPEED_FACTOR c;
       let c = set_numberOfDecimalPlaces CRYPTONOTE_DISPLAY_DECIMAL_POINT c;
       c \<leftarrow> set_difficultyWindow DIFFICULTY_WINDOW c;
       c \<leftarrow> set_upgradeVotingThreshold UPGRADE_VOTING_THRESHOLD c;
       set_upgradeWindow (ucast UPGRADE_WINDOW) c })"

text \<open>\<open>CurrencyBuilder::currency\<close>: \<open>None\<close> stands for the exception when \<open>init\<close> fails.\<close>

definition currency :: "(byte list \<Rightarrow> Hash) \<Rightarrow> Currency option" where
  "currency H = do { c \<leftarrow> CurrencyBuilder; currency_init H c }"

section \<open>Initialisation succeeds\<close>

text \<open>The transaction that the hard-coded text of the genesis block denotes.\<close>

definition genesis_key :: PublicKey where
  "genesis_key = [0x9b, 0x2e, 0x4c, 0x2, 0x81, 0xc0, 0xb0, 0x2e, 0x7c, 0x53, 0x29, 0x1a, 0x94, 0xd1, 0xd0, 0xcb,
    0xff, 0x88, 0x83, 0xf8, 0x2, 0x4f, 0x51, 0x42, 0xee, 0x49, 0x4f, 0xfb, 0xbd, 0x8, 0x80, 0x71]"

definition genesis_extra :: "byte list" where
  "genesis_extra = [0x1, 0x7a, 0xaa, 0xaa, 0xfc, 0x6f, 0x44, 0x1e, 0x95, 0xb7, 0x31, 0x1c, 0xf9, 0xb0, 0xe6, 0xa7,
    0x8a, 0x64, 0xd8, 0xed, 0x87, 0xa7, 0xd7, 0xdd, 0xec, 0x7, 0xaf, 0xeb, 0x9, 0x8e, 0xcf, 0x4c,
    0x78]"

definition genesis_tx :: Transaction where
  "genesis_tx = \<lparr>tx_version = 1, tx_unlockTime = 60, tx_inputs = [BaseInput 0],
    tx_outputs = [\<lparr>out_amount = 381469726562, out_target = KeyOutput genesis_key\<rparr>], tx_extra = genesis_extra, tx_signatures = []\<rparr>"

definition genesis_blob :: "byte list" where
  "genesis_blob = [1, 0x3c, 1, 0xff, 0, 1, 0xe2, 0xae, 0xf8, 0x8a, 0x8d, 0x0b, 2] @ genesis_key @ 0x21 # genesis_extra"

lemma genesis_hex: "GENESIS_COINBASE_TX_HEX = toHex genesis_blob"
  by (simp add: GENESIS_COINBASE_TX_HEX_def genesis_blob_def genesis_key_def genesis_extra_def toHex_def hexDigit_def)

lemma genesis_write: "write_Transaction genesis_tx = Some genesis_blob"
  by (simp add: write_Transaction_def genesis_tx_def write_TransactionPrefix_def write_container_def is_base_only_def
    write_TransactionOutput_def write_as_binary_def bos_uint8_def bos_uint64_def bos_uint32_def bos_beginArray_def bos_binary_def
    bos_string_def writeVarint64_varint varint_small varint_big genesis_blob_def genesis_key_def genesis_extra_def)

lemma wf_genesis_tx: "wf_Transaction genesis_tx"
  by (simp add: wf_Transaction_def wf_prefix_def genesis_tx_def is_base_only_def wf_output_def genesis_key_def genesis_extra_def)

lemma read_genesis: "fromBinaryArray read_Transaction genesis_blob = Some genesis_tx"
  using c_transaction.read_iff[of genesis_blob genesis_tx "[]"] wf_genesis_tx genesis_write
  by (simp add: fromBinaryArray_def)

lemma generateGenesisBlock_ok:
  "generateGenesisBlock c = Some (c\<lparr>m_genesisBlock := empty_block\<lparr>blk_baseTransaction := genesis_tx,
     blk_majorVersion := 1, blk_minorVersion := 0, blk_timestamp := 0, blk_nonce := (if m_testnet c then 71 else 70)\<rparr>\<rparr>)"
  by (simp add: generateGenesisBlock_def genesis_hex fromHex_toHex read_genesis)

lemma get_block_hash_v1: "blk_majorVersion b = 1 \<Longrightarrow> \<exists>h. get_block_hash H b = Some h"
  by (simp add: get_block_hash_def get_block_hashing_blob_def toBinaryArray_def write_BlockHeader_def toBinaryArray_blob_def)

section \<open>Properties\<close>


end
