(* ===== verification/Difficulty.thy ===== *)
theory Difficulty
  imports IntUtil
begin

text \<open>
  The proof-of-work test of \<open>src/src/DynexCNCore/Difficulty.cpp\<close>. A hash is a sequence of 32 bytes,
  read as four little-endian 64-bit words (the reads through \<open>swap64le\<close>); \<open>mul\<close> is the
  variant with 128-bit integers, which \<open>mul_eq_mul128\<close> shows equal to the portable one.
\<close>

section \<open>Definitions\<close>

definition mul :: "u64 \<Rightarrow> u64 \<Rightarrow> u64 \<times> u64" where
  "mul a b = (let res = (ucast a :: 128 word) * ucast b in (ucast res, ucast (drop_bit 64 res)))"

definition cadd :: "u64 \<Rightarrow> u64 \<Rightarrow> bool" where "cadd a b \<longleftrightarrow> a + b < a"

definition cadc :: "u64 \<Rightarrow> u64 \<Rightarrow> bool \<Rightarrow> bool" where
  "cadc a b c \<longleftrightarrow> a + b < a \<or> (c \<and> a + b = - 1)"

definition hash_word :: "byte list \<Rightarrow> nat \<Rightarrow> u64" where
  "hash_word h i = word_of_nat (le_nat (take 8 (drop (8 * i) h)))"

definition check_hash :: "byte list \<Rightarrow> u64 \<Rightarrow> bool" where
  "check_hash hash difficulty =
    (let (top, high) = mul (hash_word hash 3) difficulty in
     if high \<noteq> 0 then False else
     let (low, cur) = mul (hash_word hash 0) difficulty;
         (low, high) = mul (hash_word hash 1) difficulty;
         carry = cadd cur low;
         cur = high;
         (low, high) = mul (hash_word hash 2) difficulty;
         carry = cadc cur low carry;
         carry = cadc high top carry
     in \<not> carry)"

section \<open>Products and carries\<close>

lemma mul_correct: "unat (fst (mul a b)) + unat (snd (mul a b)) * 2 ^ 64 = unat a * unat b"
proof -
  have "unat a * unat b < 2 ^ 64 * 2 ^ 64"
    using unat_less[of a] unat_less[of b] by (intro mult_strict_mono) simp_all
  then have "unat ((ucast a :: 128 word) * ucast b) = unat a * unat b"
    by (simp add: unat_times unat_ucast_up)
  then show ?thesis
    using div_mod_decomp[of "unat a * unat b" "2 ^ 64"] unat_less[of "(ucast a :: 128 word) * ucast b"]
    by (simp add: mul_def Let_def unat_ucast unat_drop_bit less_mult_imp_div_less)
qed

lemma mul_eq_mul128: "mul a b = mul128 a b"
proof -
  obtain lo hi where m: "mul128 a b = (lo, hi)" by fastforce
  have "unat (fst (mul a b)) + unat (snd (mul a b)) * 2 ^ 64 = unat lo + unat hi * 2 ^ 64"
    using mul_correct[of a b] mul128_correct[OF m] by simp
  then have "unat (fst (mul a b)) = unat lo \<and> unat (snd (mul a b)) = unat hi"
    using unat_less[of lo] unat_less[of "fst (mul a b)"] by (auto dest: base_digits_unique)
  then show ?thesis using m by (simp add: prod_eq_iff word_eq_iff_unsigned[where ?'a = nat])
qed

lemma cadc_iff: "cadc a b c \<longleftrightarrow> 2 ^ 64 \<le> unat a + unat b + of_bool c"
proof (cases "a + b < a")
  case True
  then show ?thesis by (auto simp: cadc_def add_carry_iff)
next
  case False
  then have s: "unat a + unat b < 2 ^ 64" by (auto simp: add_carry_iff)
  then have u: "unat (a + b) = unat a + unat b" by (simp add: unat_plus)
  have "a + b = - 1 \<longleftrightarrow> unat (a + b) = 2 ^ 64 - 1"
    by (simp add: word_unat_eq_iff unsigned_minus_1_eq_mask mask_eq_exp_minus_1 del: unat_plus_if')
  then show ?thesis using False s u by (auto simp: cadc_def)
qed

lemma cadd_iff: "cadd a b \<longleftrightarrow> 2 ^ 64 \<le> unat a + unat b"
  by (simp add: cadd_def add_carry_iff)

lemma carry_step:
  fixes x y K B :: nat
  assumes "x < 2 * K"
  shows "K * B \<le> x + y * K \<longleftrightarrow> B \<le> y + of_bool (K \<le> x)"
proof -
  have K: "0 < K" using assms by simp
  have "K * B \<le> x + y * K \<longleftrightarrow> B \<le> (x + y * K) div K"
    using K by (metis less_eq_div_iff_mult_less_eq mult.commute)
  then show ?thesis using K by (simp add: div_of_bool[OF assms] add.commute)
qed

lemma unat_hash_word: "length h = 32 \<Longrightarrow> i < 4 \<Longrightarrow> unat (hash_word h i) = le_nat (take 8 (drop (8 * i) h))"
  using le_nat_less[of "take 8 (drop (8 * i) h)"] by (simp add: hash_word_def unat_of_nat)

lemma le_nat_hash_words:
  assumes "length h = 32"
  shows "le_nat h = unat (hash_word h 0) + (unat (hash_word h 1) + (unat (hash_word h 2) + unat (hash_word h 3) * 2 ^ 64) * 2 ^ 64) * 2 ^ 64"
proof -
  have split: "le_nat (drop n h) = le_nat (take 8 (drop n h)) + le_nat (drop (n + 8) h) * 2 ^ 64" if "n + 8 \<le> 32" for n
  proof -
    have "le_nat (drop n h) = le_nat (take 8 (drop n h) @ drop (n + 8) h)"
      unfolding add.commute[of n 8] drop_drop[symmetric] append_take_drop_id ..
    also have "\<dots> = le_nat (take 8 (drop n h)) + le_nat (drop (n + 8) h) * 2 ^ 64"
      unfolding le_nat_append using that assms by simp
    finally show ?thesis .
  qed
  have w: "unat (hash_word h 0) = le_nat (take 8 (drop 0 h))" "unat (hash_word h 1) = le_nat (take 8 (drop 8 h))"
    "unat (hash_word h 2) = le_nat (take 8 (drop 16 h))" "unat (hash_word h 3) = le_nat (take 8 (drop 24 h))"
    using unat_hash_word[OF assms, of 0] unat_hash_word[OF assms, of 1] unat_hash_word[OF assms, of 2]
      unat_hash_word[OF assms, of 3] by simp_all
  have "le_nat (drop 32 h) = 0" using assms by simp
  then show ?thesis
    using split[of 0] split[of 8] split[of 16] split[of 24] unfolding w by simp
qed

lemma carry_chain:
  fixes B :: nat
  assumes "l0 < B" "c0 < B" "l1 < B" "h1 < B" "l2 < B" "h2 < B" "t < B" 
  shows "B * B * B * B \<le> l0 + (c0 + l1) * B + (h1 + l2) * (B * B) + (h2 + t) * (B * B * B) \<longleftrightarrow>
    B \<le> h2 + t + of_bool (B \<le> h1 + l2 + of_bool (B \<le> c0 + l1))"
proof -
  have up: "x + y * K < 2 * (K * B)" if "x < 2 * K" "y \<le> 2 * (B - 1)" for x y K
  proof -
    have "x + y * K < (y + 2) * K" using that(1) by simp
    also have "\<dots> \<le> (2 * B) * K" using that(2) assms(1) by (intro mult_le_mono1) linarith
    finally show ?thesis by (simp add: ac_simps)
  qed
  define x1 where "x1 = l0 + (c0 + l1) * B"
  define x2 where "x2 = x1 + (h1 + l2) * (B * B)"
  have b0: "l0 < 2 * B" using assms by simp
  have b1: "x1 < 2 * (B * B)" unfolding x1_def using assms by (intro up) linarith+
  have b2: "x2 < 2 * (B * B * B)" unfolding x2_def using assms b1 by (intro up) linarith+
  have "B * B \<le> x1 \<longleftrightarrow> B \<le> c0 + l1" 
    using carry_step[OF b0, of B "c0 + l1"] assms(1) by (simp add: x1_def)
  moreover have "B * B * B \<le> x2 \<longleftrightarrow> B \<le> h1 + l2 + of_bool (B * B \<le> x1)"
    using carry_step[OF b1] by (simp add: x2_def)
  ultimately show ?thesis
    using carry_step[OF b2] unfolding x2_def x1_def by simp
qed

lemma check_hash_iff:
  assumes "length hash = 32"
  shows "check_hash hash difficulty \<longleftrightarrow> le_nat hash * unat difficulty < 2 ^ 256"
proof -
  obtain t h where m3: "mul (hash_word hash 3) difficulty = (t, h)" by fastforce
  obtain l0 c0 where m0: "mul (hash_word hash 0) difficulty = (l0, c0)" by fastforce
  obtain l1 h1 where m1: "mul (hash_word hash 1) difficulty = (l1, h1)" by fastforce
  obtain l2 h2 where m2: "mul (hash_word hash 2) difficulty = (l2, h2)" by fastforce
  define B :: nat where "B = 2 ^ 64"
  have distr: "(a0 + (a1 + (a2 + a3 * b) * b) * b) * d = a0 * d + a1 * d * b + a2 * d * (b * b) + a3 * d * (b * b * b)"
    for a0 a1 a2 a3 b d :: nat by (simp add: algebra_simps)
  note p = mul_correct[of "hash_word hash 3" difficulty] mul_correct[of "hash_word hash 0" difficulty]
    mul_correct[of "hash_word hash 1" difficulty] mul_correct[of "hash_word hash 2" difficulty]
  have bnd: "unat w < B" for w :: u64 using unat_less[of w] by (simp add: B_def)
  have "le_nat hash * unat difficulty = unat l0 + (unat c0 + unat l1) * B + (unat h1 + unat l2) * (B * B)
      + (unat h2 + unat t) * (B * B * B) + unat h * (B * B * B * B)" (is "_ = ?s + _")
    unfolding le_nat_hash_words[OF assms] distr p[symmetric]
    unfolding m0 m1 m2 m3 fst_conv snd_conv B_def[symmetric] by (simp add: algebra_simps)
  moreover have "2 ^ 256 = B * B * B * B" by (simp add: B_def)
  moreover have "check_hash hash difficulty \<longleftrightarrow> h = 0 \<and> \<not> B \<le> unat h2 + unat t + of_bool (B \<le> unat h1 + unat l2 + of_bool (B \<le> unat c0 + unat l1))"
    unfolding check_hash_def m0 m1 m2 m3 Let_def prod.case cadc_iff cadd_iff B_def[symmetric] by simp
  moreover have "B * B * B * B \<le> unat h * (B * B * B * B)" if "h \<noteq> 0"
    using that unat_gt_0[of h] mult_le_mono1[of 1 "unat h" "B * B * B * B"] by simp
  ultimately show ?thesis
    using carry_chain[OF bnd bnd bnd bnd bnd bnd bnd, of l0 c0 l1 h1 l2 h2 t] 
    by (cases "h = 0") (auto simp: unat_gt_0 not_le)
qed

section \<open>Properties\<close>

text \<open>
  C15: the proof-of-work test accepts a hash exactly when the 256-bit number it encodes, times the
  difficulty, does not overflow 256 bits.
\<close>

theorem check_hash_correct:
  assumes "length hash = 32"
  shows "check_hash hash difficulty \<longleftrightarrow> le_nat hash * unat difficulty < 2 ^ 256"
  by (rule check_hash_iff[OF assms])

theorem check_hash_correct_witness:
  "length (replicate 31 0 @ [0x7f :: byte]) = 32 \<and> check_hash (replicate 31 0 @ [0x7f]) 2
   \<and> \<not> check_hash (replicate 31 0 @ [0x80]) 2"
proof -
  have "le_nat (replicate 31 0 @ [0x7f]) * unat (2::u64) < 2 ^ 256"
    "\<not> le_nat (replicate 31 0 @ [0x80]) * unat (2::u64) < 2 ^ 256"
    by (simp_all add: le_nat_append)
  then show ?thesis
    using check_hash_correct[of "replicate 31 0 @ [0x7f]" 2]
      check_hash_correct[of "replicate 31 0 @ [0x80]" 2] by simp
qed

end
