(* ===== verification/Currency.thy ===== *)
theory Currency
  imports CurrencyConfig Difficulty
begin

text \<open>
  The operations of the class \<open>Currency\<close> (\<open>src/src/DynexCNCore/Currency.cpp\<close>): the block reward and the
  miner transaction, the difficulty of the next block, the proof of work, fusion transactions, and
  amounts as text. A failing \<open>assert\<close> is \<open>AssertionFailed\<close>, a returned \<open>false\<close> is \<open>Refused\<close>.
  The fee formulas, which are computed with floating-point numbers, are not modelled.
\<close>

section \<open>Definitions\<close>

datatype currency_error = AssertionFailed | Refused

definition assert_some :: "'a option \<Rightarrow> currency_error + 'a" where
  "assert_some r = (case r of None \<Rightarrow> Inl AssertionFailed | Some x \<Rightarrow> Inr x)"

definition getBlockReward :: "'a Currency_scheme \<Rightarrow> u32 \<Rightarrow> u8 \<Rightarrow> u64 \<Rightarrow> u64 \<Rightarrow> u64 \<Rightarrow> u64 \<Rightarrow> currency_error + u64 \<times> i64" where
  "getBlockReward c blockheight blockMajorVersion medianSize currentBlockSize alreadyGeneratedCoins fee =
    (if \<not> alreadyGeneratedCoins \<le> m_moneySupply c then Inl AssertionFailed
     else if \<not> (m_emissionSpeedFactor c > 0 \<and> m_emissionSpeedFactor c \<le> 64) then Inl AssertionFailed
     else
       let baseReward = drop_bit (unat (m_emissionSpeedFactor c)) (m_moneySupply c - alreadyGeneratedCoins);
           baseReward = (if alreadyGeneratedCoins = 0 \<and> m_genesisBlockReward c \<noteq> 0 then m_genesisBlockReward c else baseReward);
           medianSize = max medianSize (blockGrantedFullRewardZoneByBlockVersion c blockMajorVersion)
       in if currentBlockSize > 2 * medianSize then Inl Refused
       else assert_some (do {
         penalizedBaseReward \<leftarrow> getPenalizedAmount baseReward medianSize currentBlockSize;
         penalizedFee \<leftarrow> (if blockMajorVersion \<ge> BLOCK_MAJOR_VERSION_2
           then getPenalizedAmount fee medianSize currentBlockSize else Some fee);
         penalizedFee \<leftarrow> (if m_cryptonoteCoinVersion c = 1
           then getPenalizedAmount fee medianSize currentBlockSize else Some penalizedFee);
         Some (penalizedBaseReward + penalizedFee, penalizedBaseReward - (fee - penalizedFee)) }))"

definition maxBlockCumulativeSize :: "'a Currency_scheme \<Rightarrow> u64 \<Rightarrow> u64 option" where
  "maxBlockCumulativeSize c height =
    (if m_maxBlockSizeGrowthSpeedNumerator c = 0 \<or> \<not> height \<le> - 1 div m_maxBlockSizeGrowthSpeedNumerator c then None
     else if m_maxBlockSizeGrowthSpeedDenominator c = 0 then None
     else let maxSize = m_maxBlockSizeInitial c +
            (height * m_maxBlockSizeGrowthSpeedNumerator c) div m_maxBlockSizeGrowthSpeedDenominator c in
       if \<not> maxSize \<ge> m_maxBlockSizeInitial c then None else Some maxSize)"

text \<open>The value a variable keeps when the operation that would change it fails and nobody looks.\<close>

definition keep :: "'a \<Rightarrow> 'a option \<Rightarrow> 'a" where
  "keep old r = (case r of None \<Rightarrow> old | Some x \<Rightarrow> x)"

text \<open>The loop of \<open>constructMinerTx\<close> that adds the last amount to the one before it.\<close>

function merge_outs :: "nat \<Rightarrow> u64 list \<Rightarrow> u64 list" where
  "merge_outs maxOuts outAmounts =
    (if maxOuts < length outAmounts \<and> 2 \<le> length outAmounts
     then merge_outs maxOuts (butlast (outAmounts[length outAmounts - 2 := outAmounts ! (length outAmounts - 2) + last outAmounts]))
     else outAmounts)"
  by pat_completeness auto
termination by (relation "measure (length \<circ> snd)") auto

declare merge_outs.simps [simp del]

fun miner_outs :: "Crypto \<Rightarrow> AccountPublicAddress \<Rightarrow> SecretKey \<Rightarrow> nat \<Rightarrow> u64 list \<Rightarrow> (TransactionOutput list \<times> u64) option" where
  "miner_outs C minerAddress sec no [] = Some ([], 0)"
| "miner_outs C minerAddress sec no (amount # outAmounts) = do {
     derivation \<leftarrow> generate_key_derivation C (viewPublicKey minerAddress) sec;
     key \<leftarrow> derive_public_key C derivation no (spendPublicKey minerAddress);
     (outs, summaryAmounts) \<leftarrow> miner_outs C minerAddress sec (no + 1) outAmounts;
     Some (\<lparr>out_amount = amount, out_target = KeyOutput key\<rparr> # outs, amount + summaryAmounts) }"

text \<open>
  The pair \<open>txkey\<close> is what \<open>generateKeyPair\<close> returned; \<open>tx\<close> is the transaction passed by reference,
  of which everything but the signatures is replaced.
\<close>

definition constructMinerTx :: "Crypto \<Rightarrow> KeyPair \<Rightarrow> 'a Currency_scheme \<Rightarrow> u8 \<Rightarrow> u32 \<Rightarrow> u64 \<Rightarrow> u64 \<Rightarrow> u64 \<Rightarrow> u64
    \<Rightarrow> AccountPublicAddress \<Rightarrow> Transaction \<Rightarrow> BinaryArray \<Rightarrow> nat \<Rightarrow> currency_error + Transaction" where
  "constructMinerTx C txkey c blockMajorVersion height medianSize alreadyGeneratedCoins currentBlockSize fee
      minerAddress tx extraNonce maxOuts =
    (let ex = keep [] (addTransactionPublicKeyToExtra [] (kp_publicKey txkey)) in
     case (if extraNonce \<noteq> [] then addExtraNonceToTransactionExtra ex extraNonce else Some ex) of
       None \<Rightarrow> Inl Refused
     | Some ex \<Rightarrow>
       (case getBlockReward c height blockMajorVersion medianSize currentBlockSize alreadyGeneratedCoins fee of
          Inl e \<Rightarrow> Inl e
        | Inr (blockReward, emissionChange) \<Rightarrow>
          let ex = keep ex (addTxkeyToExtra ex (kp_secretKey txkey));
              ex = keep ex (addToAddressToExtra ex minerAddress);
              ex = keep ex (addAmountToExtra ex (getBinaryAmount blockReward));
              outAmounts = decompose_amount_into_digits blockReward 0
          in if \<not> 1 \<le> maxOuts then Inl Refused
          else case miner_outs C minerAddress (kp_secretKey txkey) 0 (merge_outs maxOuts outAmounts) of
            None \<Rightarrow> Inl Refused
          | Some (outs, summaryAmounts) \<Rightarrow>
            if summaryAmounts \<noteq> blockReward then Inl Refused
            else Inr (tx\<lparr>tx_version := CURRENT_TRANSACTION_VERSION,
              tx_unlockTime := ucast height +
                (if height < UPGRADE_HEIGHT_V4_FIX_1 \<and> height > UPGRADE_HEIGHT_V4
                 then m_minedMoneyUnlockWindow_v1 c else m_minedMoneyUnlockWindow c),
              tx_inputs := [BaseInput height], tx_outputs := outs, tx_extra := ex\<rparr>)))"

text \<open>The loop of \<open>isFusionTransaction\<close> over the inputs: their sum, unless one of them is dust.\<close>

fun fusion_inputs :: "'a Currency_scheme \<Rightarrow> u32 \<Rightarrow> u64 list \<Rightarrow> u64 \<Rightarrow> u64 option" where
  "fusion_inputs c height [] inputAmount = Some inputAmount"
| "fusion_inputs c height (amount # amounts) inputAmount =
    (if height < UPGRADE_HEIGHT_V4 \<and> amount < m_defaultDustThreshold c then None
     else fusion_inputs c height amounts (inputAmount + amount))"

definition isFusionTransaction_amounts :: "'a Currency_scheme \<Rightarrow> u64 list \<Rightarrow> u64 list \<Rightarrow> u64 \<Rightarrow> u32 \<Rightarrow> bool" where
  "isFusionTransaction_amounts c inputsAmounts outputsAmounts sz height =
    (if (if height \<le> UPGRADE_HEIGHT_V3 then sz > CRYPTONOTE_BLOCK_GRANTED_FULL_REWARD_ZONE_CURRENT * 30 div 100
         else sz > m_fusionTxMaxSize c) then False
     else if length inputsAmounts < unat (m_fusionTxMinInputCount c) then False
     else if length inputsAmounts < length outputsAmounts * unat (m_fusionTxMinInOutCountRatio c) then False
     else case fusion_inputs c height inputsAmounts 0 of
       None \<Rightarrow> False
     | Some inputAmount \<Rightarrow>
       sort (decompose_amount_into_digits inputAmount
         (if height < UPGRADE_HEIGHT_V4 then m_defaultDustThreshold c else 0)) = outputsAmounts)"

definition isFusionTransaction :: "'a Currency_scheme \<Rightarrow> Transaction \<Rightarrow> u32 \<Rightarrow> bool" where
  "isFusionTransaction c tx height =
    isFusionTransaction_amounts c (getInputsAmounts tx) (map out_amount (tx_outputs tx))
      (word_of_nat (snd (getObjectBinarySize write_Transaction tx))) height"

text \<open>The overload with the size of the transaction, which the code asserts to be the right one.\<close>

definition isFusionTransaction_sized :: "'a Currency_scheme \<Rightarrow> Transaction \<Rightarrow> u64 \<Rightarrow> u32 \<Rightarrow> bool option" where
  "isFusionTransaction_sized c tx sz height =
    (if word_of_nat (snd (getObjectBinarySize write_Transaction tx)) \<noteq> sz then None
     else Some (isFusionTransaction_amounts c (getInputsAmounts tx) (map out_amount (tx_outputs tx)) sz height))"

definition PRETTY_AMOUNTS :: "u64 list" where
  "PRETTY_AMOUNTS = [
    1, 2, 3, 4, 5, 6, 7, 8, 9,
    10, 20, 30, 40, 50, 60, 70, 80, 90,
    100, 200, 300, 400, 500, 600, 700, 800, 900,
    1000, 2000, 3000, 4000, 5000, 6000, 7000, 8000, 9000,
    10000, 20000, 30000, 40000, 50000, 60000, 70000, 80000, 90000,
    100000, 200000, 300000, 400000, 500000, 600000, 700000, 800000, 900000,
    1000000, 2000000, 3000000, 4000000, 5000000, 6000000, 7000000, 8000000, 9000000,
    10000000, 20000000, 30000000, 40000000, 50000000, 60000000, 70000000, 80000000, 90000000,
    100000000, 200000000, 300000000, 400000000, 500000000, 600000000, 700000000, 800000000, 900000000,
    1000000000, 2000000000, 3000000000, 4000000000, 5000000000, 6000000000, 7000000000, 8000000000, 9000000000,
    10000000000, 20000000000, 30000000000, 40000000000, 50000000000, 60000000000, 70000000000, 80000000000, 90000000000,
    100000000000, 200000000000, 300000000000, 400000000000, 500000000000, 600000000000, 700000000000, 800000000000, 900000000000,
    1000000000000, 2000000000000, 3000000000000, 4000000000000, 5000000000000, 6000000000000, 7000000000000, 8000000000000, 9000000000000,
    10000000000000, 20000000000000, 30000000000000, 40000000000000, 50000000000000, 60000000000000, 70000000000000, 80000000000000, 90000000000000,
    100000000000000, 200000000000000, 300000000000000, 400000000000000, 500000000000000, 600000000000000, 700000000000000, 800000000000000, 900000000000000,
    1000000000000000, 2000000000000000, 3000000000000000, 4000000000000000, 5000000000000000, 6000000000000000, 7000000000000000, 8000000000000000, 9000000000000000,
    10000000000000000, 20000000000000000, 30000000000000000, 40000000000000000, 50000000000000000, 60000000000000000, 70000000000000000, 80000000000000000, 90000000000000000,
    100000000000000000, 200000000000000000, 300000000000000000, 400000000000000000, 500000000000000000, 600000000000000000, 700000000000000000, 800000000000000000, 900000000000000000,
    1000000000000000000, 2000000000000000000, 3000000000000000000, 4000000000000000000, 5000000000000000000, 6000000000000000000, 7000000000000000000, 8000000000000000000, 9000000000000000000,
    10000000000000000000]"

text \<open>\<open>std::lower_bound\<close> on a sorted list: the position of the first element that is not smaller.\<close>

definition lower_bound :: "u64 list \<Rightarrow> u64 \<Rightarrow> nat" where
  "lower_bound xs a = length (takeWhile (\<lambda>x. x < a) xs)"

definition is_valid_decomposed_amount :: "u64 \<Rightarrow> bool" where
  "is_valid_decomposed_amount amount =
    (let it = lower_bound PRETTY_AMOUNTS amount in
     if it = length PRETTY_AMOUNTS \<or> amount \<noteq> PRETTY_AMOUNTS ! it then False else True)"

text \<open>The second component is the power of ten that is returned by reference.\<close>

definition isAmountApplicableInFusionTransactionInput :: "'a Currency_scheme \<Rightarrow> u64 \<Rightarrow> u64 \<Rightarrow> u32 \<Rightarrow> u8 option" where
  "isAmountApplicableInFusionTransactionInput c amount threshold height =
    (if amount \<ge> threshold then None
     else if height < UPGRADE_HEIGHT_V4 \<and> amount < m_defaultDustThreshold c then None
     else let it = lower_bound PRETTY_AMOUNTS amount in
       if it = length PRETTY_AMOUNTS \<or> amount \<noteq> PRETTY_AMOUNTS ! it then None
       else Some (word_of_nat (it div 9)))"

definition accountAddressAsString :: "Crypto \<Rightarrow> 'a Currency_scheme \<Rightarrow> AccountPublicAddress \<Rightarrow> string option" where
  "accountAddressAsString C c adr = getAccountAddressAsStr C (m_publicAddressBase58Prefix c) adr"

definition currency_parseAccountAddressString :: "Crypto \<Rightarrow> 'a Currency_scheme \<Rightarrow> string \<Rightarrow> AccountPublicAddress option" where
  "currency_parseAccountAddressString C c str = do {
     (prefix, addr) \<leftarrow> parseAccountAddressString C str;
     if prefix \<noteq> m_publicAddressBase58Prefix c then None else Some addr }"

definition formatAmount :: "'a Currency_scheme \<Rightarrow> u64 \<Rightarrow> string" where
  "formatAmount c amount =
    (let s = decimal (unat amount);
         places = unat (m_numberOfDecimalPlaces c);
         s = (if length s < places + 1 then replicate (places + 1 - length s) CHR ''0'' @ s else s)
     in take (length s - places) s @ ''.'' @ drop (length s - places) s)"

definition formatAmount_signed :: "'a Currency_scheme \<Rightarrow> i64 \<Rightarrow> string" where
  "formatAmount_signed c amount =
    (let s = formatAmount c (if sint amount < 0 then - amount else amount) in
     if sint amount < 0 then ''-'' @ s else s)"

definition is_space :: "char \<Rightarrow> bool" where
  "is_space ch \<longleftrightarrow> (of_char ch :: nat) \<in> {9, 10, 11, 12, 13, 32}"

definition is_digit :: "char \<Rightarrow> bool" where
  "is_digit ch \<longleftrightarrow> (48 :: nat) \<le> of_char ch \<and> (of_char ch :: nat) \<le> 57"

definition trim :: "string \<Rightarrow> string" where
  "trim s = rev (dropWhile is_space (rev (dropWhile is_space s)))"

text \<open>The loop of \<open>parseAmount\<close> that drops zeros at the end of a fraction that is too long.\<close>

function drop_zeros :: "nat \<Rightarrow> string \<Rightarrow> nat \<Rightarrow> string \<times> nat" where
  "drop_zeros places s fractionSize =
    (if places < fractionSize \<and> last s = CHR ''0'' then drop_zeros places (butlast s) (fractionSize - 1)
     else (s, fractionSize))"
  by pat_completeness auto
termination by (relation "measure (\<lambda>(_, _, f). f)") auto

declare drop_zeros.simps [simp del]

definition digits_value :: "string \<Rightarrow> nat" where
  "digits_value s = foldl (\<lambda>v ch. v * 10 + (of_char ch - 48)) 0 s"

text \<open>\<open>Common::fromString\<close> for a text of digits: reading it as a 64-bit number fails when it is too large.\<close>

definition fromString_u64 :: "string \<Rightarrow> u64 option" where
  "fromString_u64 s = (if digits_value s < 2 ^ 64 then Some (word_of_nat (digits_value s)) else None)"

definition parseAmount :: "'a Currency_scheme \<Rightarrow> string \<Rightarrow> u64 option" where
  "parseAmount c str =
    (let strAmount = trim str;
         places = unat (m_numberOfDecimalPlaces c)
     in do {
       (strAmount, fractionSize) \<leftarrow>
         (case findFrom strAmount CHR ''.'' 0 0 of
            Some pointIndex \<Rightarrow>
              (case drop_zeros places strAmount (length strAmount - pointIndex - 1) of
                 (strAmount, fractionSize) \<Rightarrow>
                   if places < fractionSize then None
                   else Some (take pointIndex strAmount @ drop (pointIndex + 1) strAmount, fractionSize))
          | None \<Rightarrow> Some (strAmount, 0));
       if strAmount = [] then None
       else if \<not> list_all is_digit strAmount then None
       else fromString_u64
         (if fractionSize < places then strAmount @ replicate (places - fractionSize) CHR ''0'' else strAmount) })"

section \<open>Difficulty and proof of work\<close>

text \<open>\<open>vector::resize\<close>: cut, or filled up with zeros.\<close>

definition vector_resize :: "nat \<Rightarrow> u64 list \<Rightarrow> u64 list" where
  "vector_resize n xs = take n xs @ replicate (n - length xs) 0"

text \<open>
  The part that both difficulty functions have in common: \<open>(True, d)\<close> when the function returns \<open>d\<close>
  there, \<open>(False, d)\<close> when it goes on with the difficulty \<open>d\<close>.
\<close>

definition windowDifficulty :: "'a Currency_scheme \<Rightarrow> u64 list \<Rightarrow> u64 list \<Rightarrow> currency_error + bool \<times> u64" where
  "windowDifficulty c timestamps cumulativeDifficulties =
    (let window = unat (m_difficultyWindow c);
         big = length timestamps > window;
         timestamps = (if big then vector_resize window timestamps else timestamps);
         cumulativeDifficulties = (if big then vector_resize window cumulativeDifficulties else cumulativeDifficulties);
         len = length timestamps
     in if len \<noteq> length cumulativeDifficulties then Inl AssertionFailed
     else if \<not> len \<le> window then Inl AssertionFailed
     else if len \<le> 1 then Inr (True, 1)
     else
       let timestamps = sort timestamps in
       if \<not> 2 * m_difficultyCut c \<le> m_difficultyWindow c - 2 then Inl AssertionFailed
       else
         let kept = unat (m_difficultyWindow c - 2 * m_difficultyCut c);
             cutBegin = (if len \<le> kept then 0 else (len - kept + 1) div 2);
             cutEnd = (if len \<le> kept then len else cutBegin + kept)
         in if \<not> (cutBegin + 2 \<le> cutEnd \<and> cutEnd \<le> len) then Inl AssertionFailed
         else
           let timeSpan = timestamps ! (cutEnd - 1) - timestamps ! cutBegin;
               timeSpan = (if timeSpan = 0 then 1 else timeSpan);
               totalWork = cumulativeDifficulties ! (cutEnd - 1) - cumulativeDifficulties ! cutBegin
           in if \<not> totalWork > 0 then Inl AssertionFailed
           else
             let (low, high) = mul128 totalWork (m_difficultyTarget c) in
             if high \<noteq> 0 \<or> low + timeSpan - 1 < low then Inr (True, 0)
             else Inr (False, (low + timeSpan - 1) div timeSpan))"

definition nextDifficultyDefault :: "'a Currency_scheme \<Rightarrow> u32 \<Rightarrow> u64 list \<Rightarrow> u64 list \<Rightarrow> currency_error + u64" where
  "nextDifficultyDefault c blockIndex timestamps cumulativeDifficulties =
    (if \<not> m_difficultyWindow c \<ge> 2 then Inl AssertionFailed
     else case windowDifficulty c timestamps cumulativeDifficulties of
       Inl e \<Rightarrow> Inl e
     | Inr (True, d) \<Rightarrow> Inr d
     | Inr (False, d) \<Rightarrow>
       let d = (if m_testnet c then d div 2 else d);
           d = (if \<not> m_testnet c \<and> blockIndex \<ge> 58494 \<and> blockIndex \<le> 58494 + 725 then 14 else d);
           d = (if \<not> m_testnet c \<and> blockIndex \<ge> 67589 \<and> blockIndex \<le> 67589 + 725 then 60000000 else d);
           d = (if \<not> m_testnet c \<and> blockIndex \<ge> 70336 \<and> blockIndex \<le> 70345 then 60000000 else d);
           d = (if \<not> m_testnet c \<and> blockIndex \<ge> 70346 \<and> blockIndex \<le> 70346 + 50 then 5000000 else d);
           d = (if \<not> m_testnet c \<and> blockIndex \<ge> 70404 \<and> blockIndex \<le> 70404 + 725 then 5000000 else d)
       in Inr d)"

definition nextDifficultyV4 :: "'a Currency_scheme \<Rightarrow> u32 \<Rightarrow> u64 list \<Rightarrow> u64 list \<Rightarrow> currency_error + u64" where
  "nextDifficultyV4 c blockIndex timestamps cumulativeDifficulties =
    (if \<not> m_difficultyWindow c \<ge> 2 then Inl AssertionFailed
     else if blockIndex \<ge> upgradeHeight c BLOCK_MAJOR_VERSION_4
       \<and> (ucast blockIndex :: u64) \<le> ucast (upgradeHeight c BLOCK_MAJOR_VERSION_4) + DIFFICULTY_WINDOW_V4
     then Inr (if \<not> m_testnet c then 17141714 else 14)
     else case windowDifficulty c timestamps cumulativeDifficulties of
       Inl e \<Rightarrow> Inl e
     | Inr (True, d) \<Rightarrow> Inr d
     | Inr (False, d) \<Rightarrow>
       let d = (if \<not> m_testnet c \<and> d < 100000 then 100000 else d) in
       if m_testnet c \<and> blockIndex \<ge> 17292 \<and> blockIndex \<le> 17493 then Inr 14
       else if m_testnet c \<and> blockIndex < 17292 then Inr (let d = d div 2 in if d < 14 then 14 else d)
       else Inr d)"

definition nextDifficulty :: "'a Currency_scheme \<Rightarrow> u32 \<Rightarrow> u8 \<Rightarrow> u64 list \<Rightarrow> u64 list \<Rightarrow> currency_error + u64" where
  "nextDifficulty c height blockMajorVersion timestamps cumulativeDifficulties =
    (if blockMajorVersion \<ge> BLOCK_MAJOR_VERSION_4 then nextDifficultyV4 c height timestamps cumulativeDifficulties
     else nextDifficultyDefault c height timestamps cumulativeDifficulties)"

text \<open>The proof of work that is returned by reference, when the block is accepted.\<close>

definition checkProofOfWorkV1 :: "(byte list \<Rightarrow> Hash) \<Rightarrow> (byte list \<Rightarrow> Hash) \<Rightarrow> Block \<Rightarrow> u64 \<Rightarrow> Hash option" where
  "checkProofOfWorkV1 H slow block currentDiffic =
    (if blk_majorVersion block = BLOCK_MAJOR_VERSION_2 \<or> blk_majorVersion block = BLOCK_MAJOR_VERSION_3 then None
     else do {
       proofOfWork \<leftarrow> get_block_longhash H slow block;
       if check_hash proofOfWork currentDiffic then Some proofOfWork else None })"

definition checkProofOfWorkV2 :: "(byte list \<Rightarrow> Hash) \<Rightarrow> (byte list \<Rightarrow> Hash) \<Rightarrow> 'a Currency_scheme \<Rightarrow> Block \<Rightarrow> u64 \<Rightarrow> Hash option" where
  "checkProofOfWorkV2 H slow c block currentDiffic =
    (if blk_majorVersion block < BLOCK_MAJOR_VERSION_2 then None
     else do {
       proofOfWork \<leftarrow> get_block_longhash H slow block;
       if \<not> check_hash proofOfWork currentDiffic then None
       else do {
         (depth, merkleRoot) \<leftarrow> getMergeMiningTagFromExtra (tx_extra (pb_baseTransaction (blk_parentBlock block)));
         if 8 * 32 < length (pb_blockchainBranch (blk_parentBlock block)) then None
         else do {
           auxBlockHeaderHash \<leftarrow> get_aux_block_header_hash H block;
           if tree_hash_from_branch H (pb_blockchainBranch (blk_parentBlock block))
             (length (pb_blockchainBranch (blk_parentBlock block))) auxBlockHeaderHash (Some (m_genesisBlockHash c)) \<noteq> merkleRoot
           then None else Some proofOfWork } } })"

definition checkProofOfWork :: "(byte list \<Rightarrow> Hash) \<Rightarrow> (byte list \<Rightarrow> Hash) \<Rightarrow> 'a Currency_scheme \<Rightarrow> Block \<Rightarrow> u64 \<Rightarrow> Hash option" where
  "checkProofOfWork H slow c block currentDiffic =
    (if blk_majorVersion block = BLOCK_MAJOR_VERSION_1 \<or> blk_majorVersion block = BLOCK_MAJOR_VERSION_4
     then checkProofOfWorkV1 H slow block currentDiffic
     else if blk_majorVersion block = BLOCK_MAJOR_VERSION_2 \<or> blk_majorVersion block = BLOCK_MAJOR_VERSION_3
     then checkProofOfWorkV2 H slow c block currentDiffic
     else None)"

definition getApproximateMaximumInputCount :: "u64 \<Rightarrow> u64 \<Rightarrow> u64 \<Rightarrow> u64 option" where
  "getApproximateMaximumInputCount transactionSize outputCount mixinCount =
    (let outputsSize = outputCount * (1 + 32 + 10);
         headerSize = 1 + 8 + 1 + 32;
         inputSize = 1 + 10 + 32 + 64 + 1 + 4 + mixinCount * (4 + 64)
     in if inputSize = 0 then None else Some ((transactionSize - headerSize - outputsSize) div inputSize))"

text \<open>The loop of \<open>generateGenesisTransaction\<close>; a failing key operation is a failing \<open>assert\<close>.\<close>

fun genesis_outs :: "Crypto \<Rightarrow> SecretKey \<Rightarrow> nat \<Rightarrow> u64 \<Rightarrow> u64 \<Rightarrow> AccountPublicAddress list \<Rightarrow> TransactionOutput list option" where
  "genesis_outs C sec i first_target_amount target_amount [] = Some []"
| "genesis_outs C sec i first_target_amount target_amount (target # targets) = do {
     derivation \<leftarrow> generate_key_derivation C (viewPublicKey target) sec;
     key \<leftarrow> derive_public_key C derivation i (spendPublicKey target);
     outs \<leftarrow> genesis_outs C sec (i + 1) first_target_amount target_amount targets;
     Some (\<lparr>out_amount = (if i = 0 then first_target_amount else target_amount), out_target = KeyOutput key\<rparr> # outs) }"

definition generateGenesisTransaction :: "Crypto \<Rightarrow> KeyPair \<Rightarrow> 'a Currency_scheme \<Rightarrow> AccountPublicAddress list \<Rightarrow> Transaction option" where
  "generateGenesisTransaction C txkey c targets =
    (if targets = [] then None
     else do {
       let block_reward = m_genesisBlockReward c;
       let target_amount = block_reward div word_of_nat (length targets);
       let first_target_amount = target_amount + block_reward mod word_of_nat (length targets);
       outs \<leftarrow> genesis_outs C (kp_secretKey txkey) 0 first_target_amount target_amount targets;
       Some \<lparr>tx_version = CURRENT_TRANSACTION_VERSION, tx_unlockTime = m_minedMoneyUnlockWindow c,
         tx_inputs = [BaseInput 0], tx_outputs = outs,
         tx_extra = keep [] (addTransactionPublicKeyToExtra [] (kp_publicKey txkey)), tx_signatures = []\<rparr> })"

section \<open>The block reward\<close>

lemma sint_small_diff:
  fixes a b :: i64
  assumes "unat a < 2 ^ 63" "unat b < 2 ^ 63"
  shows "sint (a - b) = int (unat a) - int (unat b)"
proof -
  have "a - b = word_of_int (int (unat a) - int (unat b))" by simp
  moreover have "int (unat a) < 2 ^ 63" "int (unat b) < 2 ^ 63"
    using assms by (metis of_nat_less_iff of_nat_numeral of_nat_power)+
  then have "- (2 ^ 63) \<le> int (unat a) - int (unat b)" "int (unat a) - int (unat b) < 2 ^ 63"
    using of_nat_0_le_iff[of "unat a"] of_nat_0_le_iff[of "unat b"] by linarith+
  then have "sint (word_of_int (int (unat a) - int (unat b)) :: i64) = int (unat a) - int (unat b)"
    by (subst signed_of_int) (simp add: signed_take_bit_int_eq_self)
  ultimately show ?thesis by simp
qed

definition base_reward :: "'a Currency_scheme \<Rightarrow> u64 \<Rightarrow> u64" where
  "base_reward c gen = (if gen = 0 \<and> m_genesisBlockReward c \<noteq> 0 then m_genesisBlockReward c
    else drop_bit (unat (m_emissionSpeedFactor c)) (m_moneySupply c - gen))"

lemma penalized_le:
  assumes "unat s \<le> 2 * unat m" "unat m < 2 ^ 31"
  obtains r where "getPenalizedAmount amount m s = Some r" "unat r \<le> unat amount"
proof -
  obtain r where r: "getPenalizedAmount amount m s = Some r" "m < s \<longrightarrow> amount \<noteq> 0 \<longrightarrow> r < amount"
     "unat r = (if s \<le> m then unat amount else unat amount * ((2 * unat m - unat s) * unat s) div (unat m * unat m))"
    using getPenalizedAmount_value[of s m amount] assms by auto
  have "unat r \<le> unat amount"
  proof (cases "s \<le> m \<or> amount = 0")
    case True
    then show ?thesis using r(3) by auto
  next
    case False
    then show ?thesis using r(2) by (auto simp: not_le word_less_nat_alt)
  qed
  then show thesis using r(1) that by blast
qed

lemma getBlockReward_cases:
  fixes median m :: u64 and c :: "'a Currency_scheme" and v :: u8
  defines "m \<equiv> max median (blockGrantedFullRewardZoneByBlockVersion c v)"
  assumes gen: "gen \<le> m_moneySupply c" and f: "0 < m_emissionSpeedFactor c" "m_emissionSpeedFactor c \<le> 64"
    and m: "unat m < 2 ^ 31"
  shows "getBlockReward c h v median s gen fee = (if s > 2 * m then Inl Refused else
     Inr (the (getPenalizedAmount (base_reward c gen) m s) +
         (if v \<ge> 2 \<or> m_cryptonoteCoinVersion c = 1 then the (getPenalizedAmount fee m s) else fee),
       the (getPenalizedAmount (base_reward c gen) m s) - (fee -
         (if v \<ge> 2 \<or> m_cryptonoteCoinVersion c = 1 then the (getPenalizedAmount fee m s) else fee))))"
proof (cases "s > 2 * m")
  case True
  then show ?thesis using gen f by (auto simp: getBlockReward_def Let_def m_def)
next
  case False
  have "unat (2 * m) = 2 * unat m" using m by (simp add: unat_times)
  then have s: "unat s \<le> 2 * unat m" using False by (simp add: not_less word_le_nat_alt)
  obtain r q where "getPenalizedAmount (base_reward c gen) m s = Some r" "getPenalizedAmount fee m s = Some q"
    using penalized_le[OF s m] by metis
  then show ?thesis using gen f False
    by (simp add: getBlockReward_def base_reward_def[symmetric] Let_def assert_some_def del: not_less flip: m_def)
qed

lemma block_reward_money:
  fixes median m :: u64 and c :: "'a Currency_scheme" and v :: u8
  defines "m \<equiv> max median (blockGrantedFullRewardZoneByBlockVersion c v)"
  assumes gen: "gen \<le> m_moneySupply c" and f: "0 < m_emissionSpeedFactor c" "m_emissionSpeedFactor c \<le> 64"
    and m: "unat m < 2 ^ 31" and g: "m_genesisBlockReward c \<le> m_moneySupply c"
    and small: "unat (m_moneySupply c) + unat fee < 2 ^ 63"
  shows "case getBlockReward c h v median s gen fee of
      Inl e \<Rightarrow> e = Refused \<and> 2 * unat m < unat s
    | Inr (reward, emissionChange) \<Rightarrow> unat s \<le> 2 * unat m
       \<and> sint emissionChange = int (unat reward) - int (unat fee)
       \<and> unat reward \<le> unat (base_reward c gen) + unat fee
       \<and> int (unat gen) + sint emissionChange \<le> int (unat (m_moneySupply c))"
proof -
  have m2: "unat (2 * m) = 2 * unat m" using m by (simp add: unat_times)
  note eq = getBlockReward_cases[OF gen f, of median v h s fee, folded m_def, OF m]
  show ?thesis
  proof (cases "s > 2 * m")
    case True
    then show ?thesis unfolding eq using m2 by (simp add: word_less_nat_alt)
  next
    case False
    then have s: "unat s \<le> 2 * unat m" using m2 by (simp add: not_less word_le_nat_alt)
    obtain r where r: "getPenalizedAmount (base_reward c gen) m s = Some r" "unat r \<le> unat (base_reward c gen)"
      using penalized_le[OF s m] by metis
    define q where "q = (if v \<ge> 2 \<or> m_cryptonoteCoinVersion c = 1 then the (getPenalizedAmount fee m s) else fee)"
    have q: "unat q \<le> unat fee" using penalized_le[OF s m, of fee] by (metis q_def option.sel order_refl)
    have "unat (base_reward c gen) + unat gen \<le> unat (m_moneySupply c)"
    proof (cases "gen = 0 \<and> m_genesisBlockReward c \<noteq> 0")
      case True
      then show ?thesis using g by (simp add: base_reward_def word_le_nat_alt)
    next
      case False
      have "unat (base_reward c gen) = unat (m_moneySupply c - gen) div 2 ^ unat (m_emissionSpeedFactor c)"
        using False by (auto simp: base_reward_def unat_drop_bit)
      also have "\<dots> \<le> unat (m_moneySupply c - gen)" by simp
      also have "\<dots> = unat (m_moneySupply c) - unat gen" using gen by (simp add: unat_sub)
      finally show ?thesis using gen by (simp add: word_le_nat_alt)
    qed
    then have b: "unat r + unat gen \<le> unat (m_moneySupply c)" using r(2) by simp
    have fq: "unat (fee - q) = unat fee - unat q" using q by (simp add: unat_sub word_le_nat_alt)
    have rq: "unat (r + q) = unat r + unat q" using b q small by (simp add: unat_plus)
    have "sint (r - (fee - q)) = int (unat r) - int (unat (fee - q))"
      using b small fq by (intro sint_small_diff) auto
    then have em: "sint (r - (fee - q)) = int (unat (r + q)) - int (unat fee)" using fq rq q by linarith
    then have "int (unat gen) + sint (r - (fee - q)) \<le> int (unat (m_moneySupply c))" using rq b q by linarith
    moreover have "unat (r + q) \<le> unat (base_reward c gen) + unat fee" using rq r(2) q by simp
    ultimately show ?thesis unfolding eq using False s r(1) em by (simp flip: q_def)
  qed
qed

section \<open>Miner and fusion transactions\<close>

lemma length_merge_outs: "1 \<le> n \<Longrightarrow> length (merge_outs n xs) \<le> max n (min (length xs) 1)"
proof (induction n xs rule: merge_outs.induct)
  case (1 n xs)
  then show ?case by (subst merge_outs.simps) (auto simp: le_max_iff_disj)
qed

lemma sum_list_butlast_merge:
  assumes "2 \<le> length xs"
  shows "sum_list (butlast (xs[length xs - 2 := xs ! (length xs - 2) + last xs])) = sum_list (xs :: u64 list)"
proof -
  obtain ys y z where xs: "xs = ys @ [y, z]"
  proof -
    have "xs \<noteq> []" "butlast xs \<noteq> []" using assms by (auto simp flip: length_greater_0_conv)
    then have "xs = butlast (butlast xs) @ [last (butlast xs), last xs]"
      by (metis append_Cons append_Nil append_assoc append_butlast_last_id)
    then show thesis using that by blast
  qed
  show ?thesis unfolding xs by (simp add: nth_append list_update_append butlast_append algebra_simps)
qed

lemma sum_list_merge_outs: "sum_list (merge_outs n xs) = sum_list xs"
proof (induction n xs rule: merge_outs.induct)
  case (1 n xs)
  then show ?case by (subst merge_outs.simps) (auto simp: sum_list_butlast_merge)
qed

lemma miner_outs_amounts:
  "miner_outs C adr sec no amounts = Some (outs, tot) \<Longrightarrow>
    map out_amount outs = amounts \<and> list_all (\<lambda>x. is_KeyOutput (out_target x)) outs \<and> tot = sum_list amounts"
  by (induction amounts arbitrary: no outs tot) (auto simp: bind_eq_Some_conv split: prod.splits)

definition miner_fields :: "KeyPair \<Rightarrow> BinaryArray \<Rightarrow> AccountPublicAddress \<Rightarrow> u64 \<Rightarrow> TransactionExtraField list" where
  "miner_fields txkey nonce adr reward = TransactionExtraPublicKey (kp_publicKey txkey)
    # (if nonce = [] then [] else [TransactionExtraNonce nonce])
    @ [TransactionExtraTxkey (kp_secretKey txkey), TransactionExtraToAddress adr, TransactionExtraAmount (getBinaryAmount reward)]"

lemma constructMinerTx_shape:
  assumes "constructMinerTx C txkey c v h median gen s fee adr tx0 nonce maxOuts = Inr tx"
  obtains reward em where "getBlockReward c h v median s gen fee = Inr (reward, em)"
    "tx_inputs tx = [BaseInput h]" "tx_signatures tx = tx_signatures tx0" "tx_version tx = 1"
    "length (tx_outputs tx) \<le> maxOuts" "sum_list (map out_amount (tx_outputs tx)) = reward"
    "list_all (\<lambda>x. is_KeyOutput (out_target x)) (tx_outputs tx)"
    "writeTransactionExtra [] (miner_fields txkey nonce adr reward) = Some (tx_extra tx)"
    "length nonce \<le> 255"
proof -
  have len8: "length (getBinaryAmount a) = 8" for a by (simp add: getBinaryAmount_le_bytes)
  obtain ex where ex: "(if nonce \<noteq> [] then addExtraNonceToTransactionExtra (keep [] (addTransactionPublicKeyToExtra [] (kp_publicKey txkey))) nonce
      else Some (keep [] (addTransactionPublicKeyToExtra [] (kp_publicKey txkey)))) = Some ex"
    using assms by (auto simp: constructMinerTx_def Let_def split: option.splits)
  obtain reward em where r: "getBlockReward c h v median s gen fee = Inr (reward, em)"
    using assms ex by (auto simp: constructMinerTx_def Let_def split: sum.splits option.splits)
  obtain outs tot where o: "1 \<le> maxOuts"
    "miner_outs C adr (kp_secretKey txkey) 0 (merge_outs maxOuts (decompose_amount_into_digits reward 0)) = Some (outs, tot)"
    "tot = reward" "tx_inputs tx = [BaseInput h]" "tx_signatures tx = tx_signatures tx0" "tx_version tx = 1"
    "tx_outputs tx = outs"
    "tx_extra tx = keep (keep (keep ex (addTxkeyToExtra ex (kp_secretKey txkey)))
        (addToAddressToExtra (keep ex (addTxkeyToExtra ex (kp_secretKey txkey))) adr))
      (addAmountToExtra (keep (keep ex (addTxkeyToExtra ex (kp_secretKey txkey)))
        (addToAddressToExtra (keep ex (addTxkeyToExtra ex (kp_secretKey txkey))) adr)) (getBinaryAmount reward))"
    using assms ex r by (auto simp: constructMinerTx_def Let_def split: option.splits if_splits)
  note a = miner_outs_amounts[OF o(2)]
  have "length outs \<le> maxOuts"
    using a length_merge_outs[OF o(1), of "decompose_amount_into_digits reward 0"] o(1) by (metis length_map max.absorb1 min.coboundedI2)
  moreover have "writeTransactionExtra [] (miner_fields txkey nonce adr reward) = Some (tx_extra tx)" "length nonce \<le> 255"
    using ex unfolding o(8) by (auto simp: miner_fields_def keep_def addTxkeyToExtra_def addToAddressToExtra_def addAmountToExtra_def
      addTransactionPublicKeyToExtra_def addExtraNonceToTransactionExtra_def len8 split: if_splits)
  ultimately show thesis using that[OF r o(4,5,6)] o(7,3) a by simp
qed

lemma miner_fields_parse:
  assumes "length (kp_publicKey txkey) = 32" "length (kp_secretKey txkey) = 32"
    "length (spendPublicKey adr) = 32" "length (viewPublicKey adr) = 32" "length nonce \<le> 255"
    "writeTransactionExtra [] (miner_fields txkey nonce adr reward) = Some ex"
  shows "parseTransactionExtra ex = (True, miner_fields txkey nonce adr reward)"
  using assms by (intro parse_writeTransactionExtra) (auto simp: miner_fields_def getBinaryAmount_le_bytes)

lemma fusion_inputs_sum:
  "fusion_inputs c h xs a = (if h < UPGRADE_HEIGHT_V4 \<and> list_ex (\<lambda>x. x < m_defaultDustThreshold c) xs then None
    else Some (a + sum_list xs))"
  by (induction xs arbitrary: a) (auto simp: add.assoc)

lemma isFusionTransaction_amounts_iff:
  "isFusionTransaction_amounts c ins outs s h \<longleftrightarrow>
    s \<le> (if h \<le> UPGRADE_HEIGHT_V3 then 6000 else m_fusionTxMaxSize c)
    \<and> unat (m_fusionTxMinInputCount c) \<le> length ins
    \<and> length outs * unat (m_fusionTxMinInOutCountRatio c) \<le> length ins
    \<and> (h < UPGRADE_HEIGHT_V4 \<longrightarrow> list_all (\<lambda>x. m_defaultDustThreshold c \<le> x) ins)
    \<and> outs = (if sum_list ins = 0 then [] else [sum_list ins])"
proof -
  have "list_all (\<lambda>x. m_defaultDustThreshold c \<le> x) ins \<longleftrightarrow> \<not> list_ex (\<lambda>x. x < m_defaultDustThreshold c) ins"
    by (simp add: list_all_iff list_ex_iff not_less)
  then show ?thesis
    by (auto simp: isFusionTransaction_amounts_def fusion_inputs_sum decompose_amount_into_digits_def not_less)
qed

section \<open>Amounts\<close>

lemma length_PRETTY: "length PRETTY_AMOUNTS = 172"
  by (simp add: PRETTY_AMOUNTS_def)

lemma pretty_nth:
  assumes "i < 172"
  shows "unat (PRETTY_AMOUNTS ! i) = (i mod 9 + 1) * 10 ^ (i div 9)"
proof -
  have "map unat PRETTY_AMOUNTS = map (\<lambda>i. (i mod 9 + 1) * 10 ^ (i div 9)) [0..<172]"
    by (simp add: PRETTY_AMOUNTS_def upt_rec)
  then have "map unat PRETTY_AMOUNTS ! i = map (\<lambda>i. (i mod 9 + 1) * 10 ^ (i div 9)) [0..<172] ! i" by simp
  then show ?thesis using assms by (simp add: length_PRETTY)
qed

lemma sorted_PRETTY: "sorted_wrt (<) PRETTY_AMOUNTS"
  unfolding PRETTY_AMOUNTS_def by (simp add: sorted_wrt2[OF transp_on_less] sorted_wrt1 del: sorted_wrt.simps)

lemma lower_bound_nth:
  assumes "sorted_wrt (<) xs" "i < length xs"
  shows "lower_bound xs (xs ! i) = i"
proof -
  have "takeWhile (\<lambda>x. x < xs ! i) xs = take i xs"
    using assms by (intro takeWhile_eq_take_P_nth) (auto simp: sorted_wrt_nth_less)
  then show ?thesis using assms(2) by (simp add: lower_bound_def)
qed

lemma pretty_found_iff:
  "(let it = lower_bound PRETTY_AMOUNTS a in it \<noteq> length PRETTY_AMOUNTS \<and> a = PRETTY_AMOUNTS ! it \<and> p = it div 9) \<longleftrightarrow>
    (\<exists>d. 1 \<le> d \<and> d \<le> 9 \<and> unat a = d * 10 ^ p)"
proof -
  have "(let it = lower_bound PRETTY_AMOUNTS a in it \<noteq> length PRETTY_AMOUNTS \<and> a = PRETTY_AMOUNTS ! it \<and> p = it div 9) \<longleftrightarrow>
    (\<exists>i<172. a = PRETTY_AMOUNTS ! i \<and> p = i div 9)"
    using lower_bound_nth[OF sorted_PRETTY] length_takeWhile_le[of "\<lambda>x. x < a" PRETTY_AMOUNTS]
    by (auto simp: Let_def length_PRETTY lower_bound_def le_less)
  also have "\<dots> \<longleftrightarrow> (\<exists>d. 1 \<le> d \<and> d \<le> 9 \<and> unat a = d * 10 ^ p)"
  proof
    assume "\<exists>i<172. a = PRETTY_AMOUNTS ! i \<and> p = i div 9"
    then show "\<exists>d. 1 \<le> d \<and> d \<le> 9 \<and> unat a = d * 10 ^ p"
    proof (elim exE conjE)
      fix i :: nat assume i: "i < 172" "a = PRETTY_AMOUNTS ! i" "p = i div 9"
      have "i mod 9 + 1 \<le> 9" using mod_less_divisor[of 9 i] by simp
      then show ?thesis using pretty_nth[OF i(1)] i by (intro exI[of _ "i mod 9 + 1"]) simp
    qed
  next
    assume "\<exists>d. 1 \<le> d \<and> d \<le> 9 \<and> unat a = d * 10 ^ p"
    then obtain d where d: "1 \<le> d" "d \<le> 9" "unat a = d * 10 ^ p" by blast
    have lt: "d * 10 ^ p < 2 ^ 64" using d(3) unat_less[of a] by simp
    have p: "p \<le> 19"
    proof (rule ccontr)
      assume "\<not> p \<le> 19"
      then have "(10::nat) ^ 20 \<le> 10 ^ p" by (intro power_increasing) auto
      then have "10 ^ 20 \<le> d * 10 ^ p" using d(1) mult_le_mono[of 1 d "10 ^ 20" "10 ^ p"] by simp
      then show False using lt by simp
    qed
    obtain e where e: "d = e + 1" "e < 9" using d by (cases d) auto
    have "e = 0" if "p = 19" using lt d(1) that e by simp
    then have i: "9 * p + e < 172" using p e by (cases "p = 19") auto
    moreover have "(9 * p + e) mod 9 = e" "(9 * p + e) div 9 = p" using e by auto
    ultimately show "\<exists>i<172. a = PRETTY_AMOUNTS ! i \<and> p = i div 9"
      using pretty_nth[OF i] d(3) e by (intro exI[of _ "9 * p + e"]) (simp add: word_unat_eq_iff)
  qed
  finally show ?thesis .
qed

lemma decimal_digits: "list_all is_digit (decimal n)"
proof (induction n rule: decimal.induct)
  case (1 n)
  have d: "is_digit (char_of (48 + k))" if "k < 10" for k :: nat
    using that by (simp add: is_digit_def of_char_of)
  show ?case using 1 d[of n] d[of "n mod 10"] by (subst decimal.simps) auto
qed

lemma decimal_not_Nil [simp]: "decimal n \<noteq> []"
  by (subst decimal.simps) simp

lemma digits_value_snoc: "digits_value (s @ [ch]) = digits_value s * 10 + (of_char ch - 48)"
  by (simp add: digits_value_def)

lemma digits_value_decimal: "digits_value (decimal n) = n"
proof (induction n rule: decimal.induct)
  case (1 n)
  have d: "of_char (char_of (48 + k) :: char) = 48 + k" if "k < 10" for k :: nat using that by (simp add: of_char_of)
  show ?case
  proof (cases "n < 10")
    case True
    then show ?thesis using d[of n] by (subst decimal.simps) (simp add: digits_value_def)
  next
    case False
    then show ?thesis using 1 d[of "n mod 10"] by (subst decimal.simps) (simp add: digits_value_snoc)
  qed
qed

lemma digits_value_zeros: "digits_value (replicate k CHR ''0'' @ s) = digits_value s"
proof -
  have "foldl (\<lambda>v ch. v * 10 + (of_char ch - 48)) (0::nat) (replicate k CHR ''0'') = 0"
    by (induction k) simp_all
  then show ?thesis by (simp add: digits_value_def)
qed

lemma findFrom_append: "c \<notin> set xs \<Longrightarrow> findFrom (xs @ c # ys) c i 0 = Some (i + length xs)"
  by (induction xs arbitrary: i) auto

lemma digit_props: "is_digit ch \<Longrightarrow> \<not> is_space ch" "\<not> is_digit CHR ''.''" "\<not> is_space CHR ''.''"
  by (auto simp: is_digit_def is_space_def)

lemma trim_id:
  assumes "s \<noteq> []" "\<not> is_space (hd s)" "\<not> is_space (last s)"
  shows "trim s = s"
proof -
  have "dropWhile is_space s = s" using assms by (cases s) auto
  moreover have "dropWhile is_space (rev s) = rev s" using assms by (cases "rev s") (auto simp: hd_rev[symmetric])
  ultimately show ?thesis by (simp add: trim_def)
qed

lemma parseAmount_formatAmount: "parseAmount c (formatAmount c amount) = Some amount"
proof -
  define p where "p = unat (m_numberOfDecimalPlaces c)"
  define s where "s = replicate (p + 1 - length (decimal (unat amount))) CHR ''0'' @ decimal (unat amount)"
  define a b where "a = take (length s - p) s" and "b = drop (length s - p) s"
  have dig: "list_all is_digit s" using decimal_digits by (auto simp: s_def list_all_iff is_digit_def)
  have len: "p < length s" by (simp add: s_def)
  have ab: "s = a @ b" "length b = p" "a \<noteq> []" using len by (auto simp: a_def b_def)
  have f: "formatAmount c amount = a @ CHR ''.'' # b"
    by (auto simp: formatAmount_def Let_def a_def b_def s_def p_def)
  have da: "list_all is_digit a" "list_all is_digit b" using dig ab(1) by simp_all
  have "\<not> is_space (hd (a @ CHR ''.'' # b))" using ab(3) da(1) digit_props by (cases a) auto
  moreover have "\<not> is_space (last (a @ CHR ''.'' # b))"
    using da(2) digit_props by (cases b rule: rev_cases) (auto simp: list_all_iff)
  ultimately have t: "trim (a @ CHR ''.'' # b) = a @ CHR ''.'' # b" by (intro trim_id) auto
  have "CHR ''.'' \<notin> set a" using da(1) digit_props(2) by (auto simp: list_all_iff)
  then have ff: "findFrom (a @ CHR ''.'' # b) CHR ''.'' 0 0 = Some (length a)" using findFrom_append[of "CHR ''.''" a b 0] by simp
  have dz: "drop_zeros p (a @ CHR ''.'' # b) p = (a @ CHR ''.'' # b, p)" by (subst drop_zeros.simps) simp
  have "digits_value (a @ b) = unat amount" unfolding ab(1)[symmetric] s_def by (simp add: digits_value_zeros digits_value_decimal)
  then have "fromString_u64 (a @ b) = Some amount" using unat_less[of amount] by (simp add: fromString_u64_def)
  then show ?thesis unfolding f parseAmount_def Let_def t using ff dz ab da by (simp flip: p_def)
qed

section \<open>The next difficulty\<close>

lemma ceil_div:
  fixes x d :: nat
  assumes "0 < x" "0 < d"
  defines "q \<equiv> (x + d - 1) div d"
  shows "x \<le> q * d" "(q - 1) * d < x" "0 < q"
proof -
  have "x + d - 1 = q * d + (x + d - 1) mod d" by (simp add: q_def)
  moreover have "(x + d - 1) mod d < d" using assms(2) by simp
  ultimately show *: "x \<le> q * d" using assms by linarith
  then show q: "0 < q" using assms(1) by (cases q) auto
  have "q * d \<le> x + d - 1" by (simp add: q_def)
  moreover obtain k where k: "q = Suc k" using q by (cases q) auto
  ultimately have "k * d < x" using assms(1,2) by simp
  then show "(q - 1) * d < x" using k by simp
qed

lemma window_kept:
  assumes "2 \<le> w" "2 * k \<le> w - (2::u64)"
  shows "2 \<le> unat (w - 2 * k)" "unat (w - 2 * k) \<le> unat w"
proof -
  have w: "unat (w - 2) = unat w - 2" using assms(1) by (simp add: unat_sub)
  then have k: "unat (2 * k) \<le> unat w - 2" using assms(2) by (simp add: word_le_nat_alt)
  then have "unat (w - 2 * k) = unat w - unat (2 * k)" by (simp add: unat_sub word_le_nat_alt)
  then show "2 \<le> unat (w - 2 * k)" "unat (w - 2 * k) \<le> unat w"
    using k assms(1) by (simp_all add: word_le_nat_alt)
qed

lemma cut_bounds:
  fixes len kept :: nat
  assumes "2 \<le> len" "2 \<le> kept"
  defines "b \<equiv> (if len \<le> kept then 0 else (len - kept + 1) div 2)"
  shows "b + 2 \<le> (if len \<le> kept then len else b + kept)" "(if len \<le> kept then len else b + kept) \<le> len"
  using assms by auto

text \<open>What the window part computes from the positions it cuts at.\<close>

definition window_span :: "u64 list \<Rightarrow> nat \<Rightarrow> nat \<Rightarrow> nat" where
  "window_span ts b e = max 1 (unat (sort ts ! (e - 1)) - unat (sort ts ! b))"

definition window_work :: "u64 list \<Rightarrow> nat \<Rightarrow> nat \<Rightarrow> nat" where
  "window_work cd b e = unat (cd ! (e - 1)) - unat (cd ! b)"

lemma span_word:
  assumes "b < e" "e \<le> length ts"
  shows "unat (let t = sort ts ! (e - 1) - sort ts ! b in if t = 0 then 1 else t) = window_span ts b e"
proof -
  have "sort ts ! b \<le> sort ts ! (e - 1)" using assms by (intro sorted_nth_mono) auto
  then have "unat (sort ts ! (e - 1) - sort ts ! b) = unat (sort ts ! (e - 1)) - unat (sort ts ! b)" by (simp add: unat_sub)
  moreover have "unat (sort ts ! b) < unat (sort ts ! (e - 1))" if "sort ts ! (e - 1) \<noteq> sort ts ! b"
    using that \<open>sort ts ! b \<le> sort ts ! (e - 1)\<close> by (metis word_less_nat_alt order_le_imp_less_or_eq)
  ultimately show ?thesis by (auto simp: window_span_def Let_def max_def Suc_le_eq)
qed

lemma work_word:
  assumes "sorted_wrt (<) cd" "b + 2 \<le> e" "e \<le> length cd"
  shows "unat (cd ! (e - 1) - cd ! b) = window_work cd b e" "0 < window_work cd b e"
proof -
  have lt: "cd ! b < cd ! (e - 1)" using assms by (intro sorted_wrt_nth_less[OF assms(1)]) auto
  then show "unat (cd ! (e - 1) - cd ! b) = window_work cd b e" by (simp add: window_work_def unat_sub)
  show "0 < window_work cd b e" using lt by (simp add: window_work_def word_less_nat_alt)
qed

lemma quotient_word:
  fixes work target span :: u64
  assumes "0 < unat span"
  shows "(let (low, high) = mul128 work target in
      if high \<noteq> 0 \<or> low + span - 1 < low then Inr (True, 0) else Inr (False, (low + span - 1) div span)) =
    (if unat work * unat target + unat span - 1 < 2 ^ 64
     then Inr (False, word_of_nat ((unat work * unat target + unat span - 1) div unat span)) else (Inr (True, 0) :: currency_error + bool \<times> u64))"
proof -
  obtain low high where m: "mul128 work target = (low, high)" by fastforce
  note p = mul128_correct[OF m]
  have s1: "unat (span - 1) = unat span - 1" using assms unat_sub[of 1 span] by (simp add: word_le_nat_alt Suc_le_eq)
  have assoc: "low + span - 1 = low + (span - 1)" by simp
  have ov: "low + span - 1 < low \<longleftrightarrow> 2 ^ 64 \<le> unat low + (unat span - 1)"
    unfolding assoc using add_carry_iff[of low "span - 1"] s1 by simp
  show ?thesis
  proof (cases "high = 0")
    case False
    then have "1 * 2 ^ 64 \<le> unat high * 2 ^ 64" by (intro mult_right_mono) (simp_all add: Suc_le_eq unat_gt_0)
    then have "2 ^ 64 \<le> unat work * unat target" using p by simp
    then show ?thesis using False m assms by simp
  next
    case True
    then have lo: "unat low = unat work * unat target" using p by simp
    show ?thesis
    proof (cases "2 ^ 64 \<le> unat low + (unat span - 1)")
      case True
      then show ?thesis using ov m lo assms by simp
    next
      case False
      then have "unat (low + span - 1) = unat work * unat target + unat span - 1"
        unfolding assoc using s1 lo assms by (simp add: unat_plus)
      then have "(low + span - 1) div span = word_of_nat ((unat work * unat target + unat span - 1) div unat span)"
        by (metis unat_div_distrib of_nat_unat ucast_id)
      then show ?thesis using False ov m lo \<open>high = 0\<close> assms by simp
    qed
  qed
qed

lemma windowDifficulty_value:
  assumes W: "2 \<le> m_difficultyWindow c" and cut: "2 * m_difficultyCut c \<le> m_difficultyWindow c - 2"
    and len: "length ts = length cd" and inc: "sorted_wrt (<) cd"
  defines "W \<equiv> unat (m_difficultyWindow c)"
  assumes n: "2 \<le> length ts"
  shows "\<exists>b e. b + 2 \<le> e \<and> e \<le> min W (length ts) \<and> (let span = window_span (take W ts) b e; work = window_work cd b e in 0 < work \<and>
    windowDifficulty c ts cd = (if work * unat (m_difficultyTarget c) + span - 1 < 2 ^ 64
      then Inr (False, word_of_nat ((work * unat (m_difficultyTarget c) + span - 1) div span)) else Inr (True, 0)))"
proof -
  define T D L where "T = take W ts" and "D = take W cd" and "L = min W (length ts)"
  have res: "(if length ts > W then vector_resize W ts else ts) = T" "(if length ts > W then vector_resize W cd else cd) = D"
    using len by (auto simp: vector_resize_def T_def D_def)
  have lens: "length T = L" "length D = L" using len by (auto simp: T_def D_def L_def)
  have W2: "2 \<le> W" using W by (simp add: W_def word_le_nat_alt)
  then have L2: "2 \<le> L" "L \<le> W" using n by (auto simp: L_def)
  define kept where "kept = unat (m_difficultyWindow c - 2 * m_difficultyCut c)"
  define b where "b = (if L \<le> kept then 0 else (L - kept + 1) div 2)"
  define e where "e = (if L \<le> kept then L else b + kept)"
  have be: "b + 2 \<le> e" "e \<le> L"
    unfolding e_def b_def using cut_bounds[OF L2(1), of kept] window_kept(1)[OF W cut, folded kept_def] by blast+
  have incD: "sorted_wrt (<) D" using inc by (simp add: D_def sorted_wrt_take)
  have wk: "unat (D ! (e - 1) - D ! b) = window_work D b e" "0 < window_work D b e"
    using work_word[OF incD be(1)] be(2) lens by auto
  have wD: "window_work D b e = window_work cd b e" using be L2 by (simp add: window_work_def D_def)
  have gt: "D ! (e - 1) - D ! b > 0" using wk by (simp add: word_less_nat_alt)
  define sp where "sp = (let t = sort T ! (e - 1) - sort T ! b in if t = 0 then 1 else t)"
  have sp: "unat sp = window_span T b e" using span_word[of b e T] be lens by (simp add: sp_def)
  have sp0: "0 < unat sp" by (simp add: sp window_span_def)
  have "windowDifficulty c ts cd = (let (low, high) = mul128 (D ! (e - 1) - D ! b) (m_difficultyTarget c) in
      if high \<noteq> 0 \<or> low + sp - 1 < low then Inr (True, 0) else Inr (False, (low + sp - 1) div sp))"
    using L2 lens be gt cut unfolding windowDifficulty_def Let_def W_def[symmetric] res kept_def[symmetric] lens b_def[symmetric] e_def[symmetric]
      sp_def[unfolded Let_def, symmetric]
    by (simp add: not_less)
  also have "\<dots> = (if window_work cd b e * unat (m_difficultyTarget c) + window_span T b e - 1 < 2 ^ 64
      then Inr (False, word_of_nat ((window_work cd b e * unat (m_difficultyTarget c) + window_span T b e - 1) div window_span T b e)) else Inr (True, 0))"
    unfolding quotient_word[OF sp0] wk wD sp ..
  finally show ?thesis using be wk(2) wD L_def T_def by (intro exI[of _ b] exI[of _ e]) (simp add: Let_def)
qed

lemma next_difficulty_least:
  assumes W: "2 \<le> m_difficultyWindow c" and cut: "2 * m_difficultyCut c \<le> m_difficultyWindow c - 2"
    and len: "length ts = length cd" and inc: "sorted_wrt (<) cd" and n: "2 \<le> length ts"
    and plain: "\<not> m_testnet c" "h < 58494" "v < BLOCK_MAJOR_VERSION_4" and target: "0 < m_difficultyTarget c"
  shows "\<exists>b e d. b + 2 \<le> e \<and> e \<le> min (unat (m_difficultyWindow c)) (length ts) \<and> nextDifficulty c h v ts cd = Inr d \<and>
    (let span = window_span (take (unat (m_difficultyWindow c)) ts) b e; goal = window_work cd b e * unat (m_difficultyTarget c) in
     if goal + span - 1 < 2 ^ 64 then goal \<le> unat d * span \<and> (unat d - 1) * span < goal \<and> 0 < d else d = 0)"
proof -
  obtain b e where be: "b + 2 \<le> e" "e \<le> min (unat (m_difficultyWindow c)) (length ts)"
    and w: "let span = window_span (take (unat (m_difficultyWindow c)) ts) b e; work = window_work cd b e in 0 < work \<and>
    windowDifficulty c ts cd = (if work * unat (m_difficultyTarget c) + span - 1 < 2 ^ 64
      then Inr (False, word_of_nat ((work * unat (m_difficultyTarget c) + span - 1) div span)) else Inr (True, 0))"
    using windowDifficulty_value[OF W cut len inc n] by blast
  define span where "span = window_span (take (unat (m_difficultyWindow c)) ts) b e"
  define goal where "goal = window_work cd b e * unat (m_difficultyTarget c)"
  have g: "0 < goal" "0 < span" using w target by (simp_all add: goal_def span_def window_span_def Let_def word_less_nat_alt)
  define q where "q = (goal + span - 1) div span"
  have wd: "windowDifficulty c ts cd = (if goal + span - 1 < 2 ^ 64 then Inr (False, word_of_nat q) else Inr (True, 0))"
    using w by (simp add: Let_def goal_def span_def q_def)
  have nd: "nextDifficulty c h v ts cd = (if goal + span - 1 < 2 ^ 64 then Inr (word_of_nat q) else Inr 0)"
    using wd W plain by (auto simp: nextDifficulty_def nextDifficultyDefault_def Let_def word_le_nat_alt word_less_nat_alt)
  have "unat (word_of_nat q :: u64) = q" if "goal + span - 1 < 2 ^ 64"
  proof -
    have "q \<le> goal + span - 1" by (simp add: q_def)
    then show ?thesis using that by (simp add: unat_of_nat)
  qed
  then show ?thesis using be nd ceil_div[OF g] unfolding span_def[symmetric] goal_def[symmetric] q_def[symmetric]
    by (intro exI[of _ b] exI[of _ e]) (auto simp: Let_def span_def[symmetric] goal_def[symmetric] word_less_nat_alt)
qed

section \<open>Genesis rewards and proof of work\<close>

lemma genesis_outs_sum:
  "genesis_outs C sec i f t targets = Some outs \<Longrightarrow>
    sum_list (map out_amount outs) = (if targets = [] then 0 else if i = 0 then f + word_of_nat (length targets - 1) * t
      else word_of_nat (length targets) * t)"
proof (induction targets arbitrary: i outs)
  case (Cons a targets)
  then show ?case by (cases targets) (fastforce simp: bind_eq_Some_conv algebra_simps)+
qed simp

lemma genesis_reward_split:
  assumes "generateGenesisTransaction C txkey c targets = Some tx" "length targets < 2 ^ 64"
  shows "sum_list (map out_amount (tx_outputs tx)) = m_genesisBlockReward c"
proof -
  define n where "n = length targets"
  have n: "0 < n" "n < 2 ^ 64" using assms by (auto simp: generateGenesisTransaction_def n_def split: if_splits)
  have "sum_list (map out_amount (tx_outputs tx)) = m_genesisBlockReward c div word_of_nat n + m_genesisBlockReward c mod word_of_nat n
      + word_of_nat (n - 1) * (m_genesisBlockReward c div word_of_nat n)"
    using assms n genesis_outs_sum[of C "kp_secretKey txkey" 0 _ _ targets]
    by (auto simp: generateGenesisTransaction_def bind_eq_Some_conv Let_def n_def split: if_splits)
  also have "word_of_nat (n - 1) = (word_of_nat n :: u64) - 1" using n by (simp add: of_nat_diff)
  also have "r div N + r mod N + (N - 1) * (r div N) = r" for r N :: u64
  proof -
    have "r div N + r mod N + (N - 1) * (r div N) = N * (r div N) + r mod N" by (simp add: algebra_simps)
    also have "\<dots> = r" by (rule mult_div_mod_eq)
    finally show ?thesis .
  qed
  finally show ?thesis .
qed

lemma checkProofOfWork_hash:
  "checkProofOfWork H slow c block d = Some pow \<Longrightarrow> get_block_longhash H slow block = Some pow \<and> check_hash pow d"
  by (auto simp: checkProofOfWork_def checkProofOfWorkV1_def checkProofOfWorkV2_def bind_eq_Some_conv split: if_splits)

lemma longhash_length:
  "get_block_longhash H slow block = Some pow \<Longrightarrow> (\<And>x. length (slow x) = 32) \<Longrightarrow> length pow = 32"
  by (auto simp: get_block_longhash_def bind_eq_Some_conv)

section \<open>Properties\<close>

definition sample_currency :: Currency where
  "sample_currency = the CurrencyBuilder"

lemmas sample_currency_simps = sample_currency_def CurrencyBuilder_def set_emissionSpeedFactor_def set_difficultyWindow_def
  set_upgradeVotingThreshold_def set_upgradeWindow_def set_numberOfDecimalPlaces_def

text \<open>
  C14: money is conserved by the block reward: when the sizes are below 2 to the 31 and supply and fees
  below 2 to the 63, no assertion fails; the reward is refused exactly for a block more than twice the
  median; otherwise the change of the emission is the reward minus the fees, the reward is at most the
  base reward plus the fees, and the coins generated never exceed the money supply.
\<close>

theorem block_reward_conserves:
  assumes "gen \<le> m_moneySupply c" "0 < m_emissionSpeedFactor c" "m_emissionSpeedFactor c \<le> 64"
    and "unat (max median (blockGrantedFullRewardZoneByBlockVersion c v)) < 2 ^ 31"
    and "m_genesisBlockReward c \<le> m_moneySupply c" "unat (m_moneySupply c) + unat fee < 2 ^ 63"
  shows "case getBlockReward c h v median s gen fee of
      Inl e \<Rightarrow> e = Refused \<and> 2 * unat (max median (blockGrantedFullRewardZoneByBlockVersion c v)) < unat s
    | Inr (reward, emissionChange) \<Rightarrow> unat s \<le> 2 * unat (max median (blockGrantedFullRewardZoneByBlockVersion c v))
       \<and> sint emissionChange = int (unat reward) - int (unat fee)
       \<and> unat reward \<le> unat (base_reward c gen) + unat fee
       \<and> int (unat gen) + sint emissionChange \<le> int (unat (m_moneySupply c))"
  by (rule block_reward_money[OF assms])

theorem block_reward_conserves_witness:
  "getBlockReward sample_currency 5 1 0 100 1000 7 = Inr (419616699225, 419616699218)
   \<and> sint (419616699218 :: i64) = 419616699225 - 7"
proof -
  have r: "getBlockReward sample_currency 5 1 0 100 1000 7 = Inr (419616699225, 419616699218)"
    by (simp add: getBlockReward_def sample_currency_simps blockGrantedFullRewardZoneByBlockVersion_def assert_some_def getPenalizedAmount_def Let_def max_def)
  then show ?thesis
    using block_reward_conserves[of 1000 sample_currency 0 1 7 5 100]
    by (simp add: sample_currency_simps blockGrantedFullRewardZoneByBlockVersion_def)
qed

text \<open>
  C20: a miner transaction that is constructed has the height as its only input, no more outputs than
  asked for, all of them to keys, which sum to the block reward, and an extra field that parses to the
  transaction key, the nonce, the secret key, the address of the miner and the reward.
\<close>

theorem miner_transaction:
  assumes "constructMinerTx C txkey c v h median gen s fee adr tx0 nonce maxOuts = Inr tx"
    and "length (kp_publicKey txkey) = 32" "length (kp_secretKey txkey) = 32"
    and "length (spendPublicKey adr) = 32" "length (viewPublicKey adr) = 32"
  shows "\<exists>reward em. getBlockReward c h v median s gen fee = Inr (reward, em)
    \<and> tx_inputs tx = [BaseInput h] \<and> length (tx_outputs tx) \<le> maxOuts
    \<and> sum_list (map out_amount (tx_outputs tx)) = reward
    \<and> list_all (\<lambda>x. is_KeyOutput (out_target x)) (tx_outputs tx)
    \<and> parseTransactionExtra (tx_extra tx) = (True, miner_fields txkey nonce adr reward)"
  using constructMinerTx_shape[OF assms(1)] miner_fields_parse[OF assms(2-5)] by metis

theorem miner_transaction_witness:
  "\<exists>tx. constructMinerTx sample_crypto \<lparr>kp_publicKey = replicate 32 5, kp_secretKey = replicate 32 6\<rparr> sample_currency 1 9 0 1000 100 7
      sample_address empty_transaction [1, 2] 1 = Inr tx \<and> sum_list (map out_amount (tx_outputs tx)) = 419616699225
    \<and> fst (parseTransactionExtra (tx_extra tx))"
  (is "\<exists>tx. ?c = _ \<and> _")
proof -
  have r: "getBlockReward sample_currency 9 1 0 100 1000 7 = Inr (419616699225, 419616699218)"
    by (simp add: getBlockReward_def sample_currency_simps blockGrantedFullRewardZoneByBlockVersion_def assert_some_def getPenalizedAmount_def Let_def max_def)
  have "\<exists>tx. ?c = Inr tx"
    by (simp add: constructMinerTx_def r sample_crypto_def sample_address_def keep_def addTransactionPublicKeyToExtra_def
      addExtraNonceToTransactionExtra_def decompose_amount_into_digits_def merge_outs.simps Let_def)
  then obtain tx where tx: "?c = Inr tx" by blast
  show ?thesis using miner_transaction[OF tx] tx r by (auto simp: sample_address_def)
qed


text \<open>
  C22: an amount formatted with the decimal point is parsed back to the same amount, for every amount and
  every number of decimal places.
\<close>

theorem amount_text_roundtrip: "parseAmount c (formatAmount c amount) = Some amount"
  by (rule parseAmount_formatAmount)

text \<open>
  An amount is accepted as the input of a fusion transaction exactly when it is below the threshold,
  not dust before the fourth version, and one non-zero decimal digit followed by zeros; the power of
  ten returned is the number of these zeros.
\<close>

theorem fusion_input_digit:
  "isAmountApplicableInFusionTransactionInput c amount threshold h = Some p \<longleftrightarrow>
    amount < threshold \<and> (h \<ge> UPGRADE_HEIGHT_V4 \<or> m_defaultDustThreshold c \<le> amount)
    \<and> (\<exists>d k. 1 \<le> d \<and> d \<le> 9 \<and> unat amount = d * 10 ^ k \<and> p = word_of_nat k)"
proof -
  have "isAmountApplicableInFusionTransactionInput c amount threshold h = Some p \<longleftrightarrow>
    amount < threshold \<and> (h \<ge> UPGRADE_HEIGHT_V4 \<or> m_defaultDustThreshold c \<le> amount) \<and>
    (\<exists>k. (let it = lower_bound PRETTY_AMOUNTS amount in it \<noteq> length PRETTY_AMOUNTS \<and> amount = PRETTY_AMOUNTS ! it \<and> k = it div 9) \<and> p = word_of_nat k)"
    by (auto simp: isAmountApplicableInFusionTransactionInput_def Let_def not_le not_less split: if_splits)
  then show ?thesis unfolding pretty_found_iff by blast
qed



text \<open>On the test network the halving of the difficulty can end at zero.\<close>

lemma testnet_difficulty_zero:
  "nextDifficultyDefault (sample_currency\<lparr>m_testnet := True\<rparr>) 3 [0, 1000] [1, 2] = Inr 0"
  by (simp add: nextDifficultyDefault_def windowDifficulty_def sample_currency_simps Let_def mul128_def hi_dword_def lo_dword_def)

text \<open>
  C24: a block whose proof of work is accepted, whatever its version, has a slow hash that times the
  difficulty stays below 2 to the 256.
\<close>

theorem proof_of_work_sound:
  assumes "\<And>x. length (slow x) = 32" and "checkProofOfWork H slow c block d = Some pow"
  shows "get_block_longhash H slow block = Some pow \<and> le_nat pow * unat d < 2 ^ 256"
proof -
  have h: "get_block_longhash H slow block = Some pow" "check_hash pow d" using checkProofOfWork_hash[OF assms(2)] by auto
  moreover have "length pow = 32" using longhash_length[OF h(1)] assms(1) by simp
  ultimately show ?thesis by (simp add: check_hash_iff)
qed

theorem proof_of_work_sound_witness:
  "\<exists>pow. checkProofOfWork (\<lambda>x. replicate 32 0) (\<lambda>x. replicate 32 1) sample_currency sample_block 1 = Some pow
    \<and> le_nat pow * unat (1 :: u64) < 2 ^ 256"
proof -
  have l: "get_block_longhash (\<lambda>x. replicate 32 0) (\<lambda>x. replicate 32 1) sample_block = Some (replicate 32 1)"
    by (simp add: get_block_longhash_def sample_block_def get_block_hashing_blob_def toBinaryArray_def write_BlockHeader_def)
  have "check_hash (replicate 32 1) 1"
    using le_nat_less[of "replicate 32 1"] by (simp add: check_hash_iff)
  then have c: "checkProofOfWork (\<lambda>x. replicate 32 0) (\<lambda>x. replicate 32 1) sample_currency sample_block 1 = Some (replicate 32 1)"
    using l by (simp add: checkProofOfWork_def checkProofOfWorkV1_def) (simp add: sample_block_def)
  show ?thesis using proof_of_work_sound[OF _ c] c by auto
qed

end
