(* ===== verification/Multimap.thy ===== *)
theory Multimap
  imports Main "HOL-Library.Multiset"
begin

text \<open>
  The associative containers with repeated keys that the indices use: \<open>std::multimap\<close> as a list of
  pairs in ascending order of the key, equal keys in the order of their insertion, and
  \<open>std::unordered_multimap\<close> as a list of pairs in the order of insertion. Both keep the contract of
  the locale \<open>multimap\<close>, in which the lemmas for their clients are proved.
\<close>

section \<open>Definitions\<close>

definition mm_insert :: "'k::linorder \<Rightarrow> 'v \<Rightarrow> ('k \<times> 'v) list \<Rightarrow> ('k \<times> 'v) list" where
  "mm_insert k v m = takeWhile (\<lambda>p. fst p \<le> k) m @ (k, v) # dropWhile (\<lambda>p. fst p \<le> k) m"

definition um_insert :: "'k \<Rightarrow> 'v \<Rightarrow> ('k \<times> 'v) list \<Rightarrow> ('k \<times> 'v) list" where
  "um_insert k v m = m @ [(k, v)]"

definition equal_range :: "'k \<Rightarrow> ('k \<times> 'v) list \<Rightarrow> 'v list" where
  "equal_range k m = map snd (filter (\<lambda>p. fst p = k) m)"

text \<open>The loop over a range that erases the first entry with the value and tells whether there was one.\<close>

definition erase_entry :: "'k \<Rightarrow> 'v \<Rightarrow> ('k \<times> 'v) list \<Rightarrow> bool \<times> ('k \<times> 'v) list" where
  "erase_entry k v m = (if v \<in> set (equal_range k m) then (True, remove1 (k, v) m) else (False, m))"

text \<open>From \<open>lower_bound\<close> of the first key to \<open>upper_bound\<close> of the last.\<close>

definition key_range :: "'k::linorder \<Rightarrow> 'k \<Rightarrow> ('k \<times> 'v) list \<Rightarrow> ('k \<times> 'v) list" where
  "key_range a b m = takeWhile (\<lambda>p. fst p \<le> b) (dropWhile (\<lambda>p. fst p < a) m)"

section \<open>The contract\<close>

locale multimap =
  fixes ins :: "'k \<Rightarrow> 'v \<Rightarrow> 's \<Rightarrow> 's"
    and del :: "'k \<Rightarrow> 'v \<Rightarrow> 's \<Rightarrow> bool \<times> 's"
    and look :: "'k \<Rightarrow> 's \<Rightarrow> 'v list"
    and entries :: "'s \<Rightarrow> ('k \<times> 'v) multiset"
  assumes ins_entries: "entries (ins k v s) = add_mset (k, v) (entries s)"
    and del_found: "fst (del k v s) \<longleftrightarrow> (k, v) \<in># entries s"
    and del_entries: "entries (snd (del k v s)) = entries s - {#(k, v)#}"
    and look_entries: "mset (look k s) = image_mset snd (filter_mset (\<lambda>p. fst p = k) (entries s))"
begin

lemma del_ins: "fst (del k v (ins k v s)) \<and> entries (snd (del k v (ins k v s))) = entries s"
  by (simp add: del_found del_entries ins_entries)

lemma look_ins: "mset (look j (ins k v s)) = (if j = k then {#v#} else {#}) + mset (look j s)"
  by (simp add: look_entries ins_entries)

lemma look_del_other: "j \<noteq> k \<Longrightarrow> mset (look j (snd (del k v s))) = mset (look j s)"
  by (simp add: look_entries del_entries)

lemma fold_ins: "entries (fold (\<lambda>(k, v). ins k v) ps s) = mset ps + entries s"
  by (induction ps arbitrary: s) (auto simp: ins_entries)

end

section \<open>Both containers keep it\<close>

lemma mset_equal_range: "mset (equal_range k m) = image_mset snd (filter_mset (\<lambda>p. fst p = k) (mset m))"
  by (simp add: equal_range_def flip: mset_filter)

lemma equal_range_iff: "v \<in> set (equal_range k m) \<longleftrightarrow> (k, v) \<in> set m"
  by (force simp: equal_range_def)

lemma mset_mm_insert: "mset (mm_insert k v m) = add_mset (k, v) (mset m)"
proof -
  have "mset m = mset (takeWhile (\<lambda>p. fst p \<le> k) m @ dropWhile (\<lambda>p. fst p \<le> k) m)" by simp
  then show ?thesis unfolding mm_insert_def mset_append by simp
qed

lemma erase_entry_mset: "fst (erase_entry k v m) \<longleftrightarrow> (k, v) \<in># mset m" "mset (snd (erase_entry k v m)) = mset m - {#(k, v)#}"
  by (auto simp: erase_entry_def equal_range_iff diff_single_trivial)

interpretation mm: multimap mm_insert erase_entry equal_range mset
  by unfold_locales (simp_all add: mset_mm_insert erase_entry_mset mset_equal_range)

interpretation um: multimap um_insert erase_entry equal_range mset
  by unfold_locales (simp_all add: um_insert_def erase_entry_mset mset_equal_range)

section \<open>Order\<close>

lemma takeWhile_le_all: "x \<in> set (takeWhile (\<lambda>p. fst p \<le> k) m) \<Longrightarrow> fst x \<le> k"
  by (induction m) (auto split: if_splits)

lemma dropWhile_le_all:
  "sorted (map fst m) \<Longrightarrow> x \<in> set (dropWhile (\<lambda>p. fst p \<le> k) m) \<Longrightarrow> k < fst x"
  by (induction m) (auto simp: not_le split: if_splits)

lemma sorted_mm_insert: "sorted (map fst m) \<Longrightarrow> sorted (map fst (mm_insert k v m))"
proof -
  assume s: "sorted (map fst m)"
  then have "sorted (map fst (takeWhile (\<lambda>p. fst p \<le> k) m) @ map fst (dropWhile (\<lambda>p. fst p \<le> k) m))"
    by (simp flip: map_append)
  then show ?thesis using takeWhile_le_all[of _ k m] dropWhile_le_all[OF s, of _ k]
    by (auto simp: mm_insert_def sorted_append intro: less_imp_le)
qed

lemma sorted_erase_entry: "sorted (map fst m) \<Longrightarrow> sorted (map fst (snd (erase_entry k v m)))"
  by (auto simp: erase_entry_def sorted_map_remove1)

lemma key_range_filter:
  "sorted (map fst m) \<Longrightarrow> key_range a b m = filter (\<lambda>p. a \<le> fst p \<and> fst p \<le> b) m"
proof (induction m)
  case (Cons p m)
  then have p: "\<forall>x\<in>set m. fst p \<le> fst x" and IH: "key_range a b m = filter (\<lambda>p. a \<le> fst p \<and> fst p \<le> b) m" by auto
  show ?case
  proof (cases "fst p < a")
    case True
    then show ?thesis using IH by (auto simp: key_range_def)
  next
    case False
    then have "dropWhile (\<lambda>p. fst p < a) m = m" using p by (cases m) auto
    then have eq: "takeWhile (\<lambda>p. fst p \<le> b) m = filter (\<lambda>p. a \<le> fst p \<and> fst p \<le> b) m" using IH by (simp add: key_range_def)
    moreover have "filter (\<lambda>p. a \<le> fst p \<and> fst p \<le> b) m = []" if "\<not> fst p \<le> b" using p that by (fastforce simp: filter_empty_conv)
    ultimately show ?thesis using False by (auto simp: key_range_def)
  qed
qed (simp add: key_range_def)

end
