(* ===== verification/BlockchainIndices.thy ===== *)
theory BlockchainIndices
  imports Multimap CurrencyConfig "HOL-Library.List_Lexorder" "HOL-Library.Char_ord"
begin

text \<open>
  The optional indices over the blockchain (\<open>src/src/DynexCNCore/BlockchainIndices.cpp\<close>) and the two
  functions of \<open>src/src/BlockchainExplorer/BlockchainExplorerDataBuilder.cpp\<close> that tell under which keys
  a transaction is entered. An index is a flag and a container; \<open>None\<close> stands for an exception or a
  failing assertion. The indices keep the contract of \<open>multimap\<close>.
\<close>

section \<open>Definitions\<close>

record 'k HashIndex =
  hi_enabled :: bool
  hi_index :: "('k \<times> Hash) list"

definition getPaymentId :: "'a TransactionPrefix_scheme \<Rightarrow> Hash option" where
  "getPaymentId tx = do {
     nonce \<leftarrow> findNonce (snd (parseTransactionExtra (tx_extra tx)));
     getPaymentIdFromTransactionExtraNonce nonce }"

fun field_address :: "TransactionExtraField \<Rightarrow> AccountPublicAddress option" where
  "field_address (TransactionExtraFromAddress a) = Some a"
| "field_address (TransactionExtraToAddress a) = Some a"
| "field_address f = None"

definition getAddresses :: "Crypto \<Rightarrow> 'a TransactionPrefix_scheme \<Rightarrow> string list option" where
  "getAddresses C tx =
    those (map (getAccountAddressAsStr C CRYPTONOTE_PUBLIC_ADDRESS_BASE58_PREFIX)
      (List.map_filter field_address (snd (parseTransactionExtra (tx_extra tx)))))"

text \<open>The address index.\<close>

definition ai_add :: "Crypto \<Rightarrow> Transaction \<Rightarrow> Hash \<Rightarrow> string HashIndex \<Rightarrow> (bool \<times> string HashIndex) option" where
  "ai_add C tx h i =
    (if \<not> hi_enabled i then Some (False, i)
     else do {
       addresses \<leftarrow> getAddresses C tx;
       Some (True, i\<lparr>hi_index := fold (\<lambda>(address, h). mm_insert address h) (map (\<lambda>a. (a, h)) addresses) (hi_index i)\<rparr>) })"

fun ai_erase :: "string list \<Rightarrow> Hash \<Rightarrow> (string \<times> Hash) list \<Rightarrow> bool \<times> (string \<times> Hash) list" where
  "ai_erase [] h m = (False, m)"
| "ai_erase (address # addresses) h m =
    (case erase_entry address h m of (True, m) \<Rightarrow> (True, m) | (False, _) \<Rightarrow> ai_erase addresses h m)"

definition ai_remove :: "Crypto \<Rightarrow> Transaction \<Rightarrow> Hash \<Rightarrow> string HashIndex \<Rightarrow> (bool \<times> string HashIndex) option" where
  "ai_remove C tx h i =
    (if \<not> hi_enabled i then Some (False, i)
     else do {
       addresses \<leftarrow> getAddresses C tx;
       let (r, m) = ai_erase addresses h (hi_index i);
       Some (r, i\<lparr>hi_index := m\<rparr>) })"

definition ai_find :: "string \<Rightarrow> string HashIndex \<Rightarrow> Hash list option" where
  "ai_find address i = (if \<not> hi_enabled i then None else Some (equal_range address (hi_index i)))"

text \<open>The payment id index.\<close>

definition pii_add :: "Transaction \<Rightarrow> Hash \<Rightarrow> Hash HashIndex \<Rightarrow> bool \<times> Hash HashIndex" where
  "pii_add tx h i =
    (if \<not> hi_enabled i then (False, i)
     else case getPaymentId tx of
       None \<Rightarrow> (False, i)
     | Some paymentId \<Rightarrow> (True, i\<lparr>hi_index := um_insert paymentId h (hi_index i)\<rparr>))"

definition pii_remove :: "Transaction \<Rightarrow> Hash \<Rightarrow> Hash HashIndex \<Rightarrow> bool \<times> Hash HashIndex" where
  "pii_remove tx h i =
    (if \<not> hi_enabled i then (False, i)
     else case getPaymentId tx of
       None \<Rightarrow> (False, i)
     | Some paymentId \<Rightarrow> (let (r, m) = erase_entry paymentId h (hi_index i) in (r, i\<lparr>hi_index := m\<rparr>)))"

definition pii_find :: "Hash \<Rightarrow> Hash HashIndex \<Rightarrow> Hash list option" where
  "pii_find paymentId i = (if \<not> hi_enabled i then None else Some (equal_range paymentId (hi_index i)))"

text \<open>The timestamp indices of blocks and of transactions.\<close>

definition tbi_add :: "u64 \<Rightarrow> Hash \<Rightarrow> u64 HashIndex \<Rightarrow> bool \<times> u64 HashIndex" where
  "tbi_add timestamp h i =
    (if \<not> hi_enabled i then (False, i) else (True, i\<lparr>hi_index := mm_insert timestamp h (hi_index i)\<rparr>))"

definition tbi_remove :: "u64 \<Rightarrow> Hash \<Rightarrow> u64 HashIndex \<Rightarrow> bool \<times> u64 HashIndex" where
  "tbi_remove timestamp h i =
    (if \<not> hi_enabled i then (False, i)
     else let (r, m) = erase_entry timestamp h (hi_index i) in (r, i\<lparr>hi_index := m\<rparr>))"

text \<open>The hashes found, and how many entries lie between the timestamps; \<open>hashes\<close> is what the caller had.\<close>

definition tbi_find :: "u64 \<Rightarrow> u64 \<Rightarrow> u32 \<Rightarrow> Hash list \<Rightarrow> u64 HashIndex \<Rightarrow> (bool \<times> Hash list \<times> u32 option) option" where
  "tbi_find timestampBegin timestampEnd hashesNumberLimit hashes i =
    (if \<not> hi_enabled i then None
     else if timestampBegin > timestampEnd then Some (False, hashes, None)
     else let r = key_range timestampBegin timestampEnd (hi_index i);
              found = take (unat hashesNumberLimit) (map snd r)
       in Some (found \<noteq> [], hashes @ found, Some (word_of_nat (length r))))"

definition tti_add :: "u64 \<Rightarrow> Hash \<Rightarrow> u64 HashIndex \<Rightarrow> bool \<times> u64 HashIndex" where
  "tti_add timestamp h i =
    (if \<not> hi_enabled i then (False, i) else (True, i\<lparr>hi_index := mm_insert timestamp h (hi_index i)\<rparr>))"

definition tti_remove :: "u64 \<Rightarrow> Hash \<Rightarrow> u64 HashIndex \<Rightarrow> bool \<times> u64 HashIndex" where
  "tti_remove timestamp h i =
    (if \<not> hi_enabled i then (False, i)
     else let (r, m) = erase_entry timestamp h (hi_index i) in (r, i\<lparr>hi_index := m\<rparr>))"

definition tti_find :: "u64 \<Rightarrow> u64 \<Rightarrow> u64 \<Rightarrow> Hash list \<Rightarrow> u64 HashIndex \<Rightarrow> (bool \<times> Hash list \<times> u64 option) option" where
  "tti_find timestampBegin timestampEnd hashesNumberLimit hashes i =
    (if \<not> hi_enabled i then None
     else if timestampBegin > timestampEnd then Some (False, hashes, None)
     else let r = key_range timestampBegin timestampEnd (hi_index i);
              found = take (unat hashesNumberLimit) (map snd r)
       in Some (found \<noteq> [], hashes @ found, Some (ucast (word_of_nat (length r) :: u32))))"

definition hi_clear :: "'k HashIndex \<Rightarrow> 'k HashIndex" where
  "hi_clear i = (if hi_enabled i then i\<lparr>hi_index := []\<rparr> else i)"

text \<open>The height in the coinbase of a block: an exception unless the first input is a \<open>BaseInput\<close>.\<close>

definition coinbase_height :: "Block \<Rightarrow> u32 option" where
  "coinbase_height b = (case tx_inputs (blk_baseTransaction b) of BaseInput h # _ \<Rightarrow> Some h | _ \<Rightarrow> None)"

text \<open>The number of transactions up to a height.\<close>

record GeneratedTransactionsIndex =
  gti_enabled :: bool
  gti_index :: "(u32 \<times> u64) list"
  gti_last :: u64

definition gti_add :: "Block \<Rightarrow> GeneratedTransactionsIndex \<Rightarrow> (bool \<times> GeneratedTransactionsIndex) option" where
  "gti_add block i =
    (if \<not> gti_enabled i then Some (False, i)
     else do {
       blockHeight \<leftarrow> coinbase_height block;
       if length (gti_index i) \<noteq> unat blockHeight then Some (False, i)
       else do {
         let n = gti_last i + word_of_nat (length (blk_transactionHashes block)) + 1;
         if blockHeight \<in> fst ` set (gti_index i) then Some (False, i)
         else Some (True, i\<lparr>gti_index := gti_index i @ [(blockHeight, n)],
           gti_last := gti_last i + (word_of_nat (length (blk_transactionHashes block)) + 1)\<rparr>) } })"

definition gti_remove :: "Block \<Rightarrow> GeneratedTransactionsIndex \<Rightarrow> (bool \<times> GeneratedTransactionsIndex) option" where
  "gti_remove block i =
    (if \<not> gti_enabled i then Some (False, i)
     else do {
       blockHeight \<leftarrow> coinbase_height block;
       if (ucast blockHeight :: u64) \<noteq> word_of_nat (length (gti_index i)) - 1 then Some (False, i)
       else if blockHeight \<notin> fst ` set (gti_index i) then None
       else do {
         let m = filter (\<lambda>p. fst p \<noteq> blockHeight) (gti_index i);
         if blockHeight \<noteq> 0 then do {
           n \<leftarrow> map_of m (blockHeight - 1);
           Some (True, i\<lparr>gti_index := m, gti_last := n\<rparr>) }
         else Some (True, i\<lparr>gti_index := m, gti_last := 0\<rparr>) } })"

definition gti_find :: "u32 \<Rightarrow> GeneratedTransactionsIndex \<Rightarrow> u64 option option" where
  "gti_find height i = (if \<not> gti_enabled i then None else Some (map_of (gti_index i) height))"

definition gti_clear :: "GeneratedTransactionsIndex \<Rightarrow> GeneratedTransactionsIndex" where
  "gti_clear i = (if gti_enabled i then i\<lparr>gti_index := []\<rparr> else i)"

text \<open>The orphan blocks by height; the hash of the block is \<open>get_block_hash\<close>.\<close>

definition obi_add :: "(byte list \<Rightarrow> Hash) \<Rightarrow> Block \<Rightarrow> u32 HashIndex \<Rightarrow> (bool \<times> u32 HashIndex) option" where
  "obi_add H block i =
    (if \<not> hi_enabled i then Some (False, i)
     else do {
       blockHash \<leftarrow> get_block_hash H block;
       blockHeight \<leftarrow> coinbase_height block;
       Some (True, i\<lparr>hi_index := um_insert blockHeight blockHash (hi_index i)\<rparr>) })"

definition obi_remove :: "(byte list \<Rightarrow> Hash) \<Rightarrow> Block \<Rightarrow> u32 HashIndex \<Rightarrow> (bool \<times> u32 HashIndex) option" where
  "obi_remove H block i =
    (if \<not> hi_enabled i then Some (False, i)
     else do {
       blockHash \<leftarrow> get_block_hash H block;
       blockHeight \<leftarrow> coinbase_height block;
       let (r, m) = erase_entry blockHeight blockHash (hi_index i);
       Some (r, i\<lparr>hi_index := m\<rparr>) })"

definition obi_find :: "u32 \<Rightarrow> Hash list \<Rightarrow> u32 HashIndex \<Rightarrow> (bool \<times> Hash list) option" where
  "obi_find height blockHashes i =
    (if \<not> hi_enabled i then None
     else let r = equal_range height (hi_index i) in Some (r \<noteq> [], blockHashes @ r))"

section \<open>Entries\<close>

definition hi_entries :: "'k HashIndex \<Rightarrow> ('k \<times> Hash) multiset" where
  "hi_entries i = mset (hi_index i)"

definition hi_sorted :: "'k::linorder HashIndex \<Rightarrow> bool" where
  "hi_sorted i \<longleftrightarrow> sorted (map fst (hi_index i))"

lemma tbi_sorted:
  "hi_sorted i \<Longrightarrow> hi_sorted (snd (tbi_add t h i))" "hi_sorted i \<Longrightarrow> hi_sorted (snd (tbi_remove t h i))"
  using sorted_erase_entry[of "hi_index i" t h]
  by (auto simp: hi_sorted_def tbi_add_def tbi_remove_def sorted_mm_insert split: prod.splits)

lemma tbi_remove_add:
  "hi_enabled i \<Longrightarrow> fst (tbi_remove t h (snd (tbi_add t h i))) \<and> hi_entries (snd (tbi_remove t h (snd (tbi_add t h i)))) = hi_entries i"
  using mm.del_ins[of t h "hi_index i"] by (auto simp: tbi_add_def tbi_remove_def hi_entries_def split: prod.splits)

lemma ai_erase_first:
  "(a, h) \<in> set m \<Longrightarrow> ai_erase (a # addresses) h m = (True, remove1 (a, h) m)"
  by (simp add: erase_entry_def equal_range_iff)

lemma address_entry_leak:
  assumes "hi_enabled i" "getAddresses C tx = Some (a # addresses)"
  shows "\<exists>j k. ai_add C tx h i = Some (True, j) \<and> ai_remove C tx h j = Some (True, k)
    \<and> hi_entries k = mset (map (\<lambda>a. (a, h)) addresses) + hi_entries i"
proof -
  define m where "m = fold (\<lambda>(a, h). mm_insert a h) (map (\<lambda>a. (a, h)) (a # addresses)) (hi_index i)"
  have m: "mset m = mset (map (\<lambda>a. (a, h)) (a # addresses)) + mset (hi_index i)"
    unfolding m_def by (rule mm.fold_ins)
  have "(a, h) \<in># mset m" unfolding m by simp
  then have "(a, h) \<in> set m" by simp
  then have "ai_erase (a # addresses) h m = (True, remove1 (a, h) m)" by (rule ai_erase_first)
  moreover have "mset (remove1 (a, h) m) = mset (map (\<lambda>a. (a, h)) addresses) + mset (hi_index i)" using m by simp
  moreover have "ai_add C tx h i = Some (True, i\<lparr>hi_index := m\<rparr>)" using assms by (simp add: ai_add_def m_def)
  moreover have "ai_remove C tx h (i\<lparr>hi_index := m\<rparr>) = Some (True, i\<lparr>hi_index := remove1 (a, h) m\<rparr>)"
    using assms \<open>ai_erase (a # addresses) h m = _\<close> by (simp add: ai_remove_def del: ai_erase.simps)
  moreover have "hi_entries (i\<lparr>hi_index := remove1 (a, h) m\<rparr>) = mset (remove1 (a, h) m)" by (simp add: hi_entries_def)
  ultimately show ?thesis unfolding hi_entries_def by fastforce
qed

section \<open>The number of transactions up to a height\<close>

definition tx_total :: "Block list \<Rightarrow> nat" where
  "tx_total bs = sum_list (map (\<lambda>b. length (blk_transactionHashes b) + 1) bs)"

text \<open>What the index holds for a chain of blocks.\<close>

definition gti_rel :: "GeneratedTransactionsIndex \<Rightarrow> Block list \<Rightarrow> bool" where
  "gti_rel i bs \<longleftrightarrow> gti_enabled i
    \<and> gti_index i = map (\<lambda>k. (word_of_nat k, word_of_nat (tx_total (take (Suc k) bs)))) [0..<length bs]
    \<and> gti_last i = word_of_nat (tx_total bs)"

lemma tx_total_snoc: "tx_total (bs @ [b]) = tx_total bs + (length (blk_transactionHashes b) + 1)"
  by (simp add: tx_total_def)

lemma word_height_inj: "j < 2 ^ 32 \<Longrightarrow> k < 2 ^ 32 \<Longrightarrow> (word_of_nat j :: u32) = word_of_nat k \<longleftrightarrow> j = k"
  by (simp add: word_unat_eq_iff unat_of_nat)

lemma gti_lookup:
  assumes "gti_rel i bs" "length bs < 2 ^ 32" "k < length bs"
  shows "map_of (gti_index i) (word_of_nat k) = Some (word_of_nat (tx_total (take (Suc k) bs)))"
proof -
  have "map_of (map (\<lambda>k. (word_of_nat k, f k)) [0..<n]) (word_of_nat k :: u32) = Some (f k)" if "k < n" "n < 2 ^ 32" for f n
    using that by (intro map_of_is_SomeI) (auto simp: o_def distinct_map inj_on_def word_height_inj)
  then show ?thesis using assms by (simp add: gti_rel_def)
qed

lemma gti_index_snoc:
  "map (\<lambda>k. (word_of_nat k :: u32, word_of_nat (tx_total (take (Suc k) (bs @ [b]))) :: u64)) [0..<length (bs @ [b])]
    = map (\<lambda>k. (word_of_nat k, word_of_nat (tx_total (take (Suc k) bs)))) [0..<length bs]
      @ [(word_of_nat (length bs), word_of_nat (tx_total (bs @ [b])))]"
proof -
  have "map (\<lambda>k. (word_of_nat k :: u32, word_of_nat (tx_total (take (Suc k) (bs @ [b]))) :: u64)) [0..<length bs]
      = map (\<lambda>k. (word_of_nat k, word_of_nat (tx_total (take (Suc k) bs)))) [0..<length bs]"
    by (rule map_cong) auto
  then show ?thesis by simp
qed

lemma gti_add_rel:
  assumes "gti_rel i bs" "coinbase_height b = Some (word_of_nat (length bs))" "length bs + 1 < 2 ^ 32"
  shows "\<exists>j. gti_add b i = Some (True, j) \<and> gti_rel j (bs @ [b])"
proof -
  let ?n = "word_of_nat (tx_total (bs @ [b])) :: u64"
  define j where "j = i\<lparr>gti_index := gti_index i @ [(word_of_nat (length bs), ?n)], gti_last := ?n\<rparr>"
  have i: "gti_enabled i" "length (gti_index i) = length bs" "gti_last i = word_of_nat (tx_total bs)"
    "gti_index i = map (\<lambda>k. (word_of_nat k, word_of_nat (tx_total (take (Suc k) bs)))) [0..<length bs]"
    using assms(1) by (simp_all add: gti_rel_def)
  have "word_of_nat (length bs) \<notin> fst ` set (gti_index i)"
    unfolding i(4) using assms(3) by (auto simp: word_height_inj)
  moreover have "gti_last i + word_of_nat (length (blk_transactionHashes b)) + 1 = ?n"
    "gti_last i + (word_of_nat (length (blk_transactionHashes b)) + 1) = ?n"
    unfolding i(3) by (simp_all add: tx_total_snoc)
  moreover have "unat (word_of_nat (length bs) :: u32) = length bs" using assms(3) by (simp add: unat_of_nat)
  ultimately have "gti_add b i = Some (True, j)"
    unfolding gti_add_def j_def using i(1,2) assms(2) by simp
  moreover have "gti_rel j (bs @ [b])"
    unfolding gti_rel_def gti_index_snoc using i(1,4) by (simp add: j_def)
  ultimately show ?thesis by blast
qed

lemma gti_remove_rel:
  assumes "gti_rel i (bs @ [b])" "coinbase_height b = Some (word_of_nat (length bs))" "length bs + 1 < 2 ^ 32"
  shows "\<exists>j. gti_remove b i = Some (True, j) \<and> gti_rel j bs"
proof -
  have idx: "gti_index i = map (\<lambda>k. (word_of_nat k, word_of_nat (tx_total (take (Suc k) bs)))) [0..<length bs]
      @ [(word_of_nat (length bs), word_of_nat (tx_total (bs @ [b])))]"
    using assms(1) unfolding gti_rel_def gti_index_snoc by simp
  define m where "m = map (\<lambda>k. (word_of_nat k :: u32, word_of_nat (tx_total (take (Suc k) bs)) :: u64)) [0..<length bs]"
  have flt: "filter (\<lambda>p. fst p \<noteq> word_of_nat (length bs)) (gti_index i) = m"
    unfolding idx m_def using assms(3) by (auto simp: filter_id_conv word_height_inj)
  have sz: "(ucast (word_of_nat (length bs) :: u32) :: u64) = word_of_nat (length (gti_index i)) - 1"
    unfolding idx using assms(3) by (simp add: word_unat_eq_iff unat_ucast_up unat_of_nat)
  have rel: "gti_rel (i\<lparr>gti_index := m, gti_last := word_of_nat (tx_total bs)\<rparr>) bs"
    using assms(1) by (simp add: gti_rel_def m_def)
  show ?thesis
  proof (cases "bs = []")
    case True
    then show ?thesis using assms(1,2) flt sz rel by (simp add: gti_remove_def gti_rel_def tx_total_def m_def)
  next
    case False
    then have nz: "(word_of_nat (length bs) :: u32) \<noteq> 0" using assms(3) word_height_inj[of "length bs" 0] by simp
    have pred: "(word_of_nat (length bs) :: u32) - 1 = word_of_nat (length bs - 1)" using False by (simp add: of_nat_diff Suc_le_eq)
    have "map_of m (word_of_nat (length bs - 1)) = Some (word_of_nat (tx_total bs))"
      using gti_lookup[OF rel, of "length bs - 1"] False assms(3) by simp
    then show ?thesis using assms(1,2) flt sz rel nz pred idx by (simp add: gti_remove_def gti_rel_def)
  qed
qed

section \<open>Properties\<close>

text \<open>
  A timestamp index that is enabled stays in ascending order of the timestamps; removing an entry
  undoes adding it; and a search returns the hashes with a timestamp in the given range, in order, up
  to the limit, with the number of all of them.
\<close>

theorem timestamp_index:
  assumes "hi_enabled i" "hi_sorted i" "a \<le> b"
  shows "hi_sorted (snd (tbi_add t h i)) \<and> hi_sorted (snd (tbi_remove t h i))
    \<and> fst (tbi_remove t h (snd (tbi_add t h i)))
    \<and> hi_entries (snd (tbi_remove t h (snd (tbi_add t h i)))) = hi_entries i
    \<and> tbi_find a b limit found i =
      (let r = filter (\<lambda>p. a \<le> fst p \<and> fst p \<le> b) (hi_index i); new = take (unat limit) (map snd r)
       in Some (new \<noteq> [], found @ new, Some (word_of_nat (length r))))"
proof -
  have "key_range a b (hi_index i) = filter (\<lambda>p. a \<le> fst p \<and> fst p \<le> b) (hi_index i)"
    using assms(2) by (intro key_range_filter) (simp add: hi_sorted_def)
  then show ?thesis using assms tbi_sorted[OF assms(2), of t h] tbi_remove_add[OF assms(1), of t h]
    by (simp add: tbi_find_def Let_def not_less)
qed

theorem timestamp_index_witness:
  "tbi_find 4 7 1 [] \<lparr>hi_enabled = True, hi_index = [(3, [9]), (5, [8]), (6, [7])]\<rparr> = Some (True, [[8 :: byte]], Some 2)"
proof -
  have "hi_sorted \<lparr>hi_enabled = True, hi_index = [(3 :: u64, [9 :: byte]), (5, [8]), (6, [7])]\<rparr>" by (simp add: hi_sorted_def)
  then show ?thesis
    using timestamp_index[of "\<lparr>hi_enabled = True, hi_index = [(3, [9]), (5, [8]), (6, [7])]\<rparr>" 4 7 0 "[]" 1 "[]"]
    by (simp add: Let_def)
qed

text \<open>
  C28: the address index does not forget: adding a transaction enters it under each of its addresses,
  and removing it takes away the entry of the first address only, so the entries of the others stay.
\<close>

theorem address_index_leaks:
  assumes "hi_enabled i" "getAddresses C tx = Some (a # addresses)"
  shows "\<exists>j k. ai_add C tx h i = Some (True, j) \<and> ai_remove C tx h j = Some (True, k)
    \<and> hi_entries k = mset (map (\<lambda>a. (a, h)) addresses) + hi_entries i"
  by (rule address_entry_leak[OF assms])

definition sample_addressed_tx :: Transaction where
  "sample_addressed_tx = empty_transaction\<lparr>tx_extra := the (writeTransactionExtra []
    [TransactionExtraFromAddress sample_address, TransactionExtraToAddress sample_address])\<rparr>"

lemma sample_addressed_tx_fields:
  "snd (parseTransactionExtra (tx_extra sample_addressed_tx)) =
    [TransactionExtraFromAddress sample_address, TransactionExtraToAddress sample_address]"
proof -
  let ?fs = "[TransactionExtraFromAddress sample_address, TransactionExtraToAddress sample_address]"
  have wf: "list_all wf_field ?fs" by (simp add: sample_address_def)
  obtain ex where "writeTransactionExtra [] ?fs = Some ex" using writeTransactionExtra_total[OF wf] by blast
  then show ?thesis using parse_writeTransactionExtra[OF wf, of ex] by (simp add: sample_addressed_tx_def)
qed

theorem address_index_leaks_witness:
  "\<exists>j k. ai_add sample_crypto sample_addressed_tx [1] \<lparr>hi_enabled = True, hi_index = []\<rparr> = Some (True, j)
    \<and> ai_remove sample_crypto sample_addressed_tx [1] j = Some (True, k) \<and> size (hi_entries k) = 1"
proof -
  obtain s where s: "getAccountAddressAsStr sample_crypto 0xb9 sample_address = Some s"
    by (simp add: getAccountAddressAsStr_def toBinaryArray_def write_AccountPublicAddress_def)
  have "getAddresses sample_crypto sample_addressed_tx = Some [s, s]"
    by (simp add: getAddresses_def sample_addressed_tx_fields List.map_filter_simps s)
  from address_index_leaks[OF _ this, of "\<lparr>hi_enabled = True, hi_index = []\<rparr>" "[1]"]
  show ?thesis by (fastforce simp: hi_entries_def)
qed

text \<open>
  C27: the index of generated transactions refines the chain of blocks: adding the block of the next
  height and removing the last one take the index of a chain to the index of the longer or shorter
  chain, and a search gives the number of transactions of all blocks up to the height, coinbase
  transactions included.
\<close>

theorem generated_transactions_refines:
  assumes "gti_rel i bs" "coinbase_height b = Some (word_of_nat (length bs))" "length bs + 1 < 2 ^ 32"
  shows "\<exists>j k. gti_add b i = Some (True, j) \<and> gti_rel j (bs @ [b]) \<and> gti_remove b j = Some (True, k) \<and> gti_rel k bs
    \<and> (\<forall>n<length bs. gti_find (word_of_nat n) i = Some (Some (word_of_nat (tx_total (take (Suc n) bs)))))"
proof -
  obtain j where j: "gti_add b i = Some (True, j)" "gti_rel j (bs @ [b])" using gti_add_rel[OF assms] by blast
  moreover obtain k where "gti_remove b j = Some (True, k)" "gti_rel k bs" using gti_remove_rel[OF j(2) assms(2,3)] by blast
  moreover have "\<forall>n<length bs. gti_find (word_of_nat n) i = Some (Some (word_of_nat (tx_total (take (Suc n) bs))))"
    using gti_lookup[OF assms(1)] assms(1,3) by (simp add: gti_find_def gti_rel_def)
  ultimately show ?thesis by blast
qed

theorem generated_transactions_refines_witness:
  "gti_rel \<lparr>gti_enabled = True, gti_index = [], gti_last = 0\<rparr> [] \<and>
    (\<exists>j. gti_add (empty_block\<lparr>blk_baseTransaction := genesis_tx\<rparr>) \<lparr>gti_enabled = True, gti_index = [], gti_last = 0\<rparr> = Some (True, j))"
proof -
  have r: "gti_rel \<lparr>gti_enabled = True, gti_index = [], gti_last = 0\<rparr> []" by (simp add: gti_rel_def tx_total_def)
  have h: "coinbase_height (empty_block\<lparr>blk_baseTransaction := genesis_tx\<rparr>) = Some (word_of_nat (length ([] :: Block list)))"
    by (simp add: coinbase_height_def genesis_tx_def)
  show ?thesis using generated_transactions_refines[OF r h] r by auto
qed

text \<open>Clearing the index keeps the count, so that the numbers after it are too large.\<close>

lemma generated_transactions_clear_stale:
  "gti_find 0 (snd (the (gti_add (empty_block\<lparr>blk_baseTransaction := genesis_tx\<rparr>)
    (gti_clear \<lparr>gti_enabled = True, gti_index = [(0, 1)], gti_last = 1\<rparr>)))) = Some (Some 2)"
  by (simp add: gti_clear_def gti_add_def gti_find_def coinbase_height_def genesis_tx_def empty_block_def)

end
