(* ===== verification/TransactionPool.thy ===== *)
theory TransactionPool
  imports Currency BlockchainIndices
begin

text \<open>
  The memory pool of unconfirmed transactions (\<open>src/src/DynexCNCore/TransactionPool.cpp\<close>). The state of
  \<open>tx_memory_pool\<close> is a record. The container \<open>m_transactions\<close> is the list of its elements in the order
  of the fee index; the order of the hashed index is the argument \<open>order\<close> of the operations that iterate
  over it. The validator and the core are arguments too, as in the code, where they are interfaces. An
  operation that can throw or fail an assertion returns an option. The set of validated transactions,
  a global variable of the source file, is a field of the state.
\<close>

section \<open>Data\<close>

record BlockInfo =
  info_height :: u32
  info_id :: Hash

definition BlockInfo_clear :: BlockInfo where
  "BlockInfo_clear = \<lparr>info_height = 0, info_id = NULL_HASH\<rparr>"

definition BlockInfo_empty :: "BlockInfo \<Rightarrow> bool" where
  "BlockInfo_empty b \<longleftrightarrow> info_id b = NULL_HASH"

record TransactionCheckInfo =
  maxUsedBlock :: BlockInfo
  lastFailedBlock :: BlockInfo

record TransactionDetails = TransactionCheckInfo +
  td_id :: Hash
  td_tx :: Transaction
  td_blobSize :: u64
  td_fee :: u64
  td_keptByBlock :: bool
  td_receiveTime :: i64

record tx_verification_context =
  m_should_be_relayed :: bool
  m_verification_failed :: bool
  m_verification_impossible :: bool
  m_added_to_pool :: bool
  m_tx_fee_too_small :: bool

text \<open>
  The interface \<open>ITransactionValidator\<close>. The overloads of \<open>checkTransactionInputs\<close> return the block
  information they write through their reference arguments.
\<close>

record ITransactionValidator =
  checkTransactionInputs_max :: "Transaction \<Rightarrow> BlockInfo \<Rightarrow> bool \<times> BlockInfo"
  checkTransactionInputs_last :: "Transaction \<Rightarrow> BlockInfo \<Rightarrow> BlockInfo \<Rightarrow> bool \<times> BlockInfo \<times> BlockInfo"
  haveSpentKeyImages :: "Transaction \<Rightarrow> bool"
  checkTransactionSize :: "u64 \<Rightarrow> bool"

text \<open>What the pool asks of the core: the height and the check of the fee.\<close>

record PoolCore =
  get_current_blockchain_height :: u32
  core_check_tx_fee :: "Transaction \<Rightarrow> u64 \<Rightarrow> u32 \<Rightarrow> bool"

record tx_memory_pool =
  m_spent_key_images :: "KeyImage \<rightharpoonup> Hash set"
  m_spentOutputs :: "(u64 \<times> u64) set"
  m_transactions :: "TransactionDetails list"
  m_recentlyDeletedTransactions :: "Hash \<rightharpoonup> u64"
  m_validated_transactions :: "Hash set"
  m_paymentIdIndex :: "Hash HashIndex"
  m_addressindex :: "string HashIndex"
  m_timestampIndex :: "u64 HashIndex"
  m_lastWorkedTime :: i64

definition tx_memory_pool_init :: "bool \<Rightarrow> tx_memory_pool" where
  "tx_memory_pool_init blockchainIndexesEnabled =
    \<lparr>m_spent_key_images = Map.empty, m_spentOutputs = {}, m_transactions = [],
     m_recentlyDeletedTransactions = Map.empty, m_validated_transactions = {},
     m_paymentIdIndex = \<lparr>hi_enabled = blockchainIndexesEnabled, hi_index = []\<rparr>,
     m_addressindex = \<lparr>hi_enabled = blockchainIndexesEnabled, hi_index = []\<rparr>,
     m_timestampIndex = \<lparr>hi_enabled = blockchainIndexesEnabled, hi_index = []\<rparr>,
     m_lastWorkedTime = 0\<rparr>"

section \<open>The block template\<close>

record BlockTemplate =
  bt_keyImages :: "KeyImage set"
  bt_usedOutputs :: "(u64 \<times> u64) set"
  bt_txHashes :: "Hash list"

definition BlockTemplate_init :: BlockTemplate where
  "BlockTemplate_init = \<lparr>bt_keyImages = {}, bt_usedOutputs = {}, bt_txHashes = []\<rparr>"

definition bt_canAdd :: "Transaction \<Rightarrow> BlockTemplate \<Rightarrow> bool" where
  "bt_canAdd tx bt = list_all (\<lambda>i. case i of
      KeyInput amount indexes keyImage \<Rightarrow> keyImage \<notin> bt_keyImages bt
    | MultisignatureInput amount n outputIndex \<Rightarrow> (amount, ucast outputIndex) \<notin> bt_usedOutputs bt
    | BaseInput h \<Rightarrow> True) (tx_inputs tx)"

fun bt_insert :: "TransactionInput list \<Rightarrow> BlockTemplate \<Rightarrow> BlockTemplate option" where
  "bt_insert [] bt = Some bt"
| "bt_insert (i # ins) bt =
    (case i of
       KeyInput amount indexes keyImage \<Rightarrow>
         if keyImage \<in> bt_keyImages bt then None
         else bt_insert ins (bt\<lparr>bt_keyImages := insert keyImage (bt_keyImages bt)\<rparr>)
     | MultisignatureInput amount n outputIndex \<Rightarrow>
         if (amount, ucast outputIndex) \<in> bt_usedOutputs bt then None
         else bt_insert ins (bt\<lparr>bt_usedOutputs := insert (amount, ucast outputIndex) (bt_usedOutputs bt)\<rparr>)
     | BaseInput h \<Rightarrow> bt_insert ins bt)"

definition bt_addTransaction :: "Hash \<Rightarrow> Transaction \<Rightarrow> BlockTemplate \<Rightarrow> (bool \<times> BlockTemplate) option" where
  "bt_addTransaction txid tx bt =
    (if \<not> bt_canAdd tx bt then Some (False, bt)
     else do {
       bt \<leftarrow> bt_insert (tx_inputs tx) bt;
       Some (True, bt\<lparr>bt_txHashes := bt_txHashes bt @ [txid]\<rparr>) })"

section \<open>The order of the fee index\<close>

text \<open>\<open>TransactionPriorityComparator\<close>; \<open>mul128\<close> returns the low and the high word of the product.\<close>

definition priority_less :: "TransactionDetails \<Rightarrow> TransactionDetails \<Rightarrow> bool" where
  "priority_less lhs rhs =
    (let (lhs_lo, lhs_hi) = mul128 (td_fee lhs) (td_blobSize rhs);
         (rhs_lo, rhs_hi) = mul128 (td_fee rhs) (td_blobSize lhs)
     in lhs_hi > rhs_hi
      \<or> lhs_hi = rhs_hi \<and> lhs_lo > rhs_lo
      \<or> lhs_hi = rhs_hi \<and> lhs_lo = rhs_lo \<and> td_blobSize lhs < td_blobSize rhs
      \<or> lhs_hi = rhs_hi \<and> lhs_lo = rhs_lo \<and> td_blobSize lhs = td_blobSize rhs
        \<and> sint (td_receiveTime lhs) < sint (td_receiveTime rhs))"

text \<open>The insertion into the container: refused for a known id, otherwise before the first element of lower priority.\<close>

definition txs_insert :: "TransactionDetails \<Rightarrow> TransactionDetails list \<Rightarrow> bool \<times> TransactionDetails list" where
  "txs_insert txd ts =
    (if td_id txd \<in> td_id ` set ts then (False, ts)
     else (True, takeWhile (\<lambda>t. \<not> priority_less txd t) ts @ txd # dropWhile (\<lambda>t. \<not> priority_less txd t) ts))"

definition txs_find :: "Hash \<Rightarrow> TransactionDetails list \<Rightarrow> TransactionDetails option" where
  "txs_find h ts = find (\<lambda>t. td_id t = h) ts"

section \<open>Spent inputs\<close>

definition pool_haveSpentInputs :: "Transaction \<Rightarrow> tx_memory_pool \<Rightarrow> bool" where
  "pool_haveSpentInputs tx p = list_ex (\<lambda>i. case i of
      KeyInput amount indexes keyImage \<Rightarrow> m_spent_key_images p keyImage \<noteq> None
    | MultisignatureInput amount n outputIndex \<Rightarrow> (amount, ucast outputIndex) \<in> m_spentOutputs p
    | BaseInput h \<Rightarrow> False) (tx_inputs tx)"

fun addTransactionInputs :: "Hash \<Rightarrow> bool \<Rightarrow> TransactionInput list \<Rightarrow> tx_memory_pool \<Rightarrow> (bool \<times> tx_memory_pool) option" where
  "addTransactionInputs h keptByBlock [] p = Some (True, p)"
| "addTransactionInputs h keptByBlock (i # ins) p =
    (case i of
       KeyInput amount indexes keyImage \<Rightarrow>
         (let kei_image_set = (case m_spent_key_images p keyImage of None \<Rightarrow> {} | Some s \<Rightarrow> s);
              created = p\<lparr>m_spent_key_images := (m_spent_key_images p)(keyImage \<mapsto> kei_image_set)\<rparr>
          in if \<not> (keptByBlock \<or> kei_image_set = {}) then Some (False, created)
             else if h \<in> kei_image_set then Some (False, created)
             else addTransactionInputs h keptByBlock ins
               (p\<lparr>m_spent_key_images := (m_spent_key_images p)(keyImage \<mapsto> insert h kei_image_set)\<rparr>))
     | MultisignatureInput amount n outputIndex \<Rightarrow>
         if \<not> keptByBlock then
           if (amount, ucast outputIndex) \<in> m_spentOutputs p then None
           else addTransactionInputs h keptByBlock ins
             (p\<lparr>m_spentOutputs := insert (amount, ucast outputIndex) (m_spentOutputs p)\<rparr>)
         else addTransactionInputs h keptByBlock ins p
     | BaseInput b \<Rightarrow> addTransactionInputs h keptByBlock ins p)"

fun removeTransactionInputs :: "Hash \<Rightarrow> bool \<Rightarrow> TransactionInput list \<Rightarrow> tx_memory_pool \<Rightarrow> (bool \<times> tx_memory_pool) option" where
  "removeTransactionInputs h keptByBlock [] p = Some (True, p)"
| "removeTransactionInputs h keptByBlock (i # ins) p =
    (case i of
       KeyInput amount indexes keyImage \<Rightarrow>
         (case m_spent_key_images p keyImage of
            None \<Rightarrow> Some (False, p)
          | Some key_image_set \<Rightarrow>
              if key_image_set = {} then Some (False, p)
              else if h \<notin> key_image_set then Some (False, p)
              else removeTransactionInputs h keptByBlock ins
                (p\<lparr>m_spent_key_images := (m_spent_key_images p)(keyImage :=
                    if key_image_set - {h} = {} then None else Some (key_image_set - {h}))\<rparr>))
     | MultisignatureInput amount n outputIndex \<Rightarrow>
         if \<not> keptByBlock then
           if (amount, ucast outputIndex) \<notin> m_spentOutputs p then None
           else removeTransactionInputs h keptByBlock ins
             (p\<lparr>m_spentOutputs := m_spentOutputs p - {(amount, ucast outputIndex)}\<rparr>)
         else removeTransactionInputs h keptByBlock ins p
     | BaseInput b \<Rightarrow> removeTransactionInputs h keptByBlock ins p)"

section \<open>Adding and taking\<close>

text \<open>The result, the verification context and the pool. \<open>C\<close> are the key operations the address index needs, \<open>height\<close> that of the chain.\<close>

definition add_tx :: "Crypto \<Rightarrow> 'a Currency_scheme \<Rightarrow> ITransactionValidator \<Rightarrow> u32 \<Rightarrow> i64 \<Rightarrow> Transaction \<Rightarrow> Hash \<Rightarrow> u64
    \<Rightarrow> tx_verification_context \<Rightarrow> bool \<Rightarrow> tx_memory_pool \<Rightarrow> (bool \<times> tx_verification_context \<times> tx_memory_pool) option" where
  "add_tx C cur v height now tx h blobSize tvc keptByBlock p =
    (if \<not> check_inputs_types_supported tx then Some (False, tvc\<lparr>m_verification_failed := True\<rparr>, p)
     else let inputs_amount = get_inputs_money_amount tx; outputs_amount = get_outs_money_amount tx in
       if outputs_amount > inputs_amount then Some (False, tvc\<lparr>m_verification_failed := True\<rparr>, p)
       else do {
         let fee = inputs_amount - outputs_amount;
         isFusion \<leftarrow> (if fee = 0 then isFusionTransaction_sized cur tx blobSize height else Some False);
         if \<not> keptByBlock \<and> pool_haveSpentInputs tx p then Some (False, tvc\<lparr>m_verification_failed := True\<rparr>, p)
         else let (inputsValid, used) = checkTransactionInputs_max v tx BlockInfo_clear in
           if \<not> inputsValid \<and> \<not> keptByBlock then Some (False, tvc\<lparr>m_verification_failed := True\<rparr>, p)
           else let used = (if inputsValid then used else BlockInfo_clear);
                    tvc = (if inputsValid then tvc else tvc\<lparr>m_verification_impossible := True\<rparr>) in
             if \<not> keptByBlock \<and> \<not> checkTransactionSize v blobSize then Some (False, tvc\<lparr>m_verification_failed := True\<rparr>, p)
             else if \<not> keptByBlock \<and> m_recentlyDeletedTransactions p h \<noteq> None
             then Some (True, tvc\<lparr>m_verification_failed := False, m_should_be_relayed := False, m_added_to_pool := False\<rparr>, p)
             else do {
               let txd = \<lparr>maxUsedBlock = used, lastFailedBlock = BlockInfo_clear, td_id = h, td_tx = tx, td_blobSize = blobSize,
                          td_fee = fee, td_keptByBlock = keptByBlock, td_receiveTime = now\<rparr>;
               let (inserted, ts) = txs_insert txd (m_transactions p);
               if \<not> inserted then Some (False, tvc, p)
               else do {
                 (_, addressindex) \<leftarrow> ai_add C tx h (m_addressindex p);
                 let p = p\<lparr>m_transactions := ts, m_paymentIdIndex := snd (pii_add tx h (m_paymentIdIndex p)),
                           m_addressindex := addressindex, m_timestampIndex := snd (tti_add now h (m_timestampIndex p))\<rparr>;
                 let tvc = tvc\<lparr>m_added_to_pool := True, m_should_be_relayed := inputsValid \<and> (fee > 0 \<or> isFusion),
                               m_verification_failed := True\<rparr>;
                 (ok, p) \<leftarrow> addTransactionInputs h keptByBlock (tx_inputs tx) p;
                 Some (if \<not> ok then (False, tvc, p) else (True, tvc\<lparr>m_verification_failed := False\<rparr>, p)) } } })"

text \<open>The overload of \<open>getObjectHash\<close> that also gives the size.\<close>

definition getObjectHash_size :: "(byte list \<Rightarrow> Hash) \<Rightarrow> ('a \<Rightarrow> byte list option) \<Rightarrow> 'a \<Rightarrow> bool \<times> Hash \<times> u64" where
  "getObjectHash_size H w obj =
    (case toBinaryArray w obj of None \<Rightarrow> (False, NULL_HASH, - 1) | Some ba \<Rightarrow> (True, H ba, word_of_nat (length ba)))"

definition add_tx_hashed :: "(byte list \<Rightarrow> Hash) \<Rightarrow> Crypto \<Rightarrow> 'a Currency_scheme \<Rightarrow> ITransactionValidator \<Rightarrow> u32 \<Rightarrow> i64
    \<Rightarrow> Transaction \<Rightarrow> tx_verification_context \<Rightarrow> bool \<Rightarrow> tx_memory_pool \<Rightarrow> (bool \<times> tx_verification_context \<times> tx_memory_pool) option" where
  "add_tx_hashed H C cur v height now tx tvc keptByBlock p =
    (let (_, h, blobSize) = getObjectHash_size H write_Transaction tx
     in add_tx C cur v height now tx h blobSize tvc keptByBlock p)"

definition removeTransaction :: "Crypto \<Rightarrow> TransactionDetails \<Rightarrow> tx_memory_pool \<Rightarrow> tx_memory_pool option" where
  "removeTransaction C txd p = do {
     (_, p) \<leftarrow> removeTransactionInputs (td_id txd) (td_keptByBlock txd) (tx_inputs (td_tx txd)) p;
     (_, addressindex) \<leftarrow> ai_remove C (td_tx txd) (td_id txd) (m_addressindex p);
     Some (p\<lparr>m_paymentIdIndex := snd (pii_remove (td_tx txd) (td_id txd) (m_paymentIdIndex p)),
             m_addressindex := addressindex,
             m_timestampIndex := snd (tti_remove (td_receiveTime txd) (td_id txd) (m_timestampIndex p)),
             m_validated_transactions := m_validated_transactions p - {td_id txd},
             m_transactions := filter (\<lambda>t. td_id t \<noteq> td_id txd) (m_transactions p)\<rparr>) }"

definition take_tx :: "Crypto \<Rightarrow> Hash \<Rightarrow> tx_memory_pool \<Rightarrow> ((Transaction \<times> u64 \<times> u64) option \<times> tx_memory_pool) option" where
  "take_tx C h p =
    (case txs_find h (m_transactions p) of
       None \<Rightarrow> Some (None, p)
     | Some txd \<Rightarrow> do {
         p \<leftarrow> removeTransaction C txd p;
         Some (Some (td_tx txd, td_blobSize txd, td_fee txd), p) })"

definition have_tx :: "Hash \<Rightarrow> tx_memory_pool \<Rightarrow> bool" where
  "have_tx h p \<longleftrightarrow> h \<in> td_id ` set (m_transactions p)"

definition get_transactions_count :: "tx_memory_pool \<Rightarrow> nat" where
  "get_transactions_count p = length (m_transactions p)"

definition get_transactions :: "(TransactionDetails list \<Rightarrow> TransactionDetails list) \<Rightarrow> Transaction list \<Rightarrow> tx_memory_pool \<Rightarrow> Transaction list" where
  "get_transactions order txs p = txs @ map td_tx (order (m_transactions p))"

definition getMemoryPool :: "tx_memory_pool \<Rightarrow> TransactionDetails list" where
  "getMemoryPool p = m_transactions p"

text \<open>The transactions found and the ids that are not in the pool.\<close>

fun pool_getTransactions :: "Hash list \<Rightarrow> tx_memory_pool \<Rightarrow> Transaction list \<Rightarrow> Hash list \<Rightarrow> Transaction list \<times> Hash list" where
  "pool_getTransactions [] p txs missedTxs = (txs, missedTxs)"
| "pool_getTransactions (h # txsIds) p txs missedTxs =
    (case txs_find h (m_transactions p) of
       None \<Rightarrow> pool_getTransactions txsIds p txs (missedTxs @ [h])
     | Some txd \<Rightarrow> pool_getTransactions txsIds p (txs @ [td_tx txd]) missedTxs)"

section \<open>Readiness, differences and templates\<close>

definition is_transaction_ready_to_go :: "ITransactionValidator \<Rightarrow> Transaction \<Rightarrow> BlockInfo \<Rightarrow> BlockInfo \<Rightarrow> bool \<times> BlockInfo \<times> BlockInfo" where
  "is_transaction_ready_to_go v tx used failed =
    (let (valid, used, failed) = checkTransactionInputs_last v tx used failed in
       if \<not> valid then (False, used, failed)
       else if haveSpentKeyImages v tx then (False, used, failed)
       else (True, used, failed))"

text \<open>The loop of \<open>get_difference\<close> over the pool: the ready ids and the cache of validated ids.\<close>

fun ready_loop :: "ITransactionValidator \<Rightarrow> TransactionDetails list \<Rightarrow> Hash set \<times> Hash set \<Rightarrow> Hash set \<times> Hash set" where
  "ready_loop v [] acc = acc"
| "ready_loop v (t # ts) (ready, cache) =
    (if td_id t \<in> cache then ready_loop v ts (insert (td_id t) ready, cache)
     else if fst (is_transaction_ready_to_go v (td_tx t) (maxUsedBlock t) (lastFailedBlock t))
     then ready_loop v ts (insert (td_id t) ready, insert (td_id t) cache)
     else ready_loop v ts (ready, cache))"

text \<open>The new ids and the deleted ids; the vectors of the code list these sets in an unspecified order.\<close>

definition get_difference :: "ITransactionValidator \<Rightarrow> (TransactionDetails list \<Rightarrow> TransactionDetails list) \<Rightarrow> Hash list \<Rightarrow> tx_memory_pool
    \<Rightarrow> Hash set \<times> Hash set \<times> tx_memory_pool" where
  "get_difference v order known_tx_ids p =
    (let (ready_tx_ids, cache) = ready_loop v (order (m_transactions p)) ({}, m_validated_transactions p);
         known_set = set known_tx_ids
     in (ready_tx_ids - known_set, known_set - ready_tx_ids, p\<lparr>m_validated_transactions := cache\<rparr>))"

definition on_blockchain_inc :: "tx_memory_pool \<Rightarrow> tx_memory_pool" where
  "on_blockchain_inc p = (if m_validated_transactions p \<noteq> {} then p\<lparr>m_validated_transactions := {}\<rparr> else p)"

definition on_blockchain_dec :: "tx_memory_pool \<Rightarrow> tx_memory_pool" where
  "on_blockchain_dec p = (if m_validated_transactions p \<noteq> {} then p\<lparr>m_validated_transactions := {}\<rparr> else p)"

text \<open>The state of the loop of \<open>fill_block_template\<close>.\<close>

record FillState =
  fs_template :: BlockTemplate
  fs_total_size :: u64
  fs_fee :: u64
  fs_cache :: "Hash set"

definition fill_step :: "ITransactionValidator \<Rightarrow> PoolCore \<Rightarrow> u64 \<Rightarrow> u64 \<Rightarrow> TransactionDetails \<Rightarrow> FillState
    \<Rightarrow> (TransactionDetails \<times> FillState) option" where
  "fill_step v core median_size max_total_size txd s =
    (let blockSizeLimit = (if td_fee txd = 0 then median_size else max_total_size) in
     if blockSizeLimit < fs_total_size s + td_blobSize txd then Some (txd, s)
     else if \<not> core_check_tx_fee core (td_tx txd) (td_blobSize txd) (get_current_blockchain_height core) then Some (txd, s)
     else do {
       let (ready, used, failed, cache) =
         (if td_id txd \<in> fs_cache s then (True, maxUsedBlock txd, lastFailedBlock txd, fs_cache s)
          else let (ready, used, failed) = is_transaction_ready_to_go v (td_tx txd) (maxUsedBlock txd) (lastFailedBlock txd)
            in (ready, used, failed, if ready then insert (td_id txd) (fs_cache s) else fs_cache s));
       (added, template) \<leftarrow> (if ready then bt_addTransaction (td_id txd) (td_tx txd) (fs_template s) else Some (False, fs_template s));
       let s = s\<lparr>fs_template := template, fs_cache := cache\<rparr>;
       Some (txd\<lparr>maxUsedBlock := used, lastFailedBlock := failed\<rparr>,
         if added then s\<lparr>fs_total_size := fs_total_size s + td_blobSize txd, fs_fee := fs_fee s + td_fee txd\<rparr> else s) })"

fun fill_loop :: "ITransactionValidator \<Rightarrow> PoolCore \<Rightarrow> u64 \<Rightarrow> u64 \<Rightarrow> TransactionDetails list \<Rightarrow> FillState
    \<Rightarrow> (TransactionDetails list \<times> FillState) option" where
  "fill_loop v core median_size max_total_size [] s = Some ([], s)"
| "fill_loop v core median_size max_total_size (txd # ts) s = do {
     (txd, s) \<leftarrow> fill_step v core median_size max_total_size txd s;
     (ts, s) \<leftarrow> fill_loop v core median_size max_total_size ts s;
     Some (txd # ts, s) }"

text \<open>The block with its transactions, their total size and fee, and the pool.\<close>

definition fill_block_template :: "'a Currency_scheme \<Rightarrow> ITransactionValidator \<Rightarrow> PoolCore \<Rightarrow> Block \<Rightarrow> u64 \<Rightarrow> u64 \<Rightarrow> tx_memory_pool
    \<Rightarrow> (Block \<times> u64 \<times> u64 \<times> tx_memory_pool) option" where
  "fill_block_template cur v core bl median_size maxCumulativeSize p = do {
     let max_total_size = (125 * median_size) div 100;
     let max_total_size = min max_total_size maxCumulativeSize - m_minerTxBlobReservedSize cur;
     (ts, s) \<leftarrow> fill_loop v core median_size max_total_size (m_transactions p)
       \<lparr>fs_template = BlockTemplate_init, fs_total_size = 0, fs_fee = 0, fs_cache = m_validated_transactions p\<rparr>;
     Some (bl\<lparr>blk_transactionHashes := bt_txHashes (fs_template s)\<rparr>, fs_total_size s, fs_fee s,
       p\<lparr>m_transactions := ts, m_validated_transactions := fs_cache s\<rparr>) }"

section \<open>Expiry and loading\<close>

definition forget_deleted :: "'a Currency_scheme \<Rightarrow> u64 \<Rightarrow> (Hash \<rightharpoonup> u64) \<Rightarrow> Hash \<rightharpoonup> u64" where
  "forget_deleted cur now m = (\<lambda>h. case m h of None \<Rightarrow> None
    | Some t \<Rightarrow> if now - t > m_numberOfPeriodsToForgetTxDeletedFromPool cur * m_mempoolTxLiveTime cur then None else Some t)"

definition expired :: "'a Currency_scheme \<Rightarrow> u64 \<Rightarrow> TransactionDetails \<Rightarrow> bool" where
  "expired cur now t \<longleftrightarrow> now - td_receiveTime t >
    (if td_keptByBlock t then m_mempoolTxFromAltBlockLiveTime cur else m_mempoolTxLiveTime cur)"

fun expire_loop :: "Crypto \<Rightarrow> 'a Currency_scheme \<Rightarrow> u64 \<Rightarrow> TransactionDetails list \<Rightarrow> bool \<Rightarrow> tx_memory_pool \<Rightarrow> (bool \<times> tx_memory_pool) option" where
  "expire_loop C cur now [] somethingRemoved p = Some (somethingRemoved, p)"
| "expire_loop C cur now (t # ts) somethingRemoved p =
    (if expired cur now t then do {
       let m = m_recentlyDeletedTransactions p;
       p \<leftarrow> removeTransaction C t
         (p\<lparr>m_recentlyDeletedTransactions := (if m (td_id t) = None then m(td_id t \<mapsto> now) else m)\<rparr>);
       expire_loop C cur now ts True p }
     else expire_loop C cur now ts somethingRemoved p)"

text \<open>Whether the observers are told of a deletion, and the pool.\<close>

definition removeExpiredTransactions :: "Crypto \<Rightarrow> 'a Currency_scheme \<Rightarrow> u64 \<Rightarrow> (TransactionDetails list \<Rightarrow> TransactionDetails list)
    \<Rightarrow> tx_memory_pool \<Rightarrow> (bool \<times> tx_memory_pool) option" where
  "removeExpiredTransactions C cur now order p =
    expire_loop C cur now (order (m_transactions p)) False
      (p\<lparr>m_recentlyDeletedTransactions := forget_deleted cur now (m_recentlyDeletedTransactions p)\<rparr>)"

text \<open>\<open>on_idle\<close> through \<open>OnceInTimeInterval\<close>, which reads the clock before and after the call.\<close>

definition pool_on_idle :: "Crypto \<Rightarrow> 'a Currency_scheme \<Rightarrow> (TransactionDetails list \<Rightarrow> TransactionDetails list) \<Rightarrow> i64 \<Rightarrow> i64 \<Rightarrow> i64
    \<Rightarrow> tx_memory_pool \<Rightarrow> (bool \<times> tx_memory_pool) option" where
  "pool_on_idle C cur order before during after p =
    (if sint (before - m_lastWorkedTime p) > 60 then do {
       (removed, p) \<leftarrow> removeExpiredTransactions C cur during order p;
       Some (removed, p\<lparr>m_lastWorkedTime := after\<rparr>) }
     else Some (False, p))"

fun buildIndices_loop :: "Crypto \<Rightarrow> TransactionDetails list \<Rightarrow> tx_memory_pool \<Rightarrow> tx_memory_pool option" where
  "buildIndices_loop C [] p = Some p"
| "buildIndices_loop C (t # ts) p = do {
     (_, addressindex) \<leftarrow> ai_add C (td_tx t) (td_id t) (m_addressindex p);
     buildIndices_loop C ts (p\<lparr>m_paymentIdIndex := snd (pii_add (td_tx t) (td_id t) (m_paymentIdIndex p)),
       m_addressindex := addressindex,
       m_timestampIndex := snd (tti_add (td_receiveTime t) (td_id t) (m_timestampIndex p))\<rparr>) }"

definition buildIndices :: "Crypto \<Rightarrow> (TransactionDetails list \<Rightarrow> TransactionDetails list) \<Rightarrow> tx_memory_pool \<Rightarrow> tx_memory_pool option" where
  "buildIndices C order p = buildIndices_loop C (order (m_transactions p)) p"

text \<open>
  \<open>init\<close>: \<open>loaded\<close> is \<open>None\<close> when there is no file, otherwise whether the file could be read and what
  the reading left in the object.
\<close>

definition pool_init :: "Crypto \<Rightarrow> 'a Currency_scheme \<Rightarrow> u64 \<Rightarrow> (TransactionDetails list \<Rightarrow> TransactionDetails list)
    \<Rightarrow> (bool \<times> tx_memory_pool) option \<Rightarrow> tx_memory_pool \<Rightarrow> tx_memory_pool option" where
  "pool_init C cur now order loaded p =
    (case loaded of
       None \<Rightarrow> Some p
     | Some (ok, p) \<Rightarrow> do {
         p \<leftarrow> (if \<not> ok
            then Some (p\<lparr>m_transactions := [], m_spent_key_images := Map.empty, m_spentOutputs := {},
              m_paymentIdIndex := hi_clear (m_paymentIdIndex p), m_addressindex := hi_clear (m_addressindex p),
              m_timestampIndex := hi_clear (m_timestampIndex p)\<rparr>)
            else buildIndices C order p);
         (_, p) \<leftarrow> removeExpiredTransactions C cur now order p;
         Some p })"

definition pool_deinit :: "bool \<Rightarrow> tx_memory_pool \<Rightarrow> bool \<times> tx_memory_pool" where
  "pool_deinit directoryCreated p =
    (if \<not> directoryCreated then (False, p)
     else (True, p\<lparr>m_paymentIdIndex := hi_clear (m_paymentIdIndex p), m_addressindex := hi_clear (m_addressindex p),
       m_timestampIndex := hi_clear (m_timestampIndex p)\<rparr>))"

text \<open>The queries through the indices; \<open>None\<close> when the indices are off.\<close>

definition pool_getTransactionIdsByPaymentId :: "Hash \<Rightarrow> tx_memory_pool \<Rightarrow> Hash list option" where
  "pool_getTransactionIdsByPaymentId paymentId p = pii_find paymentId (m_paymentIdIndex p)"

definition pool_getTransactionIdsByAddress :: "string \<Rightarrow> tx_memory_pool \<Rightarrow> Hash list option" where
  "pool_getTransactionIdsByAddress address p = ai_find address (m_addressindex p)"

definition pool_getTransactionIdsByTimestamp :: "u64 \<Rightarrow> u64 \<Rightarrow> u32 \<Rightarrow> Hash list \<Rightarrow> tx_memory_pool \<Rightarrow> (bool \<times> Hash list \<times> u64 option) option" where
  "pool_getTransactionIdsByTimestamp timestampBegin timestampEnd transactionsNumberLimit hashes p =
    tti_find timestampBegin timestampEnd (ucast transactionsNumberLimit) hashes (m_timestampIndex p)"

end
