(* ===== verification/MemoryPoolInvariant.thy ===== *)
theory MemoryPoolInvariant
  imports TransactionPool Complex_Main "HOL-Library.Sublist"
begin

text \<open>
  What the memory pool keeps: the order of the fee index, the tables of spent inputs, the indices and
  the absence of double spends, for every pool that the operations of \<open>TransactionPool\<close> can produce;
  and what its block templates and its periodic cleaning do.
\<close>

section \<open>The inputs a transaction spends\<close>

fun images :: "TransactionInput list \<Rightarrow> KeyImage list" where
  "images [] = []"
| "images (KeyInput amount indexes keyImage # ins) = keyImage # images ins"
| "images (MultisignatureInput amount n outputIndex # ins) = images ins"
| "images (BaseInput h # ins) = images ins"

fun msig_outs :: "TransactionInput list \<Rightarrow> (u64 \<times> u64) list" where
  "msig_outs [] = []"
| "msig_outs (KeyInput amount indexes keyImage # ins) = msig_outs ins"
| "msig_outs (MultisignatureInput amount n outputIndex # ins) = (amount, ucast outputIndex) # msig_outs ins"
| "msig_outs (BaseInput h # ins) = msig_outs ins"

text \<open>No input twice: what \<open>check_tx_inputs_keyimages_diff\<close> and \<open>checkMultisignatureInputsDiff\<close> establish.\<close>

definition distinct_inputs :: "TransactionInput list \<Rightarrow> bool" where
  "distinct_inputs ins \<longleftrightarrow> distinct (images ins) \<and> distinct (msig_outs ins)"

lemma haveSpentInputs_iff:
  "pool_haveSpentInputs tx p \<longleftrightarrow> (\<exists>k\<in>set (images (tx_inputs tx)). m_spent_key_images p k \<noteq> None)
    \<or> set (msig_outs (tx_inputs tx)) \<inter> m_spentOutputs p \<noteq> {}"
proof -
  obtain ins where ins: "tx_inputs tx = ins" by simp
  show ?thesis unfolding pool_haveSpentInputs_def ins by (induction ins rule: images.induct) auto
qed

lemma canAdd_iff:
  "bt_canAdd tx bt \<longleftrightarrow> set (images (tx_inputs tx)) \<inter> bt_keyImages bt = {} \<and> set (msig_outs (tx_inputs tx)) \<inter> bt_usedOutputs bt = {}"
proof -
  obtain ins where ins: "tx_inputs tx = ins" by simp
  show ?thesis unfolding bt_canAdd_def ins by (induction ins rule: images.induct) auto
qed

lemma bt_insert_ok:
  assumes "distinct_inputs ins" "set (images ins) \<inter> bt_keyImages bt = {}" "set (msig_outs ins) \<inter> bt_usedOutputs bt = {}"
  shows "bt_insert ins bt = Some (bt\<lparr>bt_keyImages := bt_keyImages bt \<union> set (images ins),
    bt_usedOutputs := bt_usedOutputs bt \<union> set (msig_outs ins)\<rparr>)"
  using assms by (induction ins arbitrary: bt rule: images.induct) (auto simp: distinct_inputs_def intro!: BlockTemplate.equality)

text \<open>The pool in which the inputs of a transaction are entered, and are taken out.\<close>

definition mark_spent :: "Hash \<Rightarrow> bool \<Rightarrow> TransactionInput list \<Rightarrow> tx_memory_pool \<Rightarrow> tx_memory_pool" where
  "mark_spent h kept ins p = p\<lparr>
    m_spent_key_images := (\<lambda>k. if k \<in> set (images ins)
      then Some (insert h (case m_spent_key_images p k of None \<Rightarrow> {} | Some S \<Rightarrow> S)) else m_spent_key_images p k),
    m_spentOutputs := m_spentOutputs p \<union> (if kept then {} else set (msig_outs ins))\<rparr>"

definition unmark_spent :: "Hash \<Rightarrow> bool \<Rightarrow> TransactionInput list \<Rightarrow> tx_memory_pool \<Rightarrow> tx_memory_pool" where
  "unmark_spent h kept ins p = p\<lparr>
    m_spent_key_images := (\<lambda>k. if k \<in> set (images ins)
      then (if the (m_spent_key_images p k) - {h} = {} then None else Some (the (m_spent_key_images p k) - {h}))
      else m_spent_key_images p k),
    m_spentOutputs := m_spentOutputs p - (if kept then {} else set (msig_outs ins))\<rparr>"

lemma mark_spent_Cons:
  "mark_spent h kept (BaseInput b # ins) p = mark_spent h kept ins p"
  "k \<notin> set (images ins) \<Longrightarrow> mark_spent h kept (KeyInput a idx k # ins) p = mark_spent h kept ins
    (p\<lparr>m_spent_key_images := (m_spent_key_images p)(k \<mapsto> insert h (case m_spent_key_images p k of None \<Rightarrow> {} | Some S \<Rightarrow> S))\<rparr>)"
  "mark_spent h True (MultisignatureInput a n j # ins) p = mark_spent h True ins p"
  "mark_spent h False (MultisignatureInput a n j # ins) p =
    mark_spent h False ins (p\<lparr>m_spentOutputs := insert (a, ucast j) (m_spentOutputs p)\<rparr>)"
  by (auto simp: mark_spent_def fun_eq_iff intro!: tx_memory_pool.equality)

lemma unmark_spent_Cons:
  "unmark_spent h kept (BaseInput b # ins) p = unmark_spent h kept ins p"
  "k \<notin> set (images ins) \<Longrightarrow> m_spent_key_images p k = Some S \<Longrightarrow> unmark_spent h kept (KeyInput a idx k # ins) p = unmark_spent h kept ins
    (p\<lparr>m_spent_key_images := (m_spent_key_images p)(k := if S - {h} = {} then None else Some (S - {h}))\<rparr>)"
  "unmark_spent h True (MultisignatureInput a n j # ins) p = unmark_spent h True ins p"
  "unmark_spent h False (MultisignatureInput a n j # ins) p =
    unmark_spent h False ins (p\<lparr>m_spentOutputs := m_spentOutputs p - {(a, ucast j)}\<rparr>)"
  by (auto simp: unmark_spent_def fun_eq_iff intro!: tx_memory_pool.equality)

definition may_mark :: "Hash \<Rightarrow> bool \<Rightarrow> TransactionInput list \<Rightarrow> tx_memory_pool \<Rightarrow> bool" where
  "may_mark h kept ins p \<longleftrightarrow> distinct_inputs ins
    \<and> (\<not> kept \<longrightarrow> (\<forall>k\<in>set (images ins). m_spent_key_images p k = None) \<and> set (msig_outs ins) \<inter> m_spentOutputs p = {})
    \<and> (\<forall>k\<in>set (images ins). \<forall>S. m_spent_key_images p k = Some S \<longrightarrow> h \<notin> S)"

lemma addTransactionInputs_ok:
  "may_mark h kept ins p \<Longrightarrow> addTransactionInputs h kept ins p = Some (True, mark_spent h kept ins p)"
proof (induction ins arbitrary: p rule: images.induct)
  case (2 a idx k ins)
  let ?S = "case m_spent_key_images p k of None \<Rightarrow> {} | Some S \<Rightarrow> S"
  have "may_mark h kept ins (p\<lparr>m_spent_key_images := (m_spent_key_images p)(k \<mapsto> insert h ?S)\<rparr>)"
    using 2(2) by (auto simp: may_mark_def distinct_inputs_def)
  moreover have "(kept \<or> ?S = {}) \<and> h \<notin> ?S" "k \<notin> set (images ins)"
    using 2(2) by (auto simp: may_mark_def distinct_inputs_def split: option.splits)
  ultimately show ?case using 2(1) by (simp add: mark_spent_Cons Let_def)
next
  case (3 a n j ins)
  show ?case
  proof (cases kept)
    case True
    then have "may_mark h kept ins p" using 3(2) by (auto simp: may_mark_def distinct_inputs_def)
    then show ?thesis using 3(1) True by (simp add: mark_spent_Cons)
  next
    case False
    then have "may_mark h kept ins (p\<lparr>m_spentOutputs := insert (a, ucast j) (m_spentOutputs p)\<rparr>)"
      "(a, ucast j) \<notin> m_spentOutputs p" using 3(2) by (auto simp: may_mark_def distinct_inputs_def)
    then show ?thesis using 3(1) False by (simp add: mark_spent_Cons)
  qed
qed (auto simp: may_mark_def distinct_inputs_def mark_spent_Cons mark_spent_def)

definition may_unmark :: "Hash \<Rightarrow> bool \<Rightarrow> TransactionInput list \<Rightarrow> tx_memory_pool \<Rightarrow> bool" where
  "may_unmark h kept ins p \<longleftrightarrow> distinct_inputs ins
    \<and> (\<not> kept \<longrightarrow> set (msig_outs ins) \<subseteq> m_spentOutputs p)
    \<and> (\<forall>k\<in>set (images ins). \<exists>S. m_spent_key_images p k = Some S \<and> h \<in> S)"

lemma removeTransactionInputs_ok:
  "may_unmark h kept ins p \<Longrightarrow> removeTransactionInputs h kept ins p = Some (True, unmark_spent h kept ins p)"
proof (induction ins arbitrary: p rule: images.induct)
  case (2 a idx k ins)
  obtain S where S: "m_spent_key_images p k = Some S" "h \<in> S" "k \<notin> set (images ins)"
    using 2(2) by (auto simp: may_unmark_def distinct_inputs_def)
  have "may_unmark h kept ins (p\<lparr>m_spent_key_images := (m_spent_key_images p)(k := if S - {h} = {} then None else Some (S - {h}))\<rparr>)"
    using 2(2) S by (auto simp: may_unmark_def distinct_inputs_def)
  then show ?case using 2(1) S by (auto simp: unmark_spent_Cons)
next
  case (3 a n j ins)
  show ?case
  proof (cases kept)
    case True
    then have "may_unmark h kept ins p" using 3(2) by (auto simp: may_unmark_def distinct_inputs_def)
    then show ?thesis using 3(1) True by (simp add: unmark_spent_Cons)
  next
    case False
    then have "may_unmark h kept ins (p\<lparr>m_spentOutputs := m_spentOutputs p - {(a, ucast j)}\<rparr>)"
      "(a, ucast j) \<in> m_spentOutputs p" using 3(2) by (auto simp: may_unmark_def distinct_inputs_def)
    then show ?thesis using 3(1) False by (simp add: unmark_spent_Cons)
  qed
qed (auto simp: may_unmark_def distinct_inputs_def unmark_spent_Cons unmark_spent_def)

section \<open>The order of the fee index is by price, size and age\<close>

definition price :: "TransactionDetails \<Rightarrow> rat" where
  "price t = of_nat (unat (td_fee t)) / of_nat (unat (td_blobSize t))"

lemma wide_less_iff:
  fixes a b c d :: u64
  shows "a < c \<or> a = c \<and> b < d \<longleftrightarrow> unat a * 2 ^ 64 + unat b < unat c * 2 ^ 64 + unat d"
    "a = c \<and> b = d \<longleftrightarrow> unat a * 2 ^ 64 + unat b = unat c * 2 ^ 64 + unat d"
proof -
  have b: "unat b < 2 ^ 64" "unat d < 2 ^ 64" using unsigned_less[of b] unsigned_less[of d] by simp_all
  show "a < c \<or> a = c \<and> b < d \<longleftrightarrow> unat a * 2 ^ 64 + unat b < unat c * 2 ^ 64 + unat d"
    using b by (auto simp: word_less_nat_alt word_unat_eq_iff)
  show "a = c \<and> b = d \<longleftrightarrow> unat a * 2 ^ 64 + unat b = unat c * 2 ^ 64 + unat d"
    using b by (cases "unat a" "unat c" rule: linorder_cases) (auto simp: word_unat_eq_iff)
qed

lemma price_less:
  assumes "0 < td_blobSize x" "0 < td_blobSize y"
  shows "price x < price y \<longleftrightarrow> unat (td_fee x) * unat (td_blobSize y) < unat (td_fee y) * unat (td_blobSize x)"
proof -
  have p: "0 < unat (td_blobSize x)" "0 < unat (td_blobSize y)" using assms by (simp_all add: word_less_nat_alt)
  have frac: "a / b < c / d \<longleftrightarrow> a * d < c * b" if "0 < b" "0 < d" for a b c d :: rat
    using that by (simp add: divide_less_eq less_divide_eq)
  have "price x < price y \<longleftrightarrow>
      (of_nat (unat (td_fee x)) * of_nat (unat (td_blobSize y)) :: rat) < of_nat (unat (td_fee y)) * of_nat (unat (td_blobSize x))"
    unfolding price_def by (rule frac) (use p in \<open>simp_all only: of_nat_0_less_iff\<close>)
  then show ?thesis by (simp only: of_nat_less_iff of_nat_mult[symmetric])
qed

text \<open>A transaction comes first for a higher price per byte, then for a smaller size, then for an earlier arrival.\<close>

lemma priority_less_iff:
  assumes "0 < td_blobSize x" "0 < td_blobSize y"
  shows "priority_less x y \<longleftrightarrow> price y < price x
    \<or> price x = price y \<and> (td_blobSize x < td_blobSize y
      \<or> td_blobSize x = td_blobSize y \<and> sint (td_receiveTime x) < sint (td_receiveTime y))"
proof -
  obtain l1 h1 l2 h2 where m: "mul128 (td_fee x) (td_blobSize y) = (l1, h1)" "mul128 (td_fee y) (td_blobSize x) = (l2, h2)"
    by (metis surj_pair)
  note w = mul128_correct[OF m(1)] mul128_correct[OF m(2)]
  have lt: "h2 < h1 \<or> h2 = h1 \<and> l2 < l1 \<longleftrightarrow> price y < price x"
    unfolding wide_less_iff(1) w price_less[OF assms(2,1)] ..
  have "h1 = h2 \<and> l1 = l2 \<longleftrightarrow> unat (td_fee x) * unat (td_blobSize y) = unat (td_fee y) * unat (td_blobSize x)"
    unfolding wide_less_iff(2) w ..
  also have "\<dots> \<longleftrightarrow> \<not> price x < price y \<and> \<not> price y < price x"
    unfolding price_less[OF assms] price_less[OF assms(2,1)] by linarith
  finally have eq: "h1 = h2 \<and> l1 = l2 \<longleftrightarrow> price x = price y" by auto
  have "priority_less x y \<longleftrightarrow> (h2 < h1 \<or> h2 = h1 \<and> l2 < l1)
    \<or> (h1 = h2 \<and> l1 = l2) \<and> (td_blobSize x < td_blobSize y
      \<or> td_blobSize x = td_blobSize y \<and> sint (td_receiveTime x) < sint (td_receiveTime y))"
    by (auto simp: priority_less_def m)
  then show ?thesis unfolding lt eq .
qed

lemma priority_le_trans:
  assumes "0 < td_blobSize x" "0 < td_blobSize y" "0 < td_blobSize z" "\<not> priority_less y x" "\<not> priority_less z y"
  shows "\<not> priority_less z x"
  using assms(4,5) unfolding priority_less_iff[OF assms(2,1)] priority_less_iff[OF assms(3,2)] priority_less_iff[OF assms(3,1)]
  by (auto simp: not_less word_less_nat_alt word_unat_eq_iff)

lemma priority_less_asym:
  assumes "0 < td_blobSize x" "0 < td_blobSize y" "priority_less x y"
  shows "\<not> priority_less y x"
  using assms(3) unfolding priority_less_iff[OF assms(1,2)] priority_less_iff[OF assms(2,1)] by auto

definition by_priority :: "TransactionDetails list \<Rightarrow> bool" where
  "by_priority ts \<longleftrightarrow> sorted_wrt (\<lambda>x y. \<not> priority_less y x) ts"

lemma takeWhile_prio: "t \<in> set (takeWhile (\<lambda>t. \<not> priority_less x t) ts) \<Longrightarrow> \<not> priority_less x t"
  by (drule set_takeWhileD) (rule conjunct2)

lemma dropWhile_prio:
  assumes "by_priority ts" "\<forall>t\<in>set ts. 0 < td_blobSize t" "0 < td_blobSize x" "t \<in> set (dropWhile (\<lambda>t. \<not> priority_less x t) ts)"
  shows "\<not> priority_less t x"
  using assms
proof (induction ts)
  case (Cons u us)
  show ?case
  proof (cases "priority_less x u")
    case True
    show ?thesis
    proof (cases "t = u")
      case False
      then have tu: "t \<in> set us" "\<not> priority_less t u" using Cons.prems(1,4) True by (auto simp: by_priority_def)
      show ?thesis using priority_le_trans[of x u t] priority_less_asym[OF _ _ True] tu Cons.prems(2,3) by auto
    qed (use True priority_less_asym Cons.prems(2,3) in auto)
  qed (use Cons in \<open>auto simp: by_priority_def\<close>)
qed simp

lemma by_priority_insert:
  assumes "by_priority ts" "\<forall>t\<in>set ts. 0 < td_blobSize t" "0 < td_blobSize x"
  shows "by_priority (takeWhile (\<lambda>t. \<not> priority_less x t) ts @ x # dropWhile (\<lambda>t. \<not> priority_less x t) ts)"
proof -
  have mid: "sorted_wrt R (a @ b) \<Longrightarrow> \<forall>t\<in>set a. R t x \<Longrightarrow> \<forall>t\<in>set b. R x t \<Longrightarrow> sorted_wrt R (a @ x # b)"
    for R and a b :: "TransactionDetails list" by (auto simp: sorted_wrt_append)
  show ?thesis unfolding by_priority_def
  proof (rule mid)
    show "sorted_wrt (\<lambda>x y. \<not> priority_less y x)
        (takeWhile (\<lambda>t. \<not> priority_less x t) ts @ dropWhile (\<lambda>t. \<not> priority_less x t) ts)"
      using assms(1) by (simp add: by_priority_def)
  qed (use takeWhile_prio[of _ x ts] dropWhile_prio[OF assms] in blast)+
qed

lemma by_priority_filter: "by_priority ts \<Longrightarrow> by_priority (filter P ts)"
  by (simp add: by_priority_def sorted_wrt_filter)

section \<open>The invariant of the pool\<close>

definition spenders :: "TransactionDetails list \<Rightarrow> KeyImage \<Rightarrow> Hash set" where
  "spenders ts k = td_id ` {t \<in> set ts. k \<in> set (images (tx_inputs (td_tx t)))}"

definition images_of :: "TransactionDetails list \<Rightarrow> KeyImage \<rightharpoonup> Hash set" where
  "images_of ts k = (if spenders ts k = {} then None else Some (spenders ts k))"

definition outputs_of :: "TransactionDetails list \<Rightarrow> (u64 \<times> u64) set" where
  "outputs_of ts = (\<Union>t\<in>{t \<in> set ts. \<not> td_keptByBlock t}. set (msig_outs (tx_inputs (td_tx t))))"

text \<open>Two transactions that spend a common input, unless one of them came with a block.\<close>

definition no_double_spend :: "TransactionDetails list \<Rightarrow> bool" where
  "no_double_spend ts \<longleftrightarrow> (\<forall>t\<in>set ts. \<forall>u\<in>set ts. \<not> td_keptByBlock t \<longrightarrow> \<not> td_keptByBlock u \<longrightarrow> td_id t \<noteq> td_id u \<longrightarrow>
    set (images (tx_inputs (td_tx t))) \<inter> set (images (tx_inputs (td_tx u))) = {}
    \<and> set (msig_outs (tx_inputs (td_tx t))) \<inter> set (msig_outs (tx_inputs (td_tx u))) = {})"

definition payment_entry :: "TransactionDetails \<Rightarrow> (Hash \<times> Hash) multiset" where
  "payment_entry t = (case getPaymentId (td_tx t) of None \<Rightarrow> {#} | Some pid \<Rightarrow> {#(pid, td_id t)#})"

definition indices_match :: "tx_memory_pool \<Rightarrow> TransactionDetails multiset \<Rightarrow> bool" where
  "indices_match p ts \<longleftrightarrow>
    (hi_enabled (m_paymentIdIndex p) \<longrightarrow> mset (hi_index (m_paymentIdIndex p)) = \<Sum>\<^sub># (image_mset payment_entry ts))
    \<and> (hi_enabled (m_timestampIndex p) \<longrightarrow>
        mset (hi_index (m_timestampIndex p)) = image_mset (\<lambda>t. (td_receiveTime t, td_id t)) ts)"

definition details_ok :: "TransactionDetails list \<Rightarrow> bool" where
  "details_ok ts \<longleftrightarrow> distinct (map td_id ts) \<and> by_priority ts \<and> no_double_spend ts
    \<and> (\<forall>t\<in>set ts. distinct_inputs (tx_inputs (td_tx t)) \<and> 0 < td_blobSize t)"

definition pool_inv :: "tx_memory_pool \<Rightarrow> bool" where
  "pool_inv p \<longleftrightarrow> details_ok (m_transactions p)
    \<and> m_spent_key_images p = images_of (m_transactions p)
    \<and> m_spentOutputs p = outputs_of (m_transactions p)
    \<and> m_validated_transactions p \<subseteq> td_id ` set (m_transactions p)
    \<and> indices_match p (mset (m_transactions p))"

lemma pool_inv_init: "pool_inv (tx_memory_pool_init b)"
  by (auto simp: pool_inv_def tx_memory_pool_init_def details_ok_def by_priority_def no_double_spend_def images_of_def spenders_def
      outputs_of_def indices_match_def)

lemma mset_txs_insert: "txs_insert t ts = (True, ts') \<Longrightarrow> mset ts' = add_mset t (mset ts)"
proof -
  assume *: "txs_insert t ts = (True, ts')"
  have "mset ts = mset (takeWhile (\<lambda>u. \<not> priority_less t u) ts) + mset (dropWhile (\<lambda>u. \<not> priority_less t u) ts)"
    by (simp flip: mset_append)
  then show ?thesis using * by (auto simp: txs_insert_def split: if_splits)
qed

lemma set_txs_insert: "txs_insert t ts = (True, ts') \<Longrightarrow> set ts' = insert t (set ts)"
  using mset_txs_insert by (metis set_mset_add_mset_insert set_mset_mset)

text \<open>A transaction that may be entered without a conflict.\<close>

definition fits :: "TransactionDetails \<Rightarrow> tx_memory_pool \<Rightarrow> bool" where
  "fits t p \<longleftrightarrow> distinct_inputs (tx_inputs (td_tx t)) \<and> 0 < td_blobSize t
    \<and> (\<not> td_keptByBlock t \<longrightarrow> \<not> pool_haveSpentInputs (td_tx t) p)"

lemma details_ok_insert:
  assumes p: "pool_inv p" and t: "fits t p" and ins: "txs_insert t (m_transactions p) = (True, ts)"
  shows "details_ok ts"
proof -
  let ?ts = "m_transactions p"
  have ok: "details_ok ?ts" using p by (simp add: pool_inv_def)
  have s: "set ts = insert t (set ?ts)" by (rule set_txs_insert[OF ins])
  have new: "td_id t \<notin> td_id ` set ?ts"
    and ts: "ts = takeWhile (\<lambda>u. \<not> priority_less t u) ?ts @ t # dropWhile (\<lambda>u. \<not> priority_less t u) ?ts"
    using ins by (auto simp: txs_insert_def split: if_splits)
  have "mset (map td_id ts) = add_mset (td_id t) (mset (map td_id ?ts))" using mset_txs_insert[OF ins] by simp
  then have "distinct (map td_id ts)" using ok new
    by (metis details_ok_def distinct.simps(2) image_set mset.simps(2) mset_eq_imp_distinct_iff)
  moreover have "by_priority ts" unfolding ts
    by (rule by_priority_insert) (use ok t in \<open>auto simp: details_ok_def fits_def\<close>)
  moreover have "no_double_spend ts"
  proof -
    have "set (images (tx_inputs (td_tx t))) \<inter> set (images (tx_inputs (td_tx u))) = {}
      \<and> set (msig_outs (tx_inputs (td_tx t))) \<inter> set (msig_outs (tx_inputs (td_tx u))) = {}"
      if u: "u \<in> set ?ts" "\<not> td_keptByBlock t" "\<not> td_keptByBlock u" for u
    proof -
      have "\<not> pool_haveSpentInputs (td_tx t) p" using t u by (simp add: fits_def)
      then have "\<forall>k\<in>set (images (tx_inputs (td_tx t))). images_of ?ts k = None" "set (msig_outs (tx_inputs (td_tx t))) \<inter> outputs_of ?ts = {}"
        using p by (simp_all add: haveSpentInputs_iff pool_inv_def)
      then show ?thesis using u by (auto simp: images_of_def spenders_def outputs_of_def split: if_splits)
    qed
    then show ?thesis using ok unfolding no_double_spend_def details_ok_def s by (simp add: Int_commute)
  qed
  moreover have "\<forall>t\<in>set ts. distinct_inputs (tx_inputs (td_tx t)) \<and> 0 < td_blobSize t"
    using ok t by (auto simp: s details_ok_def fits_def)
  ultimately show ?thesis by (simp add: details_ok_def)
qed

lemma may_mark_new:
  assumes p: "pool_inv p" and t: "fits t p" and new: "td_id t \<notin> td_id ` set (m_transactions p)"
  shows "may_mark (td_id t) (td_keptByBlock t) (tx_inputs (td_tx t)) p"
  using assms by (auto simp: may_mark_def fits_def haveSpentInputs_iff pool_inv_def images_of_def spenders_def split: if_splits)

lemma images_of_insert:
  "set ts' = insert t (set ts) \<Longrightarrow> images_of ts' = (\<lambda>k. if k \<in> set (images (tx_inputs (td_tx t)))
    then Some (insert (td_id t) (case images_of ts k of None \<Rightarrow> {} | Some S \<Rightarrow> S)) else images_of ts k)"
  by (auto simp: images_of_def spenders_def fun_eq_iff)

lemma outputs_of_insert:
  "set ts' = insert t (set ts) \<Longrightarrow>
    outputs_of ts' = outputs_of ts \<union> (if td_keptByBlock t then {} else set (msig_outs (tx_inputs (td_tx t))))"
  by (auto simp: outputs_of_def)

lemma pii_add_entries:
  "hi_enabled (snd (pii_add tx h i)) = hi_enabled i"
  "hi_enabled i \<Longrightarrow> mset (hi_index (snd (pii_add tx h i)))
    = (case getPaymentId tx of None \<Rightarrow> {#} | Some pid \<Rightarrow> {#(pid, h)#}) + mset (hi_index i)"
  by (auto simp: pii_add_def um.ins_entries split: option.splits)

lemma pii_remove_entries:
  "hi_enabled (snd (pii_remove tx h i)) = hi_enabled i"
  "hi_enabled i \<Longrightarrow> mset (hi_index (snd (pii_remove tx h i)))
    = mset (hi_index i) - (case getPaymentId tx of None \<Rightarrow> {#} | Some pid \<Rightarrow> {#(pid, h)#})"
proof -
  show "hi_enabled (snd (pii_remove tx h i)) = hi_enabled i" by (simp add: pii_remove_def split: option.splits prod.splits)
  show "hi_enabled i \<Longrightarrow> mset (hi_index (snd (pii_remove tx h i)))
    = mset (hi_index i) - (case getPaymentId tx of None \<Rightarrow> {#} | Some pid \<Rightarrow> {#(pid, h)#})"
    using um.del_entries[of _ h "hi_index i"] by (simp add: pii_remove_def case_prod_beta split: option.split)
qed

lemma tti_entries:
  "hi_enabled (snd (tti_add t h i)) = hi_enabled i" "hi_enabled (snd (tti_remove t h i)) = hi_enabled i"
  "hi_enabled i \<Longrightarrow> mset (hi_index (snd (tti_add t h i))) = add_mset (t, h) (mset (hi_index i))"
  "hi_enabled i \<Longrightarrow> mset (hi_index (snd (tti_remove t h i))) = mset (hi_index i) - {#(t, h)#}"
  using mm.del_entries[of t h "hi_index i"]
  by (simp_all add: tti_add_def tti_remove_def mm.ins_entries case_prod_beta)

text \<open>The pool after a transaction is entered, and after it is taken out.\<close>

definition entered :: "TransactionDetails \<Rightarrow> TransactionDetails list \<Rightarrow> string HashIndex \<Rightarrow> tx_memory_pool \<Rightarrow> tx_memory_pool" where
  "entered t ts ai p = mark_spent (td_id t) (td_keptByBlock t) (tx_inputs (td_tx t))
    (p\<lparr>m_transactions := ts, m_paymentIdIndex := snd (pii_add (td_tx t) (td_id t) (m_paymentIdIndex p)),
       m_addressindex := ai, m_timestampIndex := snd (tti_add (td_receiveTime t) (td_id t) (m_timestampIndex p))\<rparr>)"

lemma pool_inv_entered:
  assumes p: "pool_inv p" and t: "fits t p" and ins: "txs_insert t (m_transactions p) = (True, ts)"
  shows "pool_inv (entered t ts ai p)"
proof -
  have s: "set ts = insert t (set (m_transactions p))" by (rule set_txs_insert[OF ins])
  have "indices_match (entered t ts ai p) (mset ts)"
    using p unfolding mset_txs_insert[OF ins] pool_inv_def
    by (simp add: indices_match_def entered_def mark_spent_def pii_add_entries tti_entries payment_entry_def)
  moreover have "m_spent_key_images (entered t ts ai p) = images_of ts"
    using p by (simp add: images_of_insert[OF s] entered_def mark_spent_def pool_inv_def cong: if_cong option.case_cong)
  moreover have "m_spentOutputs (entered t ts ai p) = outputs_of ts"
    using p by (simp add: outputs_of_insert[OF s] entered_def mark_spent_def pool_inv_def)
  moreover have "m_validated_transactions p \<subseteq> td_id ` set ts" using p s by (auto simp: pool_inv_def)
  ultimately show ?thesis using details_ok_insert[OF assms] by (simp add: pool_inv_def entered_def mark_spent_def)
qed

lemma add_inputs_entered:
  assumes p: "pool_inv p" and t: "fits t p" and ins: "txs_insert t (m_transactions p) = (True, ts)"
  shows "addTransactionInputs (td_id t) (td_keptByBlock t) (tx_inputs (td_tx t))
    (p\<lparr>m_transactions := ts, m_paymentIdIndex := snd (pii_add (td_tx t) (td_id t) (m_paymentIdIndex p)),
       m_addressindex := ai, m_timestampIndex := snd (tti_add (td_receiveTime t) (td_id t) (m_timestampIndex p))\<rparr>)
    = Some (True, entered t ts ai p)"
proof -
  have "td_id t \<notin> td_id ` set (m_transactions p)" using ins by (auto simp: txs_insert_def split: if_splits)
  from may_mark_new[OF p t this] show ?thesis
    unfolding entered_def by (intro addTransactionInputs_ok) (simp add: may_mark_def)
qed

definition new_details :: "i64 \<Rightarrow> BlockInfo \<Rightarrow> Transaction \<Rightarrow> Hash \<Rightarrow> u64 \<Rightarrow> bool \<Rightarrow> TransactionDetails" where
  "new_details now used tx h blobSize kept =
    \<lparr>maxUsedBlock = used, lastFailedBlock = BlockInfo_clear, td_id = h, td_tx = tx, td_blobSize = blobSize,
     td_fee = get_inputs_money_amount tx - get_outs_money_amount tx, td_keptByBlock = kept, td_receiveTime = now\<rparr>"

lemma new_details_simps [simp]:
  "td_id (new_details now used tx h blobSize kept) = h" "td_tx (new_details now used tx h blobSize kept) = tx"
  "td_blobSize (new_details now used tx h blobSize kept) = blobSize" "td_keptByBlock (new_details now used tx h blobSize kept) = kept"
  "td_receiveTime (new_details now used tx h blobSize kept) = now"
  "td_fee (new_details now used tx h blobSize kept) = get_inputs_money_amount tx - get_outs_money_amount tx"
  by (simp_all add: new_details_def)

text \<open>A call of \<open>add_tx\<close> either leaves the pool as it is or enters the transaction completely.\<close>

lemma add_tx_cases:
  assumes p: "pool_inv p" and d: "distinct_inputs (tx_inputs tx)" "0 < blobSize"
    and r: "add_tx C cur v height now tx h blobSize tvc kept p = Some (ok, tvc', p')"
  shows "p' = p \<and> \<not> (ok \<and> m_added_to_pool tvc')
    \<or> (\<exists>used ts ai. fits (new_details now used tx h blobSize kept) p
        \<and> txs_insert (new_details now used tx h blobSize kept) (m_transactions p) = (True, ts)
        \<and> p' = entered (new_details now used tx h blobSize kept) ts ai p
        \<and> ok \<and> m_added_to_pool tvc' \<and> \<not> m_verification_failed tvc'
        \<and> get_outs_money_amount tx \<le> get_inputs_money_amount tx
        \<and> (kept \<or> fst (checkTransactionInputs_max v tx BlockInfo_clear) \<and> checkTransactionSize v blobSize))"
proof -
  obtain valid used0 where v: "checkTransactionInputs_max v tx BlockInfo_clear = (valid, used0)" by fastforce
  define used where "used = (if valid then used0 else BlockInfo_clear)"
  define t where "t = new_details now used tx h blobSize kept"
  obtain inserted ts where ins: "txs_insert t (m_transactions p) = (inserted, ts)" by fastforce
  show ?thesis
  proof (cases "kept \<or> \<not> pool_haveSpentInputs tx p")
    case False
    then show ?thesis using r by (auto simp: add_tx_def Let_def split: if_splits bind_splits)
  next
    case True
    then have fits: "fits t p" using d by (auto simp: fits_def t_def)
    have "p' = p \<and> \<not> (ok \<and> m_added_to_pool tvc') \<or> (\<exists>ai. inserted \<and> p' = entered t ts ai p
        \<and> ok \<and> m_added_to_pool tvc' \<and> \<not> m_verification_failed tvc' \<and> get_outs_money_amount tx \<le> get_inputs_money_amount tx
        \<and> (kept \<or> valid \<and> checkTransactionSize v blobSize))"
      using r True add_inputs_entered[OF p fits, of ts] ins
      by (auto simp: add_tx_def Let_def v used_def t_def new_details_def not_less bind_eq_Some_conv case_prod_beta
          split: if_splits)
    then show ?thesis using fits ins v unfolding t_def by fastforce
  qed
qed

lemma add_tx_inv:
  assumes "pool_inv p" "distinct_inputs (tx_inputs tx)" "0 < blobSize" "add_tx C cur v height now tx h blobSize tvc kept p = Some (ok, tvc', p')"
  shows "pool_inv p'"
  using add_tx_cases[OF assms] assms(1) pool_inv_entered by blast

lemma getAddresses_total: "\<exists>as. getAddresses C tx = Some as"
proof -
  have "those (map (getAccountAddressAsStr C prefix) xs) \<noteq> None" for prefix xs
    by (induction xs) (auto simp: getAccountAddressAsStr_def toBinaryArray_def write_AccountPublicAddress_def)
  then show ?thesis by (auto simp: getAddresses_def)
qed

lemma ai_total: "\<exists>r j. ai_add C tx h i = Some (r, j)" "\<exists>r j. ai_remove C tx h i = Some (r, j)"
  using getAddresses_total[of C tx] by (auto simp: ai_add_def ai_remove_def split: prod.splits)

lemma same_id: "details_ok ts \<Longrightarrow> t \<in> set ts \<Longrightarrow> u \<in> set ts \<Longrightarrow> td_id t = td_id u \<Longrightarrow> t = u"
  by (auto simp: details_ok_def distinct_map inj_on_def)

abbreviation without :: "TransactionDetails \<Rightarrow> TransactionDetails list \<Rightarrow> TransactionDetails list" where
  "without t ts \<equiv> filter (\<lambda>u. td_id u \<noteq> td_id t) ts"

lemma details_ok_filter: "details_ok ts \<Longrightarrow> details_ok (filter P ts)"
  by (auto simp: details_ok_def by_priority_filter no_double_spend_def distinct_map_filter)

lemma mset_without:
  assumes "details_ok ts" "t \<in> set ts"
  shows "mset ts = add_mset t (mset (without t ts))"
proof -
  have d: "distinct ts" using assms by (auto simp: details_ok_def distinct_map)
  have "filter (\<lambda>u. \<not> td_id u \<noteq> td_id t) ts = filter (\<lambda>u. u = t) ts"
    using same_id[OF assms(1) _ assms(2)] by (intro filter_cong) auto
  moreover have "filter (\<lambda>u. u = t) ts = [t]" using d assms(2) by (induction ts) (auto simp: filter_empty_conv)
  ultimately show ?thesis using multiset_partition[of "mset ts" "\<lambda>u. td_id u \<noteq> td_id t"] by (simp flip: mset_filter)
qed

lemma images_of_without:
  assumes "details_ok ts" "t \<in> set ts"
  shows "images_of (without t ts) = (\<lambda>k. if k \<in> set (images (tx_inputs (td_tx t)))
      then (if the (images_of ts k) - {td_id t} = {} then None else Some (the (images_of ts k) - {td_id t})) else images_of ts k)"
proof
  fix k
  have w: "spenders (without t ts) k = spenders ts k - {td_id t}" by (auto simp: spenders_def)
  show "images_of (without t ts) k = (if k \<in> set (images (tx_inputs (td_tx t)))
      then (if the (images_of ts k) - {td_id t} = {} then None else Some (the (images_of ts k) - {td_id t})) else images_of ts k)"
  proof (cases "k \<in> set (images (tx_inputs (td_tx t)))")
    case True
    then have "spenders ts k \<noteq> {}" using assms by (auto simp: spenders_def)
    then show ?thesis using True w by (simp add: images_of_def)
  next
    case False
    then have "td_id t \<notin> spenders ts k" using same_id[OF assms] by (auto simp: spenders_def)
    then show ?thesis using False w by (simp add: images_of_def)
  qed
qed

lemma outputs_of_without:
  assumes "details_ok ts" "t \<in> set ts"
  shows "outputs_of (without t ts) = outputs_of ts - (if td_keptByBlock t then {} else set (msig_outs (tx_inputs (td_tx t))))"
proof (cases "td_keptByBlock t")
  case True
  then have "{u \<in> set ts. td_id u \<noteq> td_id t \<and> \<not> td_keptByBlock u} = {u \<in> set ts. \<not> td_keptByBlock u}"
    using same_id[OF assms] by fastforce
  then show ?thesis using True by (simp add: outputs_of_def)
next
  case False
  let ?o = "\<lambda>u. set (msig_outs (tx_inputs (td_tx u)))"
  let ?N = "{u \<in> set ts. \<not> td_keptByBlock u}"
  have "set (without t ts) = set ts - {t}" using same_id[OF assms(1) _ assms(2)] by auto
  then have "{u \<in> set (without t ts). \<not> td_keptByBlock u} = ?N - {t}" by blast
  moreover have "?o u \<inter> ?o t = {}" if "u \<in> ?N - {t}" for u
  proof -
    have "td_id u \<noteq> td_id t" using that same_id[OF assms(1) _ assms(2), of u] by blast
    then show ?thesis using assms that False unfolding details_ok_def no_double_spend_def by blast
  qed
  then have "\<Union> (?o ` (?N - {t})) = \<Union> (?o ` ?N) - ?o t" by blast
  ultimately show ?thesis using False by (simp add: outputs_of_def)
qed

lemma may_unmark_in:
  assumes "pool_inv p" "t \<in> set (m_transactions p)"
  shows "may_unmark (td_id t) (td_keptByBlock t) (tx_inputs (td_tx t)) p"
  using assms by (auto simp: may_unmark_def pool_inv_def details_ok_def images_of_def spenders_def outputs_of_def)

lemma removeTransaction_ok:
  assumes p: "pool_inv p" and t: "t \<in> set (m_transactions p)"
  shows "\<exists>p'. removeTransaction C t p = Some p' \<and> pool_inv p' \<and> m_transactions p' = without t (m_transactions p)
    \<and> m_recentlyDeletedTransactions p' = m_recentlyDeletedTransactions p"
proof -
  let ?ts = "m_transactions p"
  have ok: "details_ok ?ts" using p by (simp add: pool_inv_def)
  obtain r ai where ai: "ai_remove C (td_tx t) (td_id t) (m_addressindex p) = Some (r, ai)" using ai_total(2) by blast
  define p' where "p' = (unmark_spent (td_id t) (td_keptByBlock t) (tx_inputs (td_tx t)) p)
    \<lparr>m_paymentIdIndex := snd (pii_remove (td_tx t) (td_id t) (m_paymentIdIndex p)), m_addressindex := ai,
     m_timestampIndex := snd (tti_remove (td_receiveTime t) (td_id t) (m_timestampIndex p)),
     m_validated_transactions := m_validated_transactions p - {td_id t}, m_transactions := without t ?ts\<rparr>"
  have "removeTransaction C t p = Some p'"
    unfolding removeTransaction_def removeTransactionInputs_ok[OF may_unmark_in[OF assms]]
    by (simp add: p'_def unmark_spent_def ai)
  moreover have "pool_inv p'"
  proof -
    have "indices_match p' (mset (without t ?ts))"
      using p unfolding pool_inv_def mset_without[OF ok t]
      by (simp add: indices_match_def p'_def unmark_spent_def pii_remove_entries tti_entries payment_entry_def)
    moreover have "m_spent_key_images p' = images_of (without t ?ts)"
      using p by (simp add: images_of_without[OF ok t] p'_def unmark_spent_def pool_inv_def cong: if_cong)
    moreover have "m_spentOutputs p' = outputs_of (without t ?ts)"
      using p by (simp add: outputs_of_without[OF ok t] p'_def unmark_spent_def pool_inv_def)
    moreover have "m_validated_transactions p' \<subseteq> td_id ` set (without t ?ts)"
      using p by (auto simp: p'_def pool_inv_def)
    ultimately show ?thesis using details_ok_filter[OF ok] by (simp add: pool_inv_def p'_def)
  qed
  ultimately show ?thesis by (simp add: p'_def unmark_spent_def)
qed

lemma txs_find_in: "txs_find h ts = Some t \<Longrightarrow> t \<in> set ts \<and> td_id t = h"
  by (auto simp: txs_find_def find_Some_iff)

lemma txs_find_none: "txs_find h ts = None \<longleftrightarrow> h \<notin> td_id ` set ts"
  by (auto simp: txs_find_def find_None_iff)

section \<open>Expiry\<close>

lemma pool_inv_recent [simp]:
  "pool_inv (p\<lparr>m_recentlyDeletedTransactions := m\<rparr>) = pool_inv p" "pool_inv (p\<lparr>m_lastWorkedTime := w\<rparr>) = pool_inv p"
  by (simp_all add: pool_inv_def indices_match_def)

definition note_deleted :: "'a Currency_scheme \<Rightarrow> u64 \<Rightarrow> TransactionDetails list \<Rightarrow> (Hash \<rightharpoonup> u64) \<Rightarrow> Hash \<rightharpoonup> u64" where
  "note_deleted cur now L m = (\<lambda>h. if m h = None \<and> (\<exists>t\<in>set L. td_id t = h \<and> expired cur now t) then Some now else m h)"

lemma expire_loop_ok:
  assumes "pool_inv p" "set L \<subseteq> set (m_transactions p)" "distinct (map td_id L)"
  shows "\<exists>p'. expire_loop C cur now L b p = Some (b \<or> (\<exists>t\<in>set L. expired cur now t), p') \<and> pool_inv p'
    \<and> m_transactions p' = filter (\<lambda>u. \<not> (expired cur now u \<and> u \<in> set L)) (m_transactions p)
    \<and> m_recentlyDeletedTransactions p' = note_deleted cur now L (m_recentlyDeletedTransactions p)"
  using assms
proof (induction L arbitrary: p b)
  case (Cons t L)
  show ?case
  proof (cases "expired cur now t")
    case True
    define m where "m = m_recentlyDeletedTransactions p"
    define q where "q = p\<lparr>m_recentlyDeletedTransactions := (if m (td_id t) = None then m(td_id t \<mapsto> now) else m)\<rparr>"
    have q: "pool_inv q" "m_transactions q = m_transactions p" using Cons.prems(1) by (simp_all add: q_def)
    obtain p1 where p1: "removeTransaction C t q = Some p1" "pool_inv p1" "m_transactions p1 = without t (m_transactions p)"
      "m_recentlyDeletedTransactions p1 = m_recentlyDeletedTransactions q"
      using removeTransaction_ok[OF q(1), of t C] Cons.prems(2) q(2) by auto
    have "set L \<subseteq> set (m_transactions p1)" using Cons.prems(2,3) unfolding p1(3) by (auto, metis imageI)
    then obtain p2 where p2: "expire_loop C cur now L True p1 = Some (True, p2)" "pool_inv p2"
        "m_transactions p2 = filter (\<lambda>u. \<not> (expired cur now u \<and> u \<in> set L)) (m_transactions p1)"
        "m_recentlyDeletedTransactions p2 = note_deleted cur now L (m_recentlyDeletedTransactions p1)"
      using Cons.IH[OF p1(2), of True] Cons.prems(3) by auto
    have ok: "details_ok (m_transactions p)" using Cons.prems(1) by (simp add: pool_inv_def)
    have "m_transactions p2 = filter (\<lambda>u. \<not> (expired cur now u \<and> u \<in> set (t # L))) (m_transactions p)"
      unfolding p2(3) p1(3) filter_filter
      by (rule filter_cong) (use True Cons.prems(2) same_id[OF ok, of _ t] in auto)
    moreover have "m_recentlyDeletedTransactions p2 = note_deleted cur now (t # L) m"
      unfolding p2(4) p1(4) using True Cons.prems(3) by (auto simp: q_def note_deleted_def fun_eq_iff)
    ultimately show ?thesis using p1(1) p2(1,2) True by (auto simp: q_def m_def Let_def)
  next
    case False
    have "m_transactions p' = filter (\<lambda>u. \<not> (expired cur now u \<and> u \<in> set (t # L))) (m_transactions p)"
      if "m_transactions p' = filter (\<lambda>u. \<not> (expired cur now u \<and> u \<in> set L)) (m_transactions p)" for p'
      unfolding that by (rule filter_cong) (use False in auto)
    moreover have "note_deleted cur now (t # L) m = note_deleted cur now L m" for m
      using False by (auto simp: note_deleted_def fun_eq_iff)
    ultimately show ?thesis using Cons.IH[OF Cons.prems(1), of b] Cons.prems(2,3) False by auto
  qed
qed (simp add: note_deleted_def)

lemma removeExpired_ok:
  assumes "pool_inv p" "mset (order (m_transactions p)) = mset (m_transactions p)"
  shows "\<exists>p'. removeExpiredTransactions C cur now order p = Some (\<exists>t\<in>set (m_transactions p). expired cur now t, p')
    \<and> pool_inv p' \<and> m_transactions p' = filter (\<lambda>t. \<not> expired cur now t) (m_transactions p)
    \<and> m_recentlyDeletedTransactions p'
      = note_deleted cur now (m_transactions p) (forget_deleted cur now (m_recentlyDeletedTransactions p))"
proof -
  let ?L = "order (m_transactions p)"
  have s: "set ?L = set (m_transactions p)" using assms(2) by (metis set_mset_mset)
  have "distinct (map td_id ?L)" using assms unfolding pool_inv_def details_ok_def
    by (metis mset_eq_imp_distinct_iff mset_map)
  moreover have "pool_inv (p\<lparr>m_recentlyDeletedTransactions := forget_deleted cur now (m_recentlyDeletedTransactions p)\<rparr>)"
    using assms(1) by simp
  ultimately obtain p' where "expire_loop C cur now ?L False
      (p\<lparr>m_recentlyDeletedTransactions := forget_deleted cur now (m_recentlyDeletedTransactions p)\<rparr>)
      = Some (\<exists>t\<in>set ?L. expired cur now t, p')" "pool_inv p'"
      "m_transactions p' = filter (\<lambda>u. \<not> (expired cur now u \<and> u \<in> set ?L)) (m_transactions p)"
      "m_recentlyDeletedTransactions p' = note_deleted cur now ?L (forget_deleted cur now (m_recentlyDeletedTransactions p))"
    using expire_loop_ok[of _ ?L C cur now False] s by fastforce
  moreover have "filter (\<lambda>u. \<not> (expired cur now u \<and> u \<in> set ?L)) (m_transactions p) = filter (\<lambda>t. \<not> expired cur now t) (m_transactions p)"
    by (rule filter_cong) (auto simp: s)
  ultimately show ?thesis unfolding removeExpiredTransactions_def by (simp add: s note_deleted_def)
qed

section \<open>Differences\<close>

definition ready_now :: "ITransactionValidator \<Rightarrow> Hash set \<Rightarrow> TransactionDetails \<Rightarrow> bool" where
  "ready_now v cache t \<longleftrightarrow> td_id t \<in> cache \<or> fst (is_transaction_ready_to_go v (td_tx t) (maxUsedBlock t) (lastFailedBlock t))"

lemma ready_loop_ok:
  assumes "distinct (map td_id ts)"
  shows "ready_loop v ts (R, cache) = (R \<union> td_id ` {t \<in> set ts. ready_now v cache t}, cache \<union> td_id ` {t \<in> set ts. ready_now v cache t})"
  using assms
proof (induction ts arbitrary: R cache)
  case (Cons t ts)
  have same: "{u \<in> set ts. ready_now v (insert (td_id t) cache) u} = {u \<in> set ts. ready_now v cache u}"
    using Cons.prems by (auto simp: ready_now_def) (metis imageI)
  show ?case
  proof (cases "td_id t \<in> cache")
    case True
    then show ?thesis using Cons by (auto simp: ready_now_def)
  next
    case False
    show ?thesis
    proof (cases "fst (is_transaction_ready_to_go v (td_tx t) (maxUsedBlock t) (lastFailedBlock t))")
      case True
      have "ready_loop v (t # ts) (R, cache) = ready_loop v ts (insert (td_id t) R, insert (td_id t) cache)"
        using True False by simp
      also have "\<dots> = (insert (td_id t) R \<union> td_id ` {u \<in> set ts. ready_now v cache u},
          insert (td_id t) cache \<union> td_id ` {u \<in> set ts. ready_now v cache u})"
        using Cons.IH[of "insert (td_id t) R" "insert (td_id t) cache"] Cons.prems by (simp add: same)
      also have "{u \<in> set (t # ts). ready_now v cache u} = insert t {u \<in> set ts. ready_now v cache u}"
        using True by (auto simp: ready_now_def)
      ultimately show ?thesis by simp
    next
      case nr: False
      have "{u \<in> set (t # ts). ready_now v cache u} = {u \<in> set ts. ready_now v cache u}"
        using nr False by (auto simp: ready_now_def)
      then show ?thesis using Cons.IH[of R cache] Cons.prems nr False by simp
    qed
  qed
qed simp

lemma get_difference_ok:
  fixes v :: ITransactionValidator
  assumes "pool_inv p" "mset (order (m_transactions p)) = mset (m_transactions p)"
  defines "R \<equiv> td_id ` {t \<in> set (m_transactions p). ready_now v (m_validated_transactions p) t}"
  shows "get_difference v order known p =
      (R - set known, set known - R, p\<lparr>m_validated_transactions := m_validated_transactions p \<union> R\<rparr>)"
    "pool_inv (p\<lparr>m_validated_transactions := m_validated_transactions p \<union> R\<rparr>)"
proof -
  let ?L = "order (m_transactions p)"
  have "set ?L = set (m_transactions p)" using assms(2) by (metis set_mset_mset)
  moreover have "distinct (map td_id ?L)" using assms(1,2) unfolding pool_inv_def details_ok_def
    by (metis mset_eq_imp_distinct_iff mset_map)
  ultimately show "get_difference v order known p =
      (R - set known, set known - R, p\<lparr>m_validated_transactions := m_validated_transactions p \<union> R\<rparr>)"
    by (simp add: get_difference_def ready_loop_ok R_def Let_def)
  show "pool_inv (p\<lparr>m_validated_transactions := m_validated_transactions p \<union> R\<rparr>)"
    using assms(1) by (auto simp: pool_inv_def R_def indices_match_def)
qed

section \<open>Block templates\<close>

definition disjoint_spends :: "TransactionDetails \<Rightarrow> TransactionDetails \<Rightarrow> bool" where
  "disjoint_spends t u \<longleftrightarrow> set (images (tx_inputs (td_tx t))) \<inter> set (images (tx_inputs (td_tx u))) = {}
    \<and> set (msig_outs (tx_inputs (td_tx t))) \<inter> set (msig_outs (tx_inputs (td_tx u))) = {}"

text \<open>No two transactions of the list, one before the other, spend a common input.\<close>

definition conflict_free :: "TransactionDetails list \<Rightarrow> bool" where
  "conflict_free ts \<longleftrightarrow> sorted_wrt disjoint_spends ts"

text \<open>What the template records of the transactions it was given.\<close>

definition template_of :: "BlockTemplate \<Rightarrow> TransactionDetails list \<Rightarrow> bool" where
  "template_of bt sel \<longleftrightarrow> bt_txHashes bt = map td_id sel \<and> conflict_free sel
    \<and> bt_keyImages bt = (\<Union>t\<in>set sel. set (images (tx_inputs (td_tx t))))
    \<and> bt_usedOutputs bt = (\<Union>t\<in>set sel. set (msig_outs (tx_inputs (td_tx t))))"

lemma template_add:
  assumes "template_of bt sel" "distinct_inputs (tx_inputs (td_tx t))"
  shows "\<exists>r bt'. bt_addTransaction (td_id t) (td_tx t) bt = Some (r, bt') \<and> template_of bt' (if r then sel @ [t] else sel)"
proof (cases "bt_canAdd (td_tx t) bt")
  case True
  then have d: "set (images (tx_inputs (td_tx t))) \<inter> bt_keyImages bt = {}" "set (msig_outs (tx_inputs (td_tx t))) \<inter> bt_usedOutputs bt = {}"
    by (simp_all add: canAdd_iff)
  have "\<forall>u\<in>set sel. disjoint_spends u t" using d assms(1) by (auto simp: template_of_def disjoint_spends_def)
  then show ?thesis using True assms(1) bt_insert_ok[OF assms(2) d]
    by (auto simp: bt_addTransaction_def template_of_def conflict_free_def sorted_wrt_append)
qed (use assms(1) in \<open>auto simp: bt_addTransaction_def\<close>)

definition clean :: "TransactionDetails \<Rightarrow> TransactionDetails" where
  "clean t = t\<lparr>maxUsedBlock := BlockInfo_clear, lastFailedBlock := BlockInfo_clear\<rparr>"

lemma clean_simps [simp]:
  "td_id (clean t) = td_id t" "td_tx (clean t) = td_tx t" "td_blobSize (clean t) = td_blobSize t" "td_fee (clean t) = td_fee t"
  "td_keptByBlock (clean t) = td_keptByBlock t" "td_receiveTime (clean t) = td_receiveTime t" "priority_less (clean t) (clean u) = priority_less t u"
  by (simp_all add: clean_def priority_less_def)

text \<open>A transaction that a template may take.\<close>

definition minable :: "ITransactionValidator \<Rightarrow> PoolCore \<Rightarrow> Hash set \<Rightarrow> TransactionDetails \<Rightarrow> bool" where
  "minable v core cache t \<longleftrightarrow> ready_now v cache t
    \<and> core_check_tx_fee core (td_tx t) (td_blobSize t) (get_current_blockchain_height core)"

lemma fill_step_ok:
  assumes "template_of (fs_template s) sel" "distinct_inputs (tx_inputs (td_tx t))" "fs_total_size s \<le> max median max_total"
  obtains t' s' r where "fill_step v core median max_total t s = Some (t', s')" "clean t' = clean t"
    "template_of (fs_template s') (if r then sel @ [t] else sel)"
    "fs_total_size s' = fs_total_size s + (if r then td_blobSize t else 0)" "fs_fee s' = fs_fee s + (if r then td_fee t else 0)"
    "fs_total_size s' \<le> max median max_total" "r \<Longrightarrow> minable v core (fs_cache s) t"
    "fs_cache s' = fs_cache s \<or> fs_cache s' = insert (td_id t) (fs_cache s)"
proof -
  let ?limit = "if td_fee t = 0 then median else max_total"
  obtain rdy used failed where g: "is_transaction_ready_to_go v (td_tx t) (maxUsedBlock t) (lastFailedBlock t) = (rdy, used, failed)"
    using prod_cases3 by blast
  obtain r bt where bt: "bt_addTransaction (td_id t) (td_tx t) (fs_template s) = Some (r, bt)" "template_of bt (if r then sel @ [t] else sel)"
    using template_add[OF assms(1,2)] by blast
  have lim: "?limit \<le> max median max_total" by simp
  show ?thesis
  proof (cases "?limit < fs_total_size s + td_blobSize t \<or> \<not> core_check_tx_fee core (td_tx t) (td_blobSize t) (get_current_blockchain_height core)")
    case True
    then show ?thesis using assms by (intro that[of t s False]) (auto simp: fill_step_def)
  next
    case no: False
    then have tot: "fs_total_size s + td_blobSize t \<le> max median max_total" using lim by (meson not_less order_trans)
    show ?thesis
    proof (cases "td_id t \<in> fs_cache s")
      case True
      then show ?thesis using no tot bt assms(3)
        by (intro that[of t "(s\<lparr>fs_template := bt\<rparr>)\<lparr>fs_total_size := fs_total_size s + (if r then td_blobSize t else 0),
            fs_fee := fs_fee s + (if r then td_fee t else 0)\<rparr>" r])
          (auto simp: fill_step_def minable_def ready_now_def)
    next
      case False
      then show ?thesis using no tot bt assms g
        by (intro that[of "t\<lparr>maxUsedBlock := used, lastFailedBlock := failed\<rparr>"
            "(s\<lparr>fs_template := if rdy then bt else fs_template s, fs_cache := if rdy then insert (td_id t) (fs_cache s) else fs_cache s\<rparr>)
              \<lparr>fs_total_size := fs_total_size s + (if rdy \<and> r then td_blobSize t else 0),
               fs_fee := fs_fee s + (if rdy \<and> r then td_fee t else 0)\<rparr>" "rdy \<and> r"])
          (auto simp: fill_step_def minable_def ready_now_def clean_def)
    qed
  qed
qed

definition total_size :: "TransactionDetails list \<Rightarrow> nat" where
  "total_size ts = sum_list (map (unat \<circ> td_blobSize) ts)"

lemma total_size_simps [simp]: "total_size [] = 0" "total_size (t # ts) = unat (td_blobSize t) + total_size ts"
  by (simp_all add: total_size_def)

lemma fill_loop_ok:
  assumes "template_of (fs_template s) sel" "\<forall>t\<in>set ts. distinct_inputs (tx_inputs (td_tx t))" "distinct (map td_id ts)"
    "fs_total_size s \<le> max median max_total" "unat (fs_total_size s) + total_size ts < 2 ^ 64"
  shows "\<exists>ts' s' new. fill_loop v core median max_total ts s = Some (ts', s') \<and> map clean ts' = map clean ts
    \<and> subseq new ts \<and> template_of (fs_template s') (sel @ new)
    \<and> unat (fs_total_size s') = unat (fs_total_size s) + total_size new \<and> fs_total_size s' \<le> max median max_total
    \<and> fs_fee s' = fs_fee s + sum_list (map td_fee new) \<and> list_all (minable v core (fs_cache s)) new
    \<and> fs_cache s' \<subseteq> fs_cache s \<union> td_id ` set ts"
  using assms
proof (induction ts arbitrary: s sel)
  case Nil
  then show ?case by (intro exI[of _ "[]"] exI[of _ s]) simp
next
  case (Cons t ts)
  obtain t' s' r where st: "fill_step v core median max_total t s = Some (t', s')" "clean t' = clean t"
    "template_of (fs_template s') (if r then sel @ [t] else sel)"
    "fs_total_size s' = fs_total_size s + (if r then td_blobSize t else 0)" "fs_fee s' = fs_fee s + (if r then td_fee t else 0)"
    "fs_total_size s' \<le> max median max_total" "r \<Longrightarrow> minable v core (fs_cache s) t"
    "fs_cache s' = fs_cache s \<or> fs_cache s' = insert (td_id t) (fs_cache s)"
    by (rule fill_step_ok[OF Cons.prems(1) _ Cons.prems(4), of t v core]) (use Cons.prems(2) in auto)
  have sz: "unat (fs_total_size s') = unat (fs_total_size s) + (if r then unat (td_blobSize t) else 0)"
    using Cons.prems(5) st(4) by (auto simp: unat_plus)
  have "unat (fs_total_size s') + total_size ts < 2 ^ 64" using Cons.prems(5) sz by (auto split: if_splits)
  then obtain ts' s'' new where IH: "fill_loop v core median max_total ts s' = Some (ts', s'')" "map clean ts' = map clean ts"
    "subseq new ts" "template_of (fs_template s'') ((if r then sel @ [t] else sel) @ new)"
    "unat (fs_total_size s'') = unat (fs_total_size s') + total_size new" "fs_total_size s'' \<le> max median max_total"
    "fs_fee s'' = fs_fee s' + sum_list (map td_fee new)" "list_all (minable v core (fs_cache s')) new"
    "fs_cache s'' \<subseteq> fs_cache s' \<union> td_id ` set ts"
    using Cons.IH[OF st(3) _ _ st(6)] Cons.prems(2,3) by auto
  have "minable v core (fs_cache s) u" if "u \<in> set new" for u
  proof -
    have "u \<in> set ts" using IH(3) that by (metis subseq_order.trans subseq_singleton_left)
    then have "td_id u \<noteq> td_id t" using Cons.prems(3) by (auto simp: image_iff)
    moreover have "minable v core (fs_cache s') u" using IH(8) that by (simp add: list_all_iff)
    ultimately show ?thesis using st(8) by (auto simp: minable_def ready_now_def)
  qed
  then have m: "list_all (minable v core (fs_cache s)) (if r then t # new else new)" using st(7) by (auto simp: list_all_iff)
  have "fill_loop v core median max_total (t # ts) s = Some (t' # ts', s'')" using st(1) IH(1) by simp
  moreover have "map clean (t' # ts') = map clean (t # ts)" using st(2) IH(2) by simp
  moreover have "subseq (if r then t # new else new) (t # ts)" using IH(3) by auto
  moreover have "template_of (fs_template s'') (sel @ (if r then t # new else new))" using IH(4) by (cases r) simp_all
  moreover have "unat (fs_total_size s'') = unat (fs_total_size s) + total_size (if r then t # new else new)" using IH(5) sz by auto
  moreover have "fs_fee s'' = fs_fee s + sum_list (map td_fee (if r then t # new else new))" using IH(7) st(5) by auto
  moreover have "fs_cache s'' \<subseteq> fs_cache s \<union> td_id ` set (t # ts)" using IH(9) st(8) by auto
  ultimately show ?case using IH(6) m by metis
qed

text \<open>The invariant does not look at the blocks in which a transaction was checked.\<close>

lemma by_priority_clean: "by_priority (map clean ts) = by_priority ts"
  by (simp add: by_priority_def sorted_wrt_map)

lemma clean_image: "map clean ts' = map clean ts \<Longrightarrow> (\<And>t. f (clean t) = f t) \<Longrightarrow> map f ts' = map f ts"
  by (metis (no_types, lifting) map_map o_def map_cong)

lemma pool_inv_clean: "pool_inv (p\<lparr>m_transactions := map clean (m_transactions p)\<rparr>) = pool_inv p"
proof -
  have "spenders (map clean ts) k = spenders ts k" for ts k by (auto simp: spenders_def image_iff) (metis clean_simps(1,2))
  then have "images_of (map clean ts) = images_of ts" for ts by (simp add: images_of_def fun_eq_iff)
  moreover have "outputs_of (map clean ts) = outputs_of ts" for ts by (auto simp: outputs_of_def)
  moreover have "no_double_spend (map clean ts) = no_double_spend ts" for ts by (simp add: no_double_spend_def)
  moreover have "map td_id (map clean ts) = map td_id ts" for ts by simp
  moreover have "payment_entry (clean t) = payment_entry t" for t by (simp add: payment_entry_def split: option.split)
  ultimately show ?thesis
    by (simp add: pool_inv_def details_ok_def by_priority_clean indices_match_def multiset.map_comp o_def image_image)
qed

lemma fill_block_template_ok:
  fixes cur :: "'a Currency_scheme"
  assumes p: "pool_inv p" and sz: "total_size (m_transactions p) < 2 ^ 64"
    and maxsize: "maxsize = min ((125 * median_size) div 100) maxCumulativeSize - m_minerTxBlobReservedSize cur"
  shows "\<exists>sz fee p' sel. fill_block_template cur v core bl median_size maxCumulativeSize p
      = Some (bl\<lparr>blk_transactionHashes := map td_id sel\<rparr>, sz, fee, p')
    \<and> pool_inv p' \<and> map clean (m_transactions p') = map clean (m_transactions p)
    \<and> subseq sel (m_transactions p) \<and> conflict_free sel \<and> list_all (minable v core (m_validated_transactions p)) sel
    \<and> unat sz = total_size sel \<and> sz \<le> max median_size maxsize \<and> fee = sum_list (map td_fee sel)"
proof -
  let ?s = "\<lparr>fs_template = BlockTemplate_init, fs_total_size = 0, fs_fee = 0, fs_cache = m_validated_transactions p\<rparr>"
  have "template_of (fs_template ?s) []" by (simp add: template_of_def BlockTemplate_init_def conflict_free_def)
  then obtain ts' s' sel where f: "fill_loop v core median_size maxsize (m_transactions p) ?s = Some (ts', s')"
    "map clean ts' = map clean (m_transactions p)" "subseq sel (m_transactions p)" "template_of (fs_template s') sel"
    "unat (fs_total_size s') = total_size sel" "fs_total_size s' \<le> max median_size maxsize"
    "fs_fee s' = sum_list (map td_fee sel)" "list_all (minable v core (m_validated_transactions p)) sel"
    "fs_cache s' \<subseteq> m_validated_transactions p \<union> td_id ` set (m_transactions p)"
    using fill_loop_ok[of ?s "[]" "m_transactions p" median_size maxsize v core] p sz
    by (auto simp: pool_inv_def details_ok_def)
  define p' where "p' = p\<lparr>m_transactions := ts', m_validated_transactions := fs_cache s'\<rparr>"
  have "pool_inv (p\<lparr>m_transactions := map clean ts'\<rparr>)" unfolding f(2) using p by (simp add: pool_inv_clean)
  moreover have "td_id ` set ts' = td_id ` set (m_transactions p)"
    using clean_image[OF f(2), of td_id] by (metis clean_simps(1) image_set)
  moreover have "pool_inv p' = pool_inv (p'\<lparr>m_transactions := map clean (m_transactions p')\<rparr>)" by (simp only: pool_inv_clean)
  ultimately have "pool_inv p'" using p f(9)
    by (simp add: p'_def pool_inv_def indices_match_def image_image) blast
  moreover have "bt_txHashes (fs_template s') = map td_id sel" "conflict_free sel" using f(4) by (simp_all add: template_of_def)
  moreover have "fill_block_template cur v core bl median_size maxCumulativeSize p
      = Some (bl\<lparr>blk_transactionHashes := bt_txHashes (fs_template s')\<rparr>, fs_total_size s', fs_fee s', p')"
    using f(1) by (simp add: fill_block_template_def p'_def maxsize Let_def)
  ultimately show ?thesis using f(2,3,5,6,7,8) by (auto simp: p'_def)
qed

section \<open>Reachable pools\<close>

text \<open>
  The pools that the calls of the node can produce. The core hands a transaction to the pool only when
  its inputs are distinct, and a transaction is never empty.
\<close>

inductive pool_reachable :: "Crypto \<Rightarrow> 'a Currency_scheme \<Rightarrow> bool \<Rightarrow> tx_memory_pool \<Rightarrow> bool" for C cur b where
  reach_init: "pool_reachable C cur b (tx_memory_pool_init b)"
| reach_add: "pool_reachable C cur b p \<Longrightarrow> distinct_inputs (tx_inputs tx) \<Longrightarrow> 0 < blobSize
    \<Longrightarrow> add_tx C cur v height now tx h blobSize tvc kept p = Some (ok, tvc', p') \<Longrightarrow> pool_reachable C cur b p'"
| reach_take: "pool_reachable C cur b p \<Longrightarrow> take_tx C h p = Some (r, p') \<Longrightarrow> pool_reachable C cur b p'"
| reach_difference: "pool_reachable C cur b p \<Longrightarrow> mset (order (m_transactions p)) = mset (m_transactions p)
    \<Longrightarrow> get_difference v order known p = (new, deleted, p') \<Longrightarrow> pool_reachable C cur b p'"
| reach_fill: "pool_reachable C cur b p \<Longrightarrow> total_size (m_transactions p) < 2 ^ 64
    \<Longrightarrow> fill_block_template cur v core bl median_size maxCumulativeSize p = Some (bl', sz, fee, p') \<Longrightarrow> pool_reachable C cur b p'"
| reach_idle: "pool_reachable C cur b p \<Longrightarrow> mset (order (m_transactions p)) = mset (m_transactions p)
    \<Longrightarrow> pool_on_idle C cur order before during after p = Some (removed, p') \<Longrightarrow> pool_reachable C cur b p'"
| reach_inc: "pool_reachable C cur b p \<Longrightarrow> pool_reachable C cur b (on_blockchain_inc p)"
| reach_dec: "pool_reachable C cur b p \<Longrightarrow> pool_reachable C cur b (on_blockchain_dec p)"

lemma take_tx_ok:
  assumes "pool_inv p"
  shows "take_tx C h p = Some (None, p) \<and> \<not> have_tx h p
    \<or> (\<exists>t p'. t \<in> set (m_transactions p) \<and> td_id t = h \<and> take_tx C h p = Some (Some (td_tx t, td_blobSize t, td_fee t), p')
        \<and> pool_inv p' \<and> m_transactions p' = without t (m_transactions p))"
proof (cases "txs_find h (m_transactions p)")
  case None
  then show ?thesis using txs_find_none[of h "m_transactions p"] by (simp add: take_tx_def have_tx_def)
next
  case (Some t)
  then show ?thesis using removeTransaction_ok[OF assms, of t C] txs_find_in[OF Some] by (auto simp: take_tx_def)
qed

lemma idle_ok:
  assumes "pool_inv p" "mset (order (m_transactions p)) = mset (m_transactions p)"
    "pool_on_idle C cur order before during after p = Some (removed, p')"
  shows "pool_inv p'"
  using removeExpired_ok[of p order C cur during, OF assms(1,2)] assms by (auto simp: pool_on_idle_def split: if_splits)

lemma inc_dec_inv: "pool_inv p \<Longrightarrow> pool_inv (on_blockchain_inc p)" "pool_inv p \<Longrightarrow> pool_inv (on_blockchain_dec p)"
  by (auto simp: on_blockchain_inc_def on_blockchain_dec_def pool_inv_def indices_match_def)

lemma reachable_inv: "pool_reachable C cur b p \<Longrightarrow> pool_inv p"
proof (induction rule: pool_reachable.induct)
  case (reach_add p tx blobSize v height now h tvc kept ok tvc' p')
  show ?case by (rule add_tx_inv[OF reach_add.IH reach_add.hyps(2-4)])
next
  case (reach_take p h r p')
  then show ?case using take_tx_ok[OF reach_take.IH, of C h] by auto
next
  case (reach_difference p order v known new deleted p')
  then show ?case using get_difference_ok(1)[of p order v known, OF reach_difference.IH reach_difference.hyps(2)]
      get_difference_ok(2)[of p order v, OF reach_difference.IH reach_difference.hyps(2)] by simp
next
  case (reach_fill p v core bl median_size maxCumulativeSize bl' sz fee p')
  then show ?case using fill_block_template_ok[OF reach_fill.IH reach_fill.hyps(2) refl, of cur v core bl median_size maxCumulativeSize] by auto
next
  case (reach_idle p order before during after removed p')
  then show ?case using idle_ok by blast
qed (simp_all add: pool_inv_init inc_dec_inv)

lemma txs_insert_without: "txs_insert t ts = (True, ts') \<Longrightarrow> without t ts' = ts"
proof -
  assume *: "txs_insert t ts = (True, ts')"
  have "without t (takeWhile Q ts @ t # dropWhile Q ts) = ts" if "td_id t \<notin> td_id ` set ts" for Q
  proof -
    have "filter (\<lambda>u. td_id u \<noteq> td_id t) ts = ts" using that by (auto simp: filter_id_conv image_iff)
    moreover have "filter P (takeWhile Q ts @ dropWhile Q ts) = filter P ts" for P by simp
    ultimately show ?thesis by (simp only: filter_append filter.simps) simp
  qed
  then show ?thesis using * by (auto simp: txs_insert_def split: if_splits)
qed

lemma add_tx_recently_deleted:
  assumes "m_recentlyDeletedTransactions p h \<noteq> None" "add_tx C cur v height now tx h blobSize tvc False p = Some (ok, tvc', p')"
  shows "p' = p"
  using assms by (auto simp: add_tx_def Let_def bind_eq_Some_conv case_prod_beta split: if_splits)

section \<open>Properties\<close>

definition sample_validator :: ITransactionValidator where
  "sample_validator = \<lparr>checkTransactionInputs_max = (\<lambda>tx b. (True, b)), checkTransactionInputs_last = (\<lambda>tx b c. (True, b, c)),
    haveSpentKeyImages = (\<lambda>tx. False), checkTransactionSize = (\<lambda>n. True)\<rparr>"

definition sample_core :: PoolCore where
  "sample_core = \<lparr>get_current_blockchain_height = 5, core_check_tx_fee = (\<lambda>tx n h. True)\<rparr>"

definition sample_tvc :: tx_verification_context where
  "sample_tvc = \<lparr>m_should_be_relayed = False, m_verification_failed = False, m_verification_impossible = False,
    m_added_to_pool = False, m_tx_fee_too_small = False\<rparr>"

definition spend_tx :: Transaction where
  "spend_tx = sample_coinbase\<lparr>tx_inputs := [KeyInput 9 [1, 2] (replicate 32 4)], tx_outputs := [], tx_signatures := [[]]\<rparr>"

definition sample_pool :: tx_memory_pool where
  "sample_pool = entered (new_details 10 BlockInfo_clear spend_tx (replicate 32 7) 80 False)
    [new_details 10 BlockInfo_clear spend_tx (replicate 32 7) 80 False] \<lparr>hi_enabled = False, hi_index = []\<rparr> (tx_memory_pool_init False)"

lemma sample_add:
  "add_tx sample_crypto sample_currency sample_validator 5 10 spend_tx (replicate 32 7) 80 sample_tvc False (tx_memory_pool_init False)
    = Some (True, sample_tvc\<lparr>m_added_to_pool := True, m_should_be_relayed := True\<rparr>, sample_pool)"
  by (simp add: add_tx_def sample_validator_def sample_core_def sample_tvc_def spend_tx_def sample_pool_def entered_def new_details_def
      tx_memory_pool_init_def check_inputs_types_supported_def get_inputs_money_amount_def get_outs_money_amount_def
      pool_haveSpentInputs_def txs_insert_def ai_add_def pii_add_def tti_add_def mark_spent_def Let_def fun_eq_iff)

lemma sample_reachable: "pool_reachable sample_crypto sample_currency False sample_pool"
  by (rule reach_add[OF reach_init _ _ sample_add]) (simp_all add: spend_tx_def distinct_inputs_def)

lemma sample_transactions: "m_transactions sample_pool = [new_details 10 BlockInfo_clear spend_tx (replicate 32 7) 80 False]"
  by (simp add: sample_pool_def entered_def mark_spent_def)

text \<open>
  C8: in every pool that the calls of the node can produce, the ids are distinct, the transactions are in the
  order of price, size and age, no two transactions that came from the network spend a common input, the
  tables of spent key images and of spent outputs are exactly those of the transactions in the pool, only
  transactions of the pool are cached as validated, and the indices of payment ids and of times match.
\<close>

theorem memory_pool_invariant:
  assumes "pool_reachable C cur b p"
  shows "distinct (map td_id (m_transactions p)) \<and> by_priority (m_transactions p) \<and> no_double_spend (m_transactions p)
    \<and> m_spent_key_images p = images_of (m_transactions p) \<and> m_spentOutputs p = outputs_of (m_transactions p)
    \<and> m_validated_transactions p \<subseteq> td_id ` set (m_transactions p) \<and> indices_match p (mset (m_transactions p))"
  using reachable_inv[OF assms] by (simp add: pool_inv_def details_ok_def)

theorem memory_pool_invariant_witness:
  "m_spent_key_images sample_pool = images_of (m_transactions sample_pool) \<and> m_transactions sample_pool \<noteq> []"
  using memory_pool_invariant[OF sample_reachable] sample_transactions by simp

text \<open>
  C10: adding a transaction with distinct inputs to a reachable pool either leaves the pool as it is, or
  enters it completely and without error; then it is in the pool with its id, its size and the
  difference of its inputs and outputs as fee, and taking it out returns it and restores the list.
\<close>

theorem add_tx_all_or_nothing:
  assumes "pool_reachable C cur b p" "distinct_inputs (tx_inputs tx)" "0 < blobSize"
    "add_tx C cur v height now tx h blobSize tvc kept p = Some (ok, tvc', p')"
  shows "p' = p \<and> \<not> (ok \<and> m_added_to_pool tvc')
    \<or> ok \<and> m_added_to_pool tvc' \<and> \<not> m_verification_failed tvc' \<and> \<not> have_tx h p
      \<and> (kept \<or> \<not> pool_haveSpentInputs tx p \<and> fst (checkTransactionInputs_max v tx BlockInfo_clear) \<and> checkTransactionSize v blobSize)
      \<and> (\<exists>q. take_tx C h p' = Some (Some (tx, blobSize, get_inputs_money_amount tx - get_outs_money_amount tx), q)
          \<and> m_transactions q = m_transactions p)"
proof -
  have p: "pool_inv p" by (rule reachable_inv[OF assms(1)])
  show ?thesis
  proof (cases "p' = p \<and> \<not> (ok \<and> m_added_to_pool tvc')")
    case False
    then obtain used ts ai where n: "fits (new_details now used tx h blobSize kept) p"
        "txs_insert (new_details now used tx h blobSize kept) (m_transactions p) = (True, ts)"
        "p' = entered (new_details now used tx h blobSize kept) ts ai p"
        "ok" "m_added_to_pool tvc'" "\<not> m_verification_failed tvc'"
        "kept \<or> fst (checkTransactionInputs_max v tx BlockInfo_clear) \<and> checkTransactionSize v blobSize"
      using add_tx_cases[OF p assms(2-4)] by blast
    have new: "h \<notin> td_id ` set (m_transactions p)"
      and ts: "set ts = insert (new_details now used tx h blobSize kept) (set (m_transactions p))"
      using n(2) set_txs_insert[OF n(2)] by (auto simp: txs_insert_def split: if_splits)
    have p'ts: "m_transactions p' = ts" by (simp add: n(3) entered_def mark_spent_def)
    have inv: "pool_inv p'" by (rule add_tx_inv[OF p assms(2-4)])
    have "have_tx h p'" by (simp add: have_tx_def p'ts ts)
    then obtain t q where t: "t \<in> set ts" "td_id t = h" "take_tx C h p' = Some (Some (td_tx t, td_blobSize t, td_fee t), q)"
        "m_transactions q = without t ts"
      using take_tx_ok[OF inv, of C h] p'ts by auto
    have "t = new_details now used tx h blobSize kept" using t(1,2) new ts by (auto simp: image_iff)
    moreover from this have "without t ts = m_transactions p" using txs_insert_without[OF n(2)] by simp
    ultimately show ?thesis using n new t by (auto simp: have_tx_def fits_def)
  qed simp
qed

theorem add_tx_all_or_nothing_witness:
  "\<exists>q. take_tx sample_crypto (replicate 32 7) sample_pool = Some (Some (spend_tx, 80, 9), q) \<and> m_transactions q = []"
proof -
  have "distinct_inputs (tx_inputs spend_tx)" by (simp add: spend_tx_def distinct_inputs_def)
  from add_tx_all_or_nothing[OF reach_init this _ sample_add] show ?thesis
    by (simp add: spend_tx_def get_inputs_money_amount_def get_outs_money_amount_def tx_memory_pool_init_def)
qed

text \<open>
  C9: the block template of a reachable pool whose sizes add up to less than 2 to the 64 takes a part of the
  pool in its order; no two of the chosen transactions spend a common input, each was found ready and pays
  its fee; the reported size and fee are their sums, the size is within the limit, and no assertion fails.
\<close>

theorem block_template_sound:
  assumes "pool_reachable C cur b p" "total_size (m_transactions p) < 2 ^ 64"
  shows "\<exists>sz fee p' sel. fill_block_template cur v core bl median_size maxCumulativeSize p
      = Some (bl\<lparr>blk_transactionHashes := map td_id sel\<rparr>, sz, fee, p')
    \<and> subseq sel (m_transactions p) \<and> conflict_free sel \<and> list_all (minable v core (m_validated_transactions p)) sel
    \<and> unat sz = total_size sel \<and> fee = sum_list (map td_fee sel)
    \<and> sz \<le> max median_size (min ((125 * median_size) div 100) maxCumulativeSize - m_minerTxBlobReservedSize cur)"
  using fill_block_template_ok[OF reachable_inv[OF assms(1)] assms(2) refl, of cur v core bl median_size maxCumulativeSize] by blast

theorem block_template_sound_witness:
  "\<exists>sz fee p' sel. fill_block_template sample_currency sample_validator sample_core sample_block 1000 2000 sample_pool
      = Some (sample_block\<lparr>blk_transactionHashes := map td_id sel\<rparr>, sz, fee, p') \<and> conflict_free sel \<and> sz \<le> 1000"
proof -
  have "total_size (m_transactions sample_pool) < 2 ^ 64" by (simp add: sample_transactions)
  from block_template_sound[OF sample_reachable this, of sample_validator sample_core sample_block 1000 2000]
  show ?thesis by (fastforce simp: sample_currency_simps)
qed

text \<open>
  C31: the periodic cleaning removes exactly the transactions that are too old, keeps the others in their
  order, tells the observers exactly when it removed one, and a removed transaction that comes from the
  network again with the same id is not entered.
\<close>

theorem expired_transactions_leave:
  assumes "pool_reachable C cur b p" "mset (order (m_transactions p)) = mset (m_transactions p)"
  shows "\<exists>p'. removeExpiredTransactions C cur now order p = Some (\<exists>t\<in>set (m_transactions p). expired cur now t, p')
    \<and> m_transactions p' = filter (\<lambda>t. \<not> expired cur now t) (m_transactions p)
    \<and> (\<forall>t\<in>set (m_transactions p). expired cur now t \<longrightarrow> \<not> have_tx (td_id t) p'
      \<and> (\<forall>r. add_tx C cur v height later tx (td_id t) blobSize tvc False p' = Some r \<longrightarrow> snd (snd r) = p'))"
proof -
  have p: "pool_inv p" by (rule reachable_inv[OF assms(1)])
  obtain p' where p': "removeExpiredTransactions C cur now order p = Some (\<exists>t\<in>set (m_transactions p). expired cur now t, p')"
    "m_transactions p' = filter (\<lambda>t. \<not> expired cur now t) (m_transactions p)"
    "m_recentlyDeletedTransactions p' = note_deleted cur now (m_transactions p) (forget_deleted cur now (m_recentlyDeletedTransactions p))"
    using removeExpired_ok[of p order C cur now, OF p assms(2)] by blast
  have "\<not> have_tx (td_id t) p'" if "t \<in> set (m_transactions p)" "expired cur now t" for t
    using that p same_id[of "m_transactions p" t] by (auto simp: have_tx_def p'(2) pool_inv_def)
  moreover have "snd (snd r) = p'" if "t \<in> set (m_transactions p)" "expired cur now t"
    "add_tx C cur v height later tx (td_id t) blobSize tvc False p' = Some r" for t r
  proof -
    have "m_recentlyDeletedTransactions p' (td_id t) \<noteq> None" using that(1,2) unfolding p'(3) note_deleted_def by auto
    then show ?thesis using add_tx_recently_deleted[of p' "td_id t"] that(3) by (cases r) auto
  qed
  ultimately show ?thesis using p'(1,2) by blast
qed

theorem expired_transactions_leave_witness:
  "\<exists>p'. removeExpiredTransactions sample_crypto sample_currency 1000000 rev sample_pool = Some (True, p') \<and> m_transactions p' = []"
proof -
  let ?t = "new_details 10 BlockInfo_clear spend_tx (replicate 32 7) 80 False"
  have "mset (rev (m_transactions sample_pool)) = mset (m_transactions sample_pool)" by simp
  from expired_transactions_leave[where order = rev and now = 1000000, OF sample_reachable this]
  have "\<exists>p'. removeExpiredTransactions sample_crypto sample_currency 1000000 rev sample_pool
      = Some (\<exists>t\<in>set (m_transactions sample_pool). expired sample_currency 1000000 t, p')
    \<and> m_transactions p' = filter (\<lambda>t. \<not> expired sample_currency 1000000 t) (m_transactions sample_pool)" by blast
  moreover have "expired sample_currency 1000000 ?t" by (simp add: expired_def sample_currency_simps)
  ultimately show ?thesis by (simp add: sample_transactions)
qed

end
