(* ===== verification/BlockchainTables.thy ===== *)
theory BlockchainTables
  imports MemoryPoolInvariant
begin

text \<open>
  The tables that \<open>src/src/DynexCNCore/Blockchain.cpp\<close> keeps beside the blocks: the spent key images, the
  outputs of an amount, the multisignature outputs with their use, the place of every transaction and two of
  the indices; and \<open>pushTransaction\<close> and \<open>popTransaction\<close>, which enter a transaction and take it out again.
  \<open>None\<close> stands for an exception, an access outside a container or a loop that does not end.
\<close>

section \<open>Data\<close>

record TransactionIndex =
  ti_block :: u32
  ti_transaction :: u16

record MultisignatureOutputUsage =
  mu_transactionIndex :: TransactionIndex
  mu_outputIndex :: u16
  mu_isUsed :: bool

record TransactionEntry =
  te_tx :: Transaction
  te_global_output_indexes :: "u32 list"

record ChainTables =
  spentKeyImages :: "KeyImage \<rightharpoonup> u32"
  m_outputs :: "u64 \<rightharpoonup> (TransactionIndex \<times> u16) list"
  m_multisignatureOutputs :: "u64 \<rightharpoonup> MultisignatureOutputUsage list"
  m_transactionMap :: "Hash \<rightharpoonup> TransactionIndex"
  bc_paymentIdIndex :: "Hash HashIndex"
  bc_addressindex :: "string HashIndex"

text \<open>The subscript operator of a hash map, which creates an empty vector.\<close>

definition vec :: "(u64 \<rightharpoonup> 'v list) \<Rightarrow> u64 \<Rightarrow> 'v list" where
  "vec m a = (case m a of None \<Rightarrow> [] | Some xs \<Rightarrow> xs)"

section \<open>pushTransaction\<close>

text \<open>
  The loop over the key images; \<open>valid\<close> is \<open>check_tx_inputs_keyimages_domain\<close> and \<open>done\<close> the inputs before,
  the last one first. After a double spend the key images of the inputs before are erased again.
\<close>

fun undo_images :: "TransactionInput list \<Rightarrow> (KeyImage \<rightharpoonup> u32) \<Rightarrow> (KeyImage \<rightharpoonup> u32) option" where
  "undo_images [] spent = Some spent"
| "undo_images (i # ins) spent =
    (case i of
       KeyInput amount indexes keyImage \<Rightarrow> if spent keyImage = None then None else undo_images ins (spent(keyImage := None))
     | _ \<Rightarrow> None)"

fun push_images :: "(KeyImage \<Rightarrow> bool) \<Rightarrow> u32 \<Rightarrow> TransactionInput list \<Rightarrow> TransactionInput list \<Rightarrow> (KeyImage \<rightharpoonup> u32)
    \<Rightarrow> (bool \<times> (KeyImage \<rightharpoonup> u32)) option" where
  "push_images valid height done [] spent = Some (True, spent)"
| "push_images valid height done (i # ins) spent =
    (case i of
       KeyInput amount indexes keyImage \<Rightarrow>
         if valid keyImage \<and> spent keyImage \<noteq> None then do { spent \<leftarrow> undo_images done spent; Some (False, spent) }
         else push_images valid height (i # done) ins (if spent keyImage = None then spent(keyImage \<mapsto> height) else spent)
     | _ \<Rightarrow> push_images valid height (i # done) ins spent)"

fun set_used :: "bool \<Rightarrow> TransactionInput list \<Rightarrow> (u64 \<rightharpoonup> MultisignatureOutputUsage list) \<Rightarrow> (u64 \<rightharpoonup> MultisignatureOutputUsage list) option" where
  "set_used u [] m = Some m"
| "set_used u (i # ins) m =
    (case i of
       MultisignatureInput amount n outputIndex \<Rightarrow>
         (let us = vec m amount in
          if unat outputIndex < length us
          then set_used u ins (m(amount \<mapsto> us[unat outputIndex := (us ! unat outputIndex)\<lparr>mu_isUsed := u\<rparr>]))
          else None)
     | _ \<Rightarrow> set_used u ins m)"

type_synonym OutputTables = "(u64 \<rightharpoonup> (TransactionIndex \<times> u16) list) \<times> (u64 \<rightharpoonup> MultisignatureOutputUsage list)"

definition push_output :: "TransactionIndex \<Rightarrow> u16 \<Rightarrow> TransactionOutput \<Rightarrow> OutputTables \<Rightarrow> OutputTables" where
  "push_output ti output out = (\<lambda>(m, ms). case out_target out of
      KeyOutput key \<Rightarrow> (m(out_amount out \<mapsto> vec m (out_amount out) @ [(ti, output)]), ms)
    | MultisignatureOutput keys n \<Rightarrow> (m, ms(out_amount out \<mapsto> vec ms (out_amount out)
        @ [\<lparr>mu_transactionIndex = ti, mu_outputIndex = output, mu_isUsed = False\<rparr>])))"

text \<open>The position of an output among those of its amount.\<close>

definition global_index :: "TransactionOutput \<Rightarrow> OutputTables \<Rightarrow> u32" where
  "global_index out = (\<lambda>(m, ms). case out_target out of
      KeyOutput key \<Rightarrow> word_of_nat (length (vec m (out_amount out)))
    | MultisignatureOutput keys n \<Rightarrow> word_of_nat (length (vec ms (out_amount out))))"

fun push_outputs :: "TransactionIndex \<Rightarrow> u16 \<Rightarrow> TransactionOutput list \<Rightarrow> OutputTables \<Rightarrow> u32 list \<times> OutputTables" where
  "push_outputs ti output [] t = ([], t)"
| "push_outputs ti output (out # outs) t =
    (let (gs, t') = push_outputs ti (output + 1) outs (push_output ti output out t) in (global_index out t # gs, t'))"

text \<open>The counter of the outputs has 16 bits, so the loop ends only for fewer than 65536 outputs.\<close>

definition pushTransaction :: "Crypto \<Rightarrow> (KeyImage \<Rightarrow> bool) \<Rightarrow> u32 \<Rightarrow> TransactionEntry \<Rightarrow> Hash \<Rightarrow> TransactionIndex
    \<Rightarrow> 'a ChainTables_scheme \<Rightarrow> (bool \<times> TransactionEntry \<times> 'a ChainTables_scheme) option" where
  "pushTransaction C valid height te h ti t =
    (if m_transactionMap t h \<noteq> None then Some (False, te, t)
     else if \<not> checkMultisignatureInputsDiff (te_tx te) then Some (False, te, t)
     else do {
       (ok, spent) \<leftarrow> push_images valid height [] (tx_inputs (te_tx te)) (spentKeyImages t);
       if \<not> ok then Some (False, te, t\<lparr>spentKeyImages := spent\<rparr>)
       else do {
         msig \<leftarrow> set_used True (tx_inputs (te_tx te)) (m_multisignatureOutputs t);
         if length (tx_outputs (te_tx te)) \<ge> 2 ^ 16 then None
         else do {
           let (gs, outs, msig) = push_outputs ti 0 (tx_outputs (te_tx te)) (m_outputs t, msig);
           (_, ai) \<leftarrow> ai_add C (te_tx te) h (bc_addressindex t);
           Some (True, te\<lparr>te_global_output_indexes := gs\<rparr>,
             t\<lparr>m_transactionMap := (m_transactionMap t)(h \<mapsto> ti), spentKeyImages := spent, m_outputs := outs,
               m_multisignatureOutputs := msig, bc_paymentIdIndex := snd (pii_add (te_tx te) h (bc_paymentIdIndex t)),
               bc_addressindex := ai\<rparr>) } } })"

section \<open>popTransaction\<close>

definition shrink :: "(u64 \<rightharpoonup> 'v list) \<Rightarrow> u64 \<Rightarrow> 'v list \<Rightarrow> u64 \<rightharpoonup> 'v list" where
  "shrink m a xs = m(a := if butlast xs = [] then None else Some (butlast xs))"

text \<open>One step of the loop over the outputs; an inconsistency is only logged.\<close>

definition pop_output :: "TransactionIndex \<Rightarrow> nat \<times> TransactionOutput \<Rightarrow> OutputTables \<Rightarrow> OutputTables" where
  "pop_output ti = (\<lambda>(i, out) (m, ms). case out_target out of
      KeyOutput key \<Rightarrow>
        (case m (out_amount out) of
           None \<Rightarrow> (m, ms)
         | Some xs \<Rightarrow>
             if xs = [] then (m, ms)
             else if ti_block (fst (last xs)) \<noteq> ti_block ti \<or> ti_transaction (fst (last xs)) \<noteq> ti_transaction ti then (m, ms)
             else if unat (snd (last xs)) \<noteq> i then (m, ms)
             else (shrink m (out_amount out) xs, ms))
    | MultisignatureOutput keys n \<Rightarrow>
        (case ms (out_amount out) of
           None \<Rightarrow> (m, ms)
         | Some us \<Rightarrow>
             if us = [] then (m, ms)
             else if mu_isUsed (last us) then (m, ms)
             else if ti_block (mu_transactionIndex (last us)) \<noteq> ti_block ti
               \<or> ti_transaction (mu_transactionIndex (last us)) \<noteq> ti_transaction ti then (m, ms)
             else if unat (mu_outputIndex (last us)) \<noteq> i then (m, ms)
             else (m, shrink ms (out_amount out) us)))"

definition pop_outputs :: "TransactionIndex \<Rightarrow> TransactionOutput list \<Rightarrow> OutputTables \<Rightarrow> OutputTables" where
  "pop_outputs ti outs = fold (pop_output ti) (rev (zip [0..<length outs] outs))"

text \<open>Erasing a key image that is not there is an access past the end.\<close>

fun pop_images :: "TransactionInput list \<Rightarrow> (KeyImage \<rightharpoonup> u32) \<Rightarrow> (KeyImage \<rightharpoonup> u32) option" where
  "pop_images [] spent = Some spent"
| "pop_images (i # ins) spent =
    (case i of
       KeyInput amount indexes keyImage \<Rightarrow> if spent keyImage = None then None else pop_images ins (spent(keyImage := None))
     | _ \<Rightarrow> pop_images ins spent)"

definition popTransaction :: "Crypto \<Rightarrow> Transaction \<Rightarrow> Hash \<Rightarrow> 'a ChainTables_scheme \<Rightarrow> 'a ChainTables_scheme option" where
  "popTransaction C tx h t = do {
     ti \<leftarrow> m_transactionMap t h;
     let (outs, msig) = pop_outputs ti (tx_outputs tx) (m_outputs t, m_multisignatureOutputs t);
     spent \<leftarrow> pop_images (tx_inputs tx) (spentKeyImages t);
     msig \<leftarrow> set_used False (tx_inputs tx) msig;
     (_, ai) \<leftarrow> ai_remove C tx h (bc_addressindex t);
     Some (t\<lparr>m_outputs := outs, m_multisignatureOutputs := msig, spentKeyImages := spent,
       bc_paymentIdIndex := snd (pii_remove tx h (bc_paymentIdIndex t)), bc_addressindex := ai,
       m_transactionMap := (m_transactionMap t)(h := None)\<rparr>) }"

end
