(* ===== verification/TransactionUndo.thy ===== *)
theory TransactionUndo
  imports BlockchainTables
begin

text \<open>
  \<open>popTransaction\<close> of \<open>src/src/DynexCNCore/Blockchain.cpp\<close> undoes \<open>pushTransaction\<close>: the lemmas for the
  outputs, the key images and the multisignature outputs one by one, and the one that joins them. Then that
  a transaction which passed the checks is always pushed.
\<close>

section \<open>popTransaction undoes pushTransaction\<close>

text \<open>No table keeps an empty vector.\<close>

definition no_empty :: "(u64 \<rightharpoonup> 'v list) \<Rightarrow> bool" where
  "no_empty m \<longleftrightarrow> (\<forall>a. m a \<noteq> Some [])"

lemma no_empty_upd: "no_empty m \<Longrightarrow> xs \<noteq> [] \<Longrightarrow> no_empty (m(a \<mapsto> xs))"
  by (simp add: no_empty_def)

lemma shrink_snoc: "no_empty m \<Longrightarrow> shrink (m(a \<mapsto> vec m a @ [x])) a (vec m a @ [x]) = m"
  by (auto simp: shrink_def vec_def no_empty_def fun_eq_iff split: option.splits)

lemma push_output_no_empty:
  "no_empty (fst t) \<Longrightarrow> no_empty (snd t) \<Longrightarrow> no_empty (fst (push_output ti o' out t)) \<and> no_empty (snd (push_output ti o' out t))"
  by (auto simp: push_output_def no_empty_upd split: prod.splits TransactionOutputTarget.splits)

lemma pop_push_output:
  assumes "no_empty (fst t)" "no_empty (snd t)"
  shows "pop_output ti (unat o', out) (push_output ti o' out t) = t"
  using assms by (cases t; cases "out_target out") (auto simp: pop_output_def push_output_def shrink_snoc)

lemma pop_push_outputs:
  assumes "no_empty (fst t)" "no_empty (snd t)" "n + length outs < 2 ^ 16"
  shows "fold (pop_output ti) (rev (zip [n..<n + length outs] outs)) (snd (push_outputs ti (word_of_nat n) outs t)) = t"
  using assms
proof (induction outs arbitrary: t n)
  case (Cons out outs)
  define t' where "t' = push_output ti (word_of_nat n) out t"
  have ne: "no_empty (fst t')" "no_empty (snd t')" using push_output_no_empty Cons.prems(1,2) unfolding t'_def by blast+
  have "snd (push_outputs ti (word_of_nat n) (out # outs) t) = snd (push_outputs ti (word_of_nat (Suc n)) outs t')"
    by (simp add: t'_def case_prod_beta add.commute)
  moreover have "[n..<n + length (out # outs)] = n # [Suc n..<Suc n + length outs]" by (simp add: upt_rec)
  moreover have "fold (pop_output ti) (rev (zip [Suc n..<Suc n + length outs] outs)) (snd (push_outputs ti (word_of_nat (Suc n)) outs t')) = t'"
    using Cons.IH[OF ne, of "Suc n"] Cons.prems(3) by simp
  moreover have "pop_output ti (n, out) t' = t"
    using pop_push_output[OF Cons.prems(1,2), of ti "word_of_nat n" out] Cons.prems(3) by (simp add: t'_def unat_of_nat)
  ultimately show ?case by simp
qed simp

lemma pop_outputs_push:
  assumes "no_empty m" "no_empty ms" "length outs < 2 ^ 16" "push_outputs ti 0 outs (m, ms) = (gs, m', ms')"
  shows "pop_outputs ti outs (m', ms') = (m, ms)"
  using pop_push_outputs[of "(m, ms)" 0 outs ti] assms by (simp add: pop_outputs_def)

text \<open>Key images.\<close>

lemma push_images_ok:
  assumes "push_images valid height dn ins spent = Some (True, spent')" "\<forall>k\<in>set (images ins). valid k"
  shows "distinct (images ins) \<and> (\<forall>k\<in>set (images ins). spent k = None)
    \<and> spent' = (\<lambda>k. if k \<in> set (images ins) then Some height else spent k)"
  using assms
proof (induction ins arbitrary: dn spent rule: images.induct)
  case (2 a idx k ins)
  have k: "valid k" "spent k = None" using 2(2,3) by (auto split: if_splits simp: bind_eq_Some_conv)
  then have "push_images valid height (KeyInput a idx k # dn) ins (spent(k \<mapsto> height)) = Some (True, spent')"
    using 2(2) by simp
  from 2(1)[OF this] 2(3) k show ?case by (auto simp: fun_eq_iff split: if_splits)
qed auto

lemma pop_images_ok:
  assumes "distinct (images ins)" "\<forall>k\<in>set (images ins). spent k \<noteq> None"
  shows "pop_images ins spent = Some (\<lambda>k. if k \<in> set (images ins) then None else spent k)"
  using assms
proof (induction ins arbitrary: spent rule: images.induct)
  case (2 a idx k ins)
  have "pop_images ins (spent(k := None)) = Some (\<lambda>j. if j \<in> set (images ins) then None else (spent(k := None)) j)"
    by (rule 2(1)) (use 2(2,3) in auto)
  then show ?case using 2(3) by (auto simp: fun_eq_iff)
qed auto

lemma pop_push_images:
  assumes "push_images valid height dn ins spent = Some (True, spent')" "\<forall>k\<in>set (images ins). valid k"
  shows "pop_images ins spent' = Some spent"
  using push_images_ok[OF assms] pop_images_ok[of ins spent'] by (auto simp: fun_eq_iff)

text \<open>Use of multisignature outputs.\<close>

fun msig_pairs :: "TransactionInput list \<Rightarrow> (u64 \<times> u32) list" where
  "msig_pairs [] = []"
| "msig_pairs (KeyInput amount indexes keyImage # ins) = msig_pairs ins"
| "msig_pairs (MultisignatureInput amount n outputIndex # ins) = (amount, outputIndex) # msig_pairs ins"
| "msig_pairs (BaseInput h # ins) = msig_pairs ins"

lemma msig_diff_loop_iff: "msig_diff_loop ins used \<longleftrightarrow> distinct (msig_pairs ins) \<and> set (msig_pairs ins) \<inter> set used = {}"
  by (induction ins arbitrary: used rule: msig_pairs.induct) auto

lemma checkMultisignatureInputsDiff_iff: "checkMultisignatureInputsDiff tx \<longleftrightarrow> distinct (msig_pairs (tx_inputs tx))"
  by (simp add: checkMultisignatureInputsDiff_def msig_diff_loop_iff)

definition used_at :: "(u64 \<rightharpoonup> MultisignatureOutputUsage list) \<Rightarrow> u64 \<times> u32 \<Rightarrow> bool" where
  "used_at ms p = mu_isUsed (vec ms (fst p) ! unat (snd p))"

definition assign_used :: "bool \<Rightarrow> (u64 \<times> u32) set \<Rightarrow> (u64 \<rightharpoonup> MultisignatureOutputUsage list) \<Rightarrow> u64 \<rightharpoonup> MultisignatureOutputUsage list" where
  "assign_used u P ms = (\<lambda>a. map_option (\<lambda>us. map (\<lambda>j. if (\<exists>i. (a, i) \<in> P \<and> unat i = j) then (us ! j)\<lparr>mu_isUsed := u\<rparr> else us ! j) [0..<length us]) (ms a))"

lemma assign_used_empty: "assign_used u {} ms = ms"
  by (auto simp: assign_used_def fun_eq_iff map_nth option.map_ident)

lemma assign_used_insert:
  assumes "unat i < length (vec ms a)" "(a, i) \<notin> P"
  shows "assign_used u P (ms(a \<mapsto> (vec ms a)[unat i := (vec ms a ! unat i)\<lparr>mu_isUsed := u\<rparr>])) = assign_used u (insert (a, i) P) ms"
proof -
  obtain us where us: "ms a = Some us" "unat i < length us" using assms(1) by (auto simp: vec_def split: option.splits)
  have "(\<exists>i'. (a, i') \<in> insert (a, i) P \<and> unat i' = j) \<longleftrightarrow> j = unat i \<or> (\<exists>i'. (a, i') \<in> P \<and> unat i' = j)" for j by auto
  then show ?thesis using us unfolding assign_used_def fun_eq_iff by (auto simp: vec_def nth_list_update)
qed

lemma set_used_ok:
  assumes "set_used u ins ms = Some ms'" "distinct (msig_pairs ins)"
  shows "ms' = assign_used u (set (msig_pairs ins)) ms \<and> (\<forall>p\<in>set (msig_pairs ins). unat (snd p) < length (vec ms (fst p)))"
  using assms
proof (induction ins arbitrary: ms rule: msig_pairs.induct)
  case (3 a n i ins)
  define ms1 where "ms1 = ms(a \<mapsto> (vec ms a)[unat i := (vec ms a ! unat i)\<lparr>mu_isUsed := u\<rparr>])"
  have i: "unat i < length (vec ms a)" "set_used u ins ms1 = Some ms'" using 3(2) by (auto simp: ms1_def Let_def split: if_splits)
  have len: "length (vec ms1 b) = length (vec ms b)" for b by (simp add: ms1_def vec_def split: option.splits)
  have d: "distinct (msig_pairs ins)" "(a, i) \<notin> set (msig_pairs ins)" using 3(3) by auto
  show ?case using 3(1)[OF i(2) d(1)] i(1) assign_used_insert[OF i(1) d(2), of u, folded ms1_def] by (simp add: len)
qed (auto simp: assign_used_empty)

lemma set_used_total:
  assumes "\<forall>p\<in>set (msig_pairs ins). unat (snd p) < length (vec ms (fst p))"
  shows "\<exists>ms'. set_used u ins ms = Some ms'"
  using assms
proof (induction ins arbitrary: ms rule: msig_pairs.induct)
  case (3 a n i ins)
  define ms1 where "ms1 = ms(a \<mapsto> (vec ms a)[unat i := (vec ms a ! unat i)\<lparr>mu_isUsed := u\<rparr>])"
  have len: "length (vec ms1 b) = length (vec ms b)" for b by (simp add: ms1_def vec_def split: option.splits)
  have "\<exists>ms'. set_used u ins ms1 = Some ms'" by (rule 3(1)) (use 3(2) in \<open>simp add: len\<close>)
  then show ?case using 3(2) by (simp add: ms1_def Let_def)
qed auto

lemma vec_assign_used: "length (vec (assign_used u P ms) a) = length (vec ms a)"
  by (simp add: vec_def assign_used_def split: option.splits)

lemma unuse_use:
  assumes "set_used True ins ms = Some ms'" "distinct (msig_pairs ins)" "\<forall>p\<in>set (msig_pairs ins). \<not> used_at ms p"
  shows "set_used False ins ms' = Some ms"
proof -
  let ?P = "set (msig_pairs ins)"
  have ms': "ms' = assign_used True ?P ms" "\<forall>p\<in>?P. unat (snd p) < length (vec ms (fst p))" using set_used_ok[OF assms(1,2)] by auto
  then obtain ms'' where ms'': "set_used False ins ms' = Some ms''" using set_used_total[of ins ms' False] by (auto simp: vec_assign_used)
  have "assign_used False ?P (assign_used True ?P ms) = ms"
  proof
    fix a
    show "assign_used False ?P (assign_used True ?P ms) a = ms a"
    proof (cases "ms a")
      case (Some us)
      have "(us ! j)\<lparr>mu_isUsed := False\<rparr> = us ! j" if "(a, i) \<in> ?P" "unat i = j" for i j
        using assms(3) that Some by (force simp: used_at_def vec_def)
      then show ?thesis using Some by (auto simp: assign_used_def intro!: nth_equalityI)
    qed (simp add: assign_used_def)
  qed
  then show ?thesis using set_used_ok[OF ms'' assms(2)] ms''(1) ms'(1) by simp
qed

lemma no_empty_set_used:
  assumes "set_used u ins ms = Some ms'" "distinct (msig_pairs ins)" "no_empty ms"
  shows "no_empty ms'"
  using set_used_ok[OF assms(1,2)] assms(3) by (auto simp: no_empty_def assign_used_def)

text \<open>
  Two states with the same tables: the payment ids as a multiset. The address index is left out, because
  \<open>AddressIndex::remove\<close> does not take out all that \<open>add\<close> entered.
\<close>

definition same_tables :: "'a ChainTables_scheme \<Rightarrow> 'b ChainTables_scheme \<Rightarrow> bool" where
  "same_tables t t' \<longleftrightarrow> spentKeyImages t = spentKeyImages t' \<and> m_outputs t = m_outputs t'
    \<and> m_multisignatureOutputs t = m_multisignatureOutputs t' \<and> m_transactionMap t = m_transactionMap t'
    \<and> hi_enabled (bc_paymentIdIndex t) = hi_enabled (bc_paymentIdIndex t')
    \<and> mset (hi_index (bc_paymentIdIndex t)) = mset (hi_index (bc_paymentIdIndex t'))"

lemma same_tables_refl [simp]: "same_tables t t"
  by (simp add: same_tables_def)

lemma same_tables_trans: "same_tables t t' \<Longrightarrow> same_tables t' t'' \<Longrightarrow> same_tables t t''"
  by (simp add: same_tables_def)

definition tables_ok :: "'a ChainTables_scheme \<Rightarrow> bool" where
  "tables_ok t \<longleftrightarrow> no_empty (m_outputs t) \<and> no_empty (m_multisignatureOutputs t)"

text \<open>What \<open>checkTransactionInputs\<close> has established before a transaction is pushed.\<close>

definition may_push :: "(KeyImage \<Rightarrow> bool) \<Rightarrow> Transaction \<Rightarrow> 'a ChainTables_scheme \<Rightarrow> bool" where
  "may_push valid tx t \<longleftrightarrow> (\<forall>k\<in>set (images (tx_inputs tx)). valid k)
    \<and> (\<forall>p\<in>set (msig_pairs (tx_inputs tx)). \<not> used_at (m_multisignatureOutputs t) p)"

lemma pushTransaction_cases:
  assumes "pushTransaction C valid height te h ti t = Some (True, te', t')"
  obtains spent msig gs outs msig' ai where "m_transactionMap t h = None" "distinct (msig_pairs (tx_inputs (te_tx te)))"
    "push_images valid height [] (tx_inputs (te_tx te)) (spentKeyImages t) = Some (True, spent)"
    "set_used True (tx_inputs (te_tx te)) (m_multisignatureOutputs t) = Some msig" "length (tx_outputs (te_tx te)) < 2 ^ 16"
    "push_outputs ti 0 (tx_outputs (te_tx te)) (m_outputs t, msig) = (gs, outs, msig')"
    "te' = te\<lparr>te_global_output_indexes := gs\<rparr>"
    "t' = t\<lparr>m_transactionMap := (m_transactionMap t)(h \<mapsto> ti), spentKeyImages := spent, m_outputs := outs,
       m_multisignatureOutputs := msig', bc_paymentIdIndex := snd (pii_add (te_tx te) h (bc_paymentIdIndex t)), bc_addressindex := ai\<rparr>"
  using assms unfolding pushTransaction_def checkMultisignatureInputsDiff_iff
  by (auto simp: bind_eq_Some_conv Let_def not_le split: if_splits prod.splits)

lemma push_tables_ok:
  assumes "pushTransaction C valid height te h ti t = Some (True, te', t')" "tables_ok t"
  shows "tables_ok t'"
proof -
  obtain spent msig gs outs msig' ai where u: "distinct (msig_pairs (tx_inputs (te_tx te)))"
    "set_used True (tx_inputs (te_tx te)) (m_multisignatureOutputs t) = Some msig"
    "push_outputs ti 0 (tx_outputs (te_tx te)) (m_outputs t, msig) = (gs, outs, msig')" "m_outputs t' = outs" "m_multisignatureOutputs t' = msig'"
    by (rule pushTransaction_cases[OF assms(1)]) simp
  have "no_empty (fst (snd (push_outputs ti i os m))) \<and> no_empty (snd (snd (push_outputs ti i os m)))"
    if "no_empty (fst m)" "no_empty (snd m)" for i os m
    using that
  proof (induction os arbitrary: i m)
    case (Cons out outs)
    then show ?case using Cons.IH[of "push_output ti i out m" "i + 1"] push_output_no_empty[OF Cons.prems, of ti i out] by (simp add: case_prod_beta)
  qed simp
  from this[of "(m_outputs t, msig)" 0 "tx_outputs (te_tx te)"] u no_empty_set_used[OF u(2,1)] assms(2)
  show ?thesis by (simp add: tables_ok_def)
qed

lemma popTransaction_push:
  assumes p: "pushTransaction C valid height te h ti t = Some (True, te', t')"
    and m: "may_push valid (te_tx te) t" and ok: "tables_ok t" and s: "same_tables t1 t'"
  shows "\<exists>t2. popTransaction C (te_tx te) h t1 = Some t2 \<and> same_tables t2 t"
proof -
  obtain spent msig gs outs msig' ai where u: "m_transactionMap t h = None" "distinct (msig_pairs (tx_inputs (te_tx te)))"
    "push_images valid height [] (tx_inputs (te_tx te)) (spentKeyImages t) = Some (True, spent)"
    "set_used True (tx_inputs (te_tx te)) (m_multisignatureOutputs t) = Some msig" "length (tx_outputs (te_tx te)) < 2 ^ 16"
    "push_outputs ti 0 (tx_outputs (te_tx te)) (m_outputs t, msig) = (gs, outs, msig')"
    "t' = t\<lparr>m_transactionMap := (m_transactionMap t)(h \<mapsto> ti), spentKeyImages := spent, m_outputs := outs,
       m_multisignatureOutputs := msig', bc_paymentIdIndex := snd (pii_add (te_tx te) h (bc_paymentIdIndex t)), bc_addressindex := ai\<rparr>"
    by (rule pushTransaction_cases[OF p])
  have t1: "m_transactionMap t1 = (m_transactionMap t)(h \<mapsto> ti)" "spentKeyImages t1 = spent" "m_outputs t1 = outs"
    "m_multisignatureOutputs t1 = msig'" "hi_enabled (bc_paymentIdIndex t1) = hi_enabled (bc_paymentIdIndex t)"
    "mset (hi_index (bc_paymentIdIndex t1)) = mset (hi_index (snd (pii_add (te_tx te) h (bc_paymentIdIndex t))))"
    using s by (simp_all add: same_tables_def u(7) pii_add_entries)
  have o: "pop_outputs ti (tx_outputs (te_tx te)) (outs, msig') = (m_outputs t, msig)"
    by (rule pop_outputs_push[OF _ _ u(5,6)]) (use ok no_empty_set_used[OF u(4,2)] in \<open>auto simp: tables_ok_def\<close>)
  have i: "pop_images (tx_inputs (te_tx te)) spent = Some (spentKeyImages t)"
    by (rule pop_push_images[OF u(3)]) (use m in \<open>simp add: may_push_def\<close>)
  have us: "set_used False (tx_inputs (te_tx te)) msig = Some (m_multisignatureOutputs t)"
    by (rule unuse_use[OF u(4,2)]) (use m in \<open>simp add: may_push_def\<close>)
  obtain r ai2 where ai2: "ai_remove C (te_tx te) h (bc_addressindex t1) = Some (r, ai2)" using ai_total(2) by blast
  have pay: "mset (hi_index (snd (pii_remove (te_tx te) h (bc_paymentIdIndex t1)))) = mset (hi_index (bc_paymentIdIndex t))"
  proof (cases "hi_enabled (bc_paymentIdIndex t)")
    case True
    then show ?thesis using t1(5,6) by (auto simp: pii_add_entries pii_remove_entries)
  next
    case False
    then show ?thesis using t1(5,6) by (simp add: pii_remove_def pii_add_def)
  qed
  have "(m_transactionMap t)(h := None) = m_transactionMap t" using u(1) by auto
  then show ?thesis using o i us ai2 pay t1
    by (simp add: popTransaction_def same_tables_def pii_remove_entries)
qed

text \<open>Both operations leave everything but the tables alone.\<close>

lemma popTransaction_more: "popTransaction C tx h t = Some t' \<Longrightarrow> ChainTables.more t' = ChainTables.more t"
  by (auto simp: popTransaction_def bind_eq_Some_conv Let_def case_prod_beta)

lemma pushTransaction_more: "pushTransaction C valid height te h ti t = Some (r, te', t') \<Longrightarrow> ChainTables.more t' = ChainTables.more t"
  by (auto simp: pushTransaction_def bind_eq_Some_conv Let_def case_prod_beta split: if_splits)

lemma pushTransaction_tx: "pushTransaction C valid height te h ti t = Some (r, te', t') \<Longrightarrow> te_tx te' = te_tx te"
  by (auto simp: pushTransaction_def bind_eq_Some_conv Let_def case_prod_beta split: if_splits)

lemma push_images_total:
  assumes "distinct (images ins)" "\<forall>k\<in>set (images ins). spent k = None"
  shows "\<exists>spent'. push_images valid height dn ins spent = Some (True, spent')"
  using assms
proof (induction ins arbitrary: dn spent rule: images.induct)
  case (2 a idx k ins)
  have "\<exists>spent'. push_images valid height (KeyInput a idx k # dn) ins (spent(k \<mapsto> height)) = Some (True, spent')"
    by (rule 2(1)) (use 2(2,3) in auto)
  then show ?case using 2(3) by simp
qed auto

text \<open>A transaction that the checks let through and that is new is pushed.\<close>

lemma pushTransaction_succeeds:
  assumes "m_transactionMap t h = None" "distinct (images (tx_inputs (te_tx te)))" "distinct (msig_pairs (tx_inputs (te_tx te)))"
    "\<forall>k\<in>set (images (tx_inputs (te_tx te))). spentKeyImages t k = None"
    "\<forall>p\<in>set (msig_pairs (tx_inputs (te_tx te))). unat (snd p) < length (vec (m_multisignatureOutputs t) (fst p))"
    "length (tx_outputs (te_tx te)) < 2 ^ 16"
  shows "\<exists>te' t'. pushTransaction C valid height te h ti t = Some (True, te', t') \<and> m_transactionMap t' = (m_transactionMap t)(h \<mapsto> ti)"
proof -
  obtain spent where "push_images valid height [] (tx_inputs (te_tx te)) (spentKeyImages t) = Some (True, spent)"
    using push_images_total[OF assms(2,4)] by blast
  moreover obtain msig where "set_used True (tx_inputs (te_tx te)) (m_multisignatureOutputs t) = Some msig"
    using set_used_total[OF assms(5)] by blast
  moreover obtain r ai where "ai_add C (te_tx te) h (bc_addressindex t) = Some (r, ai)" using ai_total(1) by blast
  ultimately show ?thesis using assms(1,3,6)
    by (simp add: pushTransaction_def checkMultisignatureInputsDiff_iff case_prod_beta Let_def)
qed

end
