(* ===== verification/Checkpoints.thy ===== *)
theory Checkpoints
  imports CurrencyConfig
begin

text \<open>
  Checkpoints (\<open>src/src/DynexCNCore/Checkpoints.cpp\<close>): hashes that the main chain must have at given
  heights, and how deep an alternative chain may fork off. The \<open>std::map\<close> from heights to hashes is a
  list of pairs in ascending order of the height. Loading from the network is not modelled; a file is
  given by its contents.
\<close>

section \<open>Definitions\<close>

type_synonym Checkpoints = "(u32 \<times> Hash) list"

fun points_insert :: "u32 \<Rightarrow> Hash \<Rightarrow> Checkpoints \<Rightarrow> Checkpoints" where
  "points_insert height h [] = [(height, h)]"
| "points_insert height h ((k, v) # points) =
    (if height < k then (height, h) # (k, v) # points else (k, v) # points_insert height h points)"

text \<open>The text is a number read by \<open>std::stoi\<close>: spaces, a sign and at least one digit, then anything.\<close>

datatype stoi_result = Number int | InvalidArgument | OutOfRange

definition stoi :: "string \<Rightarrow> stoi_result" where
  "stoi s =
    (let s = dropWhile (\<lambda>ch. (of_char ch :: nat) \<in> {9, 10, 11, 12, 13, 32}) s;
         negative = (s \<noteq> [] \<and> hd s = CHR ''-'');
         s = (if s \<noteq> [] \<and> (hd s = CHR ''-'' \<or> hd s = CHR ''+'') then tl s else s);
         digits = takeWhile (\<lambda>ch. (48::nat) \<le> of_char ch \<and> (of_char ch :: nat) \<le> 57) s;
         n = foldl (\<lambda>v ch. v * 10 + (of_char ch - 48)) (0 :: int) digits;
         n = (if negative then - n else n)
     in if digits = [] then InvalidArgument
     else if n < - (2 ^ 31) \<or> 2 ^ 31 \<le> n then OutOfRange else Number n)"

definition add_checkpoint :: "Checkpoints \<Rightarrow> u32 \<Rightarrow> string \<Rightarrow> bool \<times> Checkpoints" where
  "add_checkpoint points height hash_str =
    (case podFromHex 32 hash_str of
       None \<Rightarrow> (False, points)
     | Some h \<Rightarrow>
       if height \<in> fst ` set points then (False, points)
       else (True, points_insert height h points))"

text \<open>
  The loop over the file: a height up to a comma, then a hash up to the end of the line. It ends when
  the second \<open>getline\<close> fails. The result is \<open>None\<close> when the exception of a number out of range
  leaves the function.
\<close>

function load_checkpoints :: "string \<Rightarrow> Checkpoints \<Rightarrow> (bool \<times> Checkpoints) option" where
  "load_checkpoints file points =
    (case findFrom file CHR '','' 0 0 of
       None \<Rightarrow> Some (True, points)
     | Some p \<Rightarrow>
       let rest = drop (p + 1) file in
       if rest = [] then Some (True, points)
       else let q = (case findFrom rest CHR 0x0A 0 0 of None \<Rightarrow> length rest | Some q \<Rightarrow> q) in
         case stoi (take p file) of
           InvalidArgument \<Rightarrow> Some (False, points)
         | OutOfRange \<Rightarrow> None
         | Number n \<Rightarrow>
           (case add_checkpoint points (word_of_int n) (take q rest) of
              (False, points) \<Rightarrow> Some (False, points)
            | (True, points) \<Rightarrow> load_checkpoints (drop (q + 1) rest) points))"
  by pat_completeness auto
termination by (relation "measure (length \<circ> fst)") auto

declare load_checkpoints.simps [simp del]

definition load_checkpoints_from_file :: "string option \<Rightarrow> Checkpoints \<Rightarrow> (bool \<times> Checkpoints) option" where
  "load_checkpoints_from_file file points =
    (case file of None \<Rightarrow> Some (False, points) | Some contents \<Rightarrow> load_checkpoints contents points)"

definition is_in_checkpoint_zone :: "Checkpoints \<Rightarrow> u32 \<Rightarrow> bool" where
  "is_in_checkpoint_zone points height \<longleftrightarrow> points \<noteq> [] \<and> height \<le> fst (last points)"

text \<open>The second component tells whether the height is a checkpoint.\<close>

definition check_block :: "Checkpoints \<Rightarrow> u32 \<Rightarrow> Hash \<Rightarrow> bool \<times> bool" where
  "check_block points height h =
    (case map_of points height of
       None \<Rightarrow> (True, False)
     | Some h' \<Rightarrow> (if h' = h then True else False, True))"

text \<open>
  The difference with the unlock window is one of 64-bit numbers. \<open>upper_bound\<close> is the position of the
  first height above that of the chain.
\<close>

definition is_alternative_block_allowed :: "Checkpoints \<Rightarrow> u32 \<Rightarrow> u32 \<Rightarrow> bool" where
  "is_alternative_block_allowed points blockchain_height block_height =
    (if block_height = 0 then False
     else if (ucast block_height :: u64) < ucast blockchain_height - CRYPTONOTE_MINED_MONEY_UNLOCK_WINDOW
       \<and> \<not> is_in_checkpoint_zone points block_height then False
     else let it = length (takeWhile (\<lambda>p. fst p \<le> blockchain_height) points) in
       if it = 0 then True
       else fst (points ! (it - 1)) < block_height)"

definition getCheckpointHeights :: "Checkpoints \<Rightarrow> u32 list" where
  "getCheckpointHeights points = map fst points"

section \<open>The map of checkpoints\<close>

text \<open>Heights ascend strictly: what \<open>std::map\<close> guarantees.\<close>

definition wf_points :: "Checkpoints \<Rightarrow> bool" where
  "wf_points points \<longleftrightarrow> sorted_wrt (<) (map fst points)"

lemma set_points_insert: "set (points_insert height h points) = insert (height, h) (set points)"
  by (induction height h points rule: points_insert.induct) auto

lemma wf_points_insert:
  "wf_points points \<Longrightarrow> height \<notin> fst ` set points \<Longrightarrow> wf_points (points_insert height h points)"
proof (induction height h points rule: points_insert.induct)
  case (2 height h k v points)
  then have IH: "height \<ge> k \<Longrightarrow> wf_points (points_insert height h points)" by (auto simp: wf_points_def)
  have "k < fst p" if "p \<in> set points" for p using 2(2) that by (auto simp: wf_points_def)
  moreover have "height \<noteq> k" using 2(3) by auto
  ultimately show ?case using 2(2) IH by (force simp: wf_points_def set_points_insert not_less)
qed (simp add: wf_points_def)

lemma map_of_points_insert:
  "wf_points points \<Longrightarrow> height \<notin> fst ` set points \<Longrightarrow> map_of (points_insert height h points) = (map_of points)(height \<mapsto> h)"
proof (induction height h points rule: points_insert.induct)
  case (2 height h k v points)
  have "wf_points points" using 2(2) by (simp add: wf_points_def)
  then show ?case using 2 by (auto simp: fun_eq_iff)
qed simp

lemma add_checkpoint_wf: "wf_points points \<Longrightarrow> wf_points (snd (add_checkpoint points height hash_str))"
  by (auto simp: add_checkpoint_def wf_points_insert split: option.splits)

lemma load_checkpoints_wf:
  "load_checkpoints inp points = Some (r, points') \<Longrightarrow> wf_points points \<Longrightarrow> wf_points points'"
proof (induction inp points arbitrary: r points' rule: load_checkpoints.induct)
  case (1 inp points)
  show ?case
  proof (cases "findFrom inp CHR '','' 0 0")
    case None
    then show ?thesis using 1(2,3) by (subst (asm) load_checkpoints.simps) simp
  next
    case (Some p)
    define rest where "rest = drop (p + 1) inp"
    define q where "q = (case findFrom rest CHR 0x0A 0 0 of None \<Rightarrow> length rest | Some q \<Rightarrow> q)"
    show ?thesis
    proof (cases "rest = []")
      case True
      then show ?thesis using 1(2,3) Some rest_def by (subst (asm) load_checkpoints.simps) simp
    next
      case False
      note unf = load_checkpoints.simps[of inp points, simplified Some option.case Let_def, folded rest_def, folded q_def]
      show ?thesis
      proof (cases "stoi (take p inp)")
        case (Number n)
        obtain ok pts where a: "add_checkpoint points (word_of_int n) (take q rest) = (ok, pts)" by fastforce
        have wf: "wf_points pts" using add_checkpoint_wf[OF 1(3), of "word_of_int n" "take q rest"] a by simp
        show ?thesis
        proof (cases ok)
          case True
          then have "load_checkpoints (drop (q + 1) rest) pts = Some (r, points')"
            using 1(2) False Number a by (subst (asm) unf) simp
          then show ?thesis using 1(1)[OF Some rest_def False q_def Number a[symmetric]] wf True by simp
        next
          case F: False
          then show ?thesis using 1(2) False Number a wf by (subst (asm) unf) simp
        qed
      qed (use 1(2,3) False in \<open>subst (asm) unf, simp\<close>)+
    qed
  qed
qed

lemma check_block_add:
  assumes "wf_points points" "add_checkpoint points height hash_str = (True, points')"
  shows "check_block points' k h = (if k = height then (podFromHex 32 hash_str = Some h, True) else check_block points k h)"
  using assms by (auto simp: add_checkpoint_def check_block_def map_of_points_insert split: option.splits if_splits)

lemma is_in_checkpoint_zone_iff:
  "wf_points points \<Longrightarrow> is_in_checkpoint_zone points height \<longleftrightarrow> (\<exists>p \<in> set points. height \<le> fst p)"
proof (cases points rule: rev_cases)
  case (snoc ps p)
  assume "wf_points points"
  then have "fst x < fst p" if "x \<in> set ps" for x using that snoc by (auto simp: wf_points_def sorted_wrt_append)
  then show ?thesis using snoc by (fastforce simp: is_in_checkpoint_zone_def intro: order_trans less_imp_le)
qed (simp add: is_in_checkpoint_zone_def)

lemma last_takeWhile_points:
  fixes points :: Checkpoints and h b :: u32
  assumes "wf_points points"
  defines "it \<equiv> length (takeWhile (\<lambda>p. fst p \<le> h) points)"
  shows "it = 0 \<or> fst (points ! (it - 1)) < b \<longleftrightarrow> (\<forall>p\<in>set points. fst p \<le> h \<longrightarrow> fst p < b)"
  using assms(1) unfolding it_def
proof (induction points)
  case (Cons p points)
  have tl: "fst p < fst x" if "x \<in> set points" for x using Cons.prems that by (auto simp: wf_points_def)
  show ?case
  proof (cases "fst p \<le> h")
    case True
    show ?thesis
    proof (cases "takeWhile (\<lambda>p. fst p \<le> h) points")
      case Nil
      then have "\<not> fst x \<le> h" if "x \<in> set points" for x
        using that Cons.prems by (cases points) (fastforce simp: wf_points_def split: if_splits)+
      then show ?thesis using True Nil by auto
    next
      case (Cons y ys)
      then have ne: "length (takeWhile (\<lambda>p. fst p \<le> h) points) \<noteq> 0" by simp
      have "y \<in> set points" "fst y \<le> h" using Cons set_takeWhileD[of y "\<lambda>p. fst p \<le> h" points] by auto
      then have "(\<forall>x\<in>set points. fst x \<le> h \<longrightarrow> fst x < b) \<Longrightarrow> fst p < b" using tl by fastforce
      moreover have "wf_points points" using Cons.prems \<open>wf_points (p # points)\<close> by (simp add: wf_points_def)
      ultimately show ?thesis using True Cons.IH ne by (auto simp: nth_Cons')
    qed
  next
    case False
    then have "\<not> fst x \<le> h" if "x \<in> set points" for x using tl[OF that] by auto
    then show ?thesis using False by auto
  qed
qed simp

lemma alternative_allowed_iff:
  assumes "wf_points points"
  shows "is_alternative_block_allowed points bh h \<longleftrightarrow> h \<noteq> 0
    \<and> ((ucast bh - 60 :: u64) \<le> ucast h \<or> (\<exists>p\<in>set points. h \<le> fst p))
    \<and> (\<forall>p\<in>set points. fst p \<le> bh \<longrightarrow> fst p < h)"
  using last_takeWhile_points[OF assms, of bh h] is_in_checkpoint_zone_iff[OF assms, of h]
  by (auto simp: is_alternative_block_allowed_def Let_def not_less)

lemma alternative_short_chain:
  fixes bh h :: u32
  assumes "unat bh < 60"
  shows "(ucast h :: u64) < ucast bh - 60"
proof -
  have up: "unat (ucast x :: u64) = unat x" for x :: u32 by (rule unat_ucast_up) simp
  have "unat (ucast bh - 60 :: u64) = unat bh + 2 ^ 64 - 60"
    using assms up[of bh] by (simp add: unat_sub_if_size word_size)
  moreover have "unat (ucast h :: u64) < 2 ^ 32" using unat_less[of h] up[of h] by simp
  ultimately show ?thesis by (simp add: word_less_nat_alt)
qed

section \<open>Properties\<close>

text \<open>
  C29: whatever the file contains, loading it leaves the heights in strictly ascending order; a
  checkpoint that is added decides the blocks at its height, by its hash alone, and no others.
\<close>

theorem checkpoints_invariant:
  assumes "wf_points points"
  shows "(case load_checkpoints_from_file contents points of None \<Rightarrow> True | Some (r, points') \<Rightarrow> wf_points points') \<and>
    wf_points (snd (add_checkpoint points height hash_str)) \<and>
    (fst (add_checkpoint points height hash_str) \<longrightarrow>
      check_block (snd (add_checkpoint points height hash_str)) k h =
        (if k = height then (podFromHex 32 hash_str = Some h, True) else check_block points k h))"
proof -
  have "case load_checkpoints_from_file contents points of None \<Rightarrow> True | Some (r, points') \<Rightarrow> wf_points points'"
    using load_checkpoints_wf assms by (auto simp: load_checkpoints_from_file_def split: option.splits)
  moreover have "check_block (snd (add_checkpoint points height hash_str)) k h =
        (if k = height then (podFromHex 32 hash_str = Some h, True) else check_block points k h)"
    if "fst (add_checkpoint points height hash_str)"
    using that by (intro check_block_add[OF assms]) (simp add: prod_eq_iff)
  ultimately show ?thesis using add_checkpoint_wf[OF assms] by blast
qed

theorem checkpoints_invariant_witness:
  "fst (add_checkpoint [(7, replicate 32 1)] 5 (toHex (replicate 32 9)))
   \<and> check_block (snd (add_checkpoint [(7, replicate 32 1)] 5 (toHex (replicate 32 9)))) 5 (replicate 32 9) = (True, True)
   \<and> check_block (snd (add_checkpoint [(7, replicate 32 1)] 5 (toHex (replicate 32 9)))) 5 (replicate 32 8) = (False, True)"
proof -
  have wf: "wf_points [(7, replicate 32 1)]" by (simp add: wf_points_def)
  have ok: "fst (add_checkpoint [(7, replicate 32 1)] 5 (toHex (replicate 32 9)))"
    by (simp add: add_checkpoint_def podFromHex_toHex)
  have ne: "replicate 32 (9 :: byte) \<noteq> replicate 32 8" by (simp add: replicate_eq_replicate)
  show ?thesis
    using checkpoints_invariant[OF wf, where height = 5 and hash_str = "toHex (replicate 32 9)" and k = 5 and contents = None
        and h = "replicate 32 9"]
      checkpoints_invariant[OF wf, where height = 5 and hash_str = "toHex (replicate 32 9)" and k = 5 and contents = None
        and h = "replicate 32 8"] ok ne
    by (simp add: podFromHex_toHex)
qed

text \<open>
  C30: an alternative block is allowed exactly when it is not the genesis block, is above every
  checkpoint the chain has passed, and forks off at most 60 blocks deep or lies below some
  checkpoint; but on a chain of fewer than 60 blocks the depth wraps around, and an alternative block
  above all checkpoints is never allowed.
\<close>

theorem alternative_block_allowed_exact:
  assumes "wf_points points"
  shows "(is_alternative_block_allowed points bh h \<longleftrightarrow> h \<noteq> 0
    \<and> ((ucast bh - 60 :: u64) \<le> ucast h \<or> (\<exists>p\<in>set points. h \<le> fst p))
    \<and> (\<forall>p\<in>set points. fst p \<le> bh \<longrightarrow> fst p < h))
    \<and> (unat bh < 60 \<longrightarrow> (\<forall>p\<in>set points. fst p < h) \<longrightarrow> \<not> is_alternative_block_allowed points bh h)"
proof -
  note iff = alternative_allowed_iff[OF assms, of bh h]
  moreover have "\<not> is_alternative_block_allowed points bh h" if "unat bh < 60" "\<forall>p\<in>set points. fst p < h"
    using iff alternative_short_chain[OF that(1), of h] that(2) by (auto simp: not_le)
  ultimately show ?thesis by blast
qed

theorem alternative_block_allowed_exact_witness:
  "is_alternative_block_allowed [(100, replicate 32 1)] 200 150 \<and> \<not> is_alternative_block_allowed [(100, replicate 32 1)] 200 139
   \<and> \<not> is_alternative_block_allowed [] 10 9"
proof -
  have wf: "wf_points [(100, replicate 32 1)]" "wf_points []" by (simp_all add: wf_points_def)
  show ?thesis
    using alternative_block_allowed_exact[OF wf(1), of 200 150] alternative_block_allowed_exact[OF wf(1), of 200 139]
      alternative_block_allowed_exact[OF wf(2), of 10 9] by simp
qed

end
