(* ===== verification/BlockIndex.thy ===== *)
theory BlockIndex
  imports DynexCNTypes
begin

text \<open>
  The index of the block hashes of the main chain (\<open>src/src/DynexCNCore/BlockIndex.h\<close> and
  \<open>BlockIndex.cpp\<close>): a sequence with a unique hashed view, modelled by the list of hashes in the order
  of their heights. A failing \<open>assert\<close> is \<open>None\<close>.
\<close>

section \<open>Definitions\<close>

type_synonym BlockIndex = "Hash list"

definition bi_pop :: "BlockIndex \<Rightarrow> BlockIndex" where
  "bi_pop index = butlast index"

text \<open>An element that exists already is not inserted.\<close>

definition bi_push :: "BlockIndex \<Rightarrow> Hash \<Rightarrow> bool \<times> BlockIndex" where
  "bi_push index h = (if h \<in> set index then (False, index) else (True, index @ [h]))"

definition hasBlock :: "BlockIndex \<Rightarrow> Hash \<Rightarrow> bool" where
  "hasBlock index h \<longleftrightarrow> h \<in> set index"

fun position_of :: "Hash list \<Rightarrow> Hash \<Rightarrow> nat \<Rightarrow> nat option" where
  "position_of [] h i = None"
| "position_of (x # xs) h i = (if x = h then Some i else position_of xs h (i + 1))"

definition getBlockHeight :: "BlockIndex \<Rightarrow> Hash \<Rightarrow> u32 option" where
  "getBlockHeight index h = map_option word_of_nat (position_of index h 0)"

definition bi_size :: "BlockIndex \<Rightarrow> u32" where
  "bi_size index = word_of_nat (length index)"

definition getBlockId :: "BlockIndex \<Rightarrow> u32 \<Rightarrow> Hash option" where
  "getBlockId index height = (if \<not> unat height < length index then None else Some (index ! unat height))"

definition getBlockIds :: "BlockIndex \<Rightarrow> u32 \<Rightarrow> u32 \<Rightarrow> Hash list" where
  "getBlockIds index startBlockIndex maxCount =
    (if unat startBlockIndex \<ge> length index then []
     else let count = min (unat maxCount) (length index - unat startBlockIndex) in
       map (\<lambda>i. index ! (unat startBlockIndex + i)) [0..<count])"

fun findSupplement :: "BlockIndex \<Rightarrow> Hash list \<Rightarrow> u32 option" where
  "findSupplement index [] = None"
| "findSupplement index (h # ids) =
    (case getBlockHeight index h of Some offset \<Rightarrow> Some offset | None \<Rightarrow> findSupplement index ids)"

text \<open>The loop of \<open>buildSparseChain\<close>: steps that double, counted from the end.\<close>

function sparse_loop :: "BlockIndex \<Rightarrow> nat \<Rightarrow> nat \<Rightarrow> Hash list" where
  "sparse_loop index sparseChainEnd i =
    (if 1 \<le> i \<and> i \<le> sparseChainEnd then index ! (sparseChainEnd - i) # sparse_loop index sparseChainEnd (i * 2) else [])"
  by pat_completeness auto
termination by (relation "measure (\<lambda>(_, e, i). e + 1 - i)") auto

declare sparse_loop.simps [simp del]

definition buildSparseChain :: "BlockIndex \<Rightarrow> Hash \<Rightarrow> Hash list option" where
  "buildSparseChain index startBlockId =
    (if startBlockId \<notin> set index then None
     else
       let startBlockHeight = (case getBlockHeight index startBlockId of Some h \<Rightarrow> h | None \<Rightarrow> 0);
           sparseChainEnd = unat (startBlockHeight + 1);
           result = sparse_loop index sparseChainEnd 1
       in if result = [] then None
       else Some (if last result \<noteq> index ! 0 then result @ [index ! 0] else result))"

definition bi_getTailId :: "BlockIndex \<Rightarrow> Hash option" where
  "bi_getTailId index = (if index = [] then None else Some (last index))"

section \<open>Positions\<close>

lemma position_of_Some: "position_of xs h i = Some k \<Longrightarrow> i \<le> k \<and> k < i + length xs \<and> xs ! (k - i) = h"
proof (induction xs arbitrary: i)
  case (Cons x xs)
  show ?case
  proof (cases "x = h")
    case False
    then have "i + 1 \<le> k" "k < i + 1 + length xs" "xs ! (k - (i + 1)) = h" using Cons.IH[of "i + 1"] Cons.prems by auto
    moreover from \<open>i + 1 \<le> k\<close> have "k - i = Suc (k - (i + 1))" by simp
    ultimately show ?thesis by simp
  qed (use Cons.prems in auto)
qed simp

lemma position_of_None: "position_of xs h i = None \<longleftrightarrow> h \<notin> set xs"
  by (induction xs arbitrary: i) auto

lemma getBlockHeight_iff:
  assumes "distinct index" "length index < 2 ^ 32"
  shows "getBlockHeight index h = Some height \<longleftrightarrow> getBlockId index height = Some h"
proof
  assume "getBlockHeight index h = Some height"
  then obtain k where "position_of index h 0 = Some k" "height = word_of_nat k" by (auto simp: getBlockHeight_def)
  then show "getBlockId index height = Some h"
    using position_of_Some[of index h 0 k] assms(2) by (auto simp: getBlockId_def unat_of_nat)
next
  assume "getBlockId index height = Some h"
  then have h: "unat height < length index" "index ! unat height = h" by (auto simp: getBlockId_def split: if_splits)
  then obtain k where k: "position_of index h 0 = Some k" using position_of_None[of index h 0] by force
  then have "k = unat height"
    using position_of_Some[OF k] h nth_eq_iff_index_eq[OF assms(1), of k "unat height"] by auto
  then show "getBlockHeight index h = Some height" using k by (simp add: getBlockHeight_def)
qed

lemma sparse_loop_heights:
  "1 \<le> i \<Longrightarrow> e \<le> length index \<Longrightarrow>
    \<exists>ks. sparse_loop index e i = map (\<lambda>k. index ! (e - i * 2 ^ k)) [0..<ks] \<and> e < i * 2 ^ ks \<and> (\<forall>k<ks. i * 2 ^ k \<le> e)"
proof (induction index e i rule: sparse_loop.induct)
  case (1 index e i)
  show ?case
  proof (cases "i \<le> e")
    case True
    then obtain ks where ks: "sparse_loop index e (i * 2) = map (\<lambda>k. index ! (e - i * 2 * 2 ^ k)) [0..<ks]"
      "e < i * 2 * 2 ^ ks" "\<forall>k<ks. i * 2 * 2 ^ k \<le> e"
      using 1 by auto
    have "map (\<lambda>k. index ! (e - i * 2 ^ k)) [0..<Suc ks] = index ! (e - i) # map (\<lambda>k. index ! (e - i * 2 * 2 ^ k)) [0..<ks]"
      by (simp add: upt_conv_Cons map_Suc_upt[symmetric] mult.assoc del: upt_Suc)
    moreover have "\<forall>k<Suc ks. i * 2 ^ k \<le> e" using ks(3) True by (auto simp: less_Suc_eq_0_disj mult.assoc)
    ultimately show ?thesis using ks 1(2) True
      by (intro exI[of _ "Suc ks"]) (subst sparse_loop.simps, simp add: mult.assoc)
  next
    case False
    then show ?thesis by (intro exI[of _ 0]) (subst sparse_loop.simps, simp)
  qed
qed

lemma buildSparseChain_heights:
  assumes d: "distinct index" "length index < 2 ^ 32" and n: "n < length index"
  shows "\<exists>ks r. buildSparseChain index (index ! n) = Some r \<and> 0 < ks \<and> n + 1 < 2 ^ ks \<and> (\<forall>k<ks. 2 ^ k \<le> n + 1)
    \<and> (r = map (\<lambda>k. index ! (n + 1 - 2 ^ k)) [0..<ks] \<and> last r = index ! 0
      \<or> r = map (\<lambda>k. index ! (n + 1 - 2 ^ k)) [0..<ks] @ [index ! 0])"
proof -
  have h: "getBlockHeight index (index ! n) = Some (word_of_nat n)"
    using getBlockHeight_iff[OF d] n d(2) by (simp add: getBlockId_def unat_of_nat)
  have e: "unat (word_of_nat n + 1 :: u32) = n + 1"
    using n d(2) by (simp add: unat_plus unat_of_nat)
  obtain ks where ks: "sparse_loop index (n + 1) 1 = map (\<lambda>k. index ! (n + 1 - 2 ^ k)) [0..<ks]"
    "n + 1 < 2 ^ ks" "\<forall>k<ks. 2 ^ k \<le> n + 1"
    using sparse_loop_heights[of 1 "n + 1" index] n by auto
  have "0 < ks" using ks(2) by (cases ks) auto
  then show ?thesis using h e ks n
    by (intro exI[of _ ks]) (auto simp: buildSparseChain_def Let_def)
qed

lemma getBlockHeight_None: "getBlockHeight index x = None \<longleftrightarrow> x \<notin> set index"
  by (simp add: getBlockHeight_def position_of_None)

lemma findSupplement_iff:
  "findSupplement index ids = Some off \<longleftrightarrow>
    (\<exists>i<length ids. getBlockHeight index (ids ! i) = Some off \<and> (\<forall>j<i. ids ! j \<notin> set index))"
proof (induction ids)
  case (Cons x ids)
  show ?case
  proof (cases "getBlockHeight index x")
    case None
    then show ?thesis using Cons getBlockHeight_None[of index x] by (simp add: Ex_less_Suc2 All_less_Suc2)
  next
    case (Some off')
    then have "x \<in> set index" using getBlockHeight_None[of index x] by force
    then show ?thesis using Some by (simp add: Ex_less_Suc2 All_less_Suc2)
  qed
qed simp

lemma findSupplement_None: "findSupplement index ids = None \<longleftrightarrow> (\<forall>h\<in>set ids. h \<notin> set index)"
proof (induction ids)
  case (Cons x ids)
  then show ?case using getBlockHeight_None[of index x] by (cases "getBlockHeight index x") auto
qed simp

section \<open>Properties\<close>

text \<open>
  C26: pushing a hash keeps the hashes distinct and is refused exactly for a hash that is present;
  popping undoes a push that succeeded; and the height of a hash and the hash at a height are inverse
  to each other.
\<close>

theorem block_index_invariant:
  assumes "distinct index" "length index < 2 ^ 32"
  shows "distinct (snd (bi_push index h)) \<and> distinct (bi_pop index)
    \<and> fst (bi_push index h) = (\<not> hasBlock index h)
    \<and> (hasBlock index h \<or> bi_pop (snd (bi_push index h)) = index)
    \<and> (getBlockHeight index h = Some height \<longleftrightarrow> getBlockId index height = Some h)"
  using assms getBlockHeight_iff[OF assms, of h height]
  by (auto simp: bi_push_def bi_pop_def hasBlock_def distinct_butlast)

theorem block_index_invariant_witness:
  "distinct [[1], [2], [3 :: byte]] \<and> bi_pop (snd (bi_push [[1], [2], [3]] [4])) = [[1], [2], [3]]
    \<and> getBlockHeight [[1], [2], [3]] [3] = Some 2"
  using block_index_invariant[of "[[1], [2], [3]]" "[4]" 0] block_index_invariant[of "[[1], [2], [3]]" "[3]" 2]
  by (simp add: hasBlock_def getBlockId_def)

text \<open>
  C25: two chains with the same genesis block always find a common block: the sparse chain that one
  side builds from any of its blocks begins with that block, has at most two entries more than the
  binary logarithm of its height plus one, and the other side answers with the position of the first
  entry that it knows.
\<close>

theorem sparse_chain_synchronises:
  assumes "distinct index" "length index < 2 ^ 32" "n < length index"
    and "distinct other" "length other < 2 ^ 32" "other \<noteq> []" "other ! 0 = index ! 0"
  shows "\<exists>r off. buildSparseChain index (index ! n) = Some r \<and> hd r = index ! n \<and> set r \<subseteq> set index
    \<and> 2 ^ (length r - 2) \<le> n + 1 \<and> findSupplement other r = Some off
    \<and> (\<exists>i<length r. getBlockId other off = Some (r ! i) \<and> (\<forall>j<i. r ! j \<notin> set other))"
proof -
  obtain ks r where r: "buildSparseChain index (index ! n) = Some r" "0 < ks" "\<forall>k<ks. 2 ^ k \<le> n + 1"
    "r = map (\<lambda>k. index ! (n + 1 - 2 ^ k)) [0..<ks] \<and> last r = index ! 0
      \<or> r = map (\<lambda>k. index ! (n + 1 - 2 ^ k)) [0..<ks] @ [index ! 0]"
    using buildSparseChain_heights[OF assms(1-3)] by blast
  have ne: "r \<noteq> []" using r(2,4) by auto
  have "hd r = index ! n" using r(2,4) by (auto simp: hd_append upt_conv_Cons)
  moreover have "n + 1 - 2 ^ k < length index" for k :: nat
    using one_le_power[of "2 :: nat" k] assms(3) by linarith
  then have "set r \<subseteq> set index" using r(4) assms(3) by (auto intro!: nth_mem)
  moreover have "2 ^ (length r - 2) \<le> n + 1" using r(2,3,4) by (auto intro: le_trans[OF power_increasing[of _ "ks - 1"]])
  moreover have "last r = index ! 0" using r(4) by auto
  then have "index ! 0 \<in> set r" using ne by (metis last_in_set)
  then have "findSupplement other r \<noteq> None"
    using findSupplement_None[of other r] assms(6,7) by (metis nth_mem length_greater_0_conv)
  then obtain off where off: "findSupplement other r = Some off" by blast
  moreover obtain i where "i < length r" "getBlockHeight other (r ! i) = Some off" "\<forall>j<i. r ! j \<notin> set other"
    using off findSupplement_iff by blast
  ultimately show ?thesis using r(1) getBlockHeight_iff[OF assms(4,5)] by blast
qed

theorem sparse_chain_synchronises_witness:
  "\<exists>r off. buildSparseChain [[0], [1], [2], [3], [4 :: byte]] [4] = Some r \<and> findSupplement [[0], [1], [7]] r = Some off"
  using sparse_chain_synchronises[of "[[0], [1], [2], [3], [4]]" 4 "[[0], [1], [7]]"] by fastforce

end
