(* ===== verification/UpgradeDetector.thy ===== *)
theory UpgradeDetector
  imports CurrencyConfig
begin

text \<open>
  Detection of an upgrade by voting (\<open>src/src/DynexCNCore/UpgradeDetector.h\<close>): blocks of the version
  before the target vote with their minor version; when the votes in a window reach the threshold the
  upgrade height is fixed. The blockchain is a list of block headers, the state of the detector is the
  height at which the voting was complete. A failing \<open>assert\<close> is \<open>None\<close>.
\<close>

section \<open>Definitions\<close>

abbreviation (input) "UNDEF_HEIGHT \<equiv> - 1 :: u32"

record UpgradeDetector =
  ud_targetVersion :: u8
  ud_votingCompleteHeight :: u32

definition detector :: "u8 \<Rightarrow> UpgradeDetector" where
  "detector targetVersion = \<lparr>ud_targetVersion = targetVersion, ud_votingCompleteHeight = UNDEF_HEIGHT\<rparr>"

text \<open>The comparisons with the target version minus one are made in the type \<open>int\<close>.\<close>

definition before_target :: "u8 \<Rightarrow> 'b BlockHeader_scheme \<Rightarrow> bool" where
  "before_target targetVersion b \<longleftrightarrow> int (unat (blk_majorVersion b)) = int (unat targetVersion) - 1"

definition is_vote :: "u8 \<Rightarrow> 'b BlockHeader_scheme \<Rightarrow> bool" where
  "is_vote targetVersion b \<longleftrightarrow> before_target targetVersion b \<and> blk_minorVersion b = BLOCK_MINOR_VERSION_1"

definition getNumberOfVotes :: "'a Currency_scheme \<Rightarrow> u8 \<Rightarrow> 'b BlockHeader_scheme list \<Rightarrow> u32 \<Rightarrow> nat" where
  "getNumberOfVotes c targetVersion blockchain height =
    (if height < m_upgradeVotingWindow c - 1 then 0
     else fold (\<lambda>i voteCounter. voteCounter + (if is_vote targetVersion (blockchain ! i) then 1 else 0))
       [unat (height + 1 - m_upgradeVotingWindow c)..<unat height + 1] 0)"

definition voting_asserts :: "'a Currency_scheme \<Rightarrow> u8 \<Rightarrow> bool" where
  "voting_asserts c targetVersion \<longleftrightarrow> upgradeHeight c targetVersion = UNDEF_HEIGHT \<and> m_upgradeVotingWindow c > 1
    \<and> m_upgradeVotingThreshold c > 0 \<and> m_upgradeVotingThreshold c \<le> 100"

definition isVotingComplete :: "'a Currency_scheme \<Rightarrow> u8 \<Rightarrow> 'b BlockHeader_scheme list \<Rightarrow> u32 \<Rightarrow> bool option" where
  "isVotingComplete c targetVersion blockchain height =
    (if \<not> voting_asserts c targetVersion then None
     else let voteCounter = getNumberOfVotes c targetVersion blockchain height in
       Some (unat (m_upgradeVotingThreshold c * m_upgradeVotingWindow c) \<le> 100 * voteCounter))"

definition findVotingCompleteHeight :: "'a Currency_scheme \<Rightarrow> u8 \<Rightarrow> 'b BlockHeader_scheme list \<Rightarrow> u32 \<Rightarrow> u32 option" where
  "findVotingCompleteHeight c targetVersion blockchain probableUpgradeHeight =
    (if upgradeHeight c targetVersion \<noteq> UNDEF_HEIGHT then None
     else if \<not> voting_asserts c targetVersion then None
     else
       let probableVotingCompleteHeight =
         (if probableUpgradeHeight > maxUpgradeDistance c then probableUpgradeHeight - maxUpgradeDistance c else 0)
       in case find (\<lambda>i. isVotingComplete c targetVersion blockchain (word_of_nat i) = Some True)
            [unat probableVotingCompleteHeight..<unat probableUpgradeHeight + 1] of
         None \<Rightarrow> Some UNDEF_HEIGHT
       | Some i \<Rightarrow> Some (word_of_nat i))"

text \<open>The result of \<open>init\<close> and the detector after it.\<close>

definition ud_init :: "'a Currency_scheme \<Rightarrow> 'b BlockHeader_scheme list \<Rightarrow> UpgradeDetector \<Rightarrow> (bool \<times> UpgradeDetector) option" where
  "ud_init c blockchain d =
    (let target = ud_targetVersion d; upgrade = upgradeHeight c target in
     if upgrade = UNDEF_HEIGHT then
       if blockchain = [] then Some (True, d\<lparr>ud_votingCompleteHeight := UNDEF_HEIGHT\<rparr>)
       else if before_target target (last blockchain) then do {
         h \<leftarrow> findVotingCompleteHeight c target blockchain (word_of_nat (length blockchain) - 1);
         Some (True, d\<lparr>ud_votingCompleteHeight := h\<rparr>) }
       else if target \<le> blk_majorVersion (last blockchain) then
         let it = length (takeWhile (\<lambda>b. blk_majorVersion b < target) blockchain) in
         if it = length blockchain \<or> blk_majorVersion (blockchain ! it) \<noteq> target then Some (False, d)
         else do {
           h \<leftarrow> findVotingCompleteHeight c target blockchain (word_of_nat it);
           Some (h \<noteq> UNDEF_HEIGHT, d\<lparr>ud_votingCompleteHeight := h\<rparr>) }
       else Some (True, d\<lparr>ud_votingCompleteHeight := UNDEF_HEIGHT\<rparr>)
     else if blockchain \<noteq> [] then
       if length blockchain \<le> unat (upgrade + 1) then
         Some (\<not> blk_majorVersion (last blockchain) \<ge> target, d)
       else if \<not> before_target target (blockchain ! unat upgrade) then Some (False, d)
       else Some (blk_majorVersion (blockchain ! unat (upgrade + 1)) = target, d)
     else Some (True, d))"

definition ud_upgradeHeight :: "'a Currency_scheme \<Rightarrow> UpgradeDetector \<Rightarrow> u32" where
  "ud_upgradeHeight c d =
    (if upgradeHeight c (ud_targetVersion d) = UNDEF_HEIGHT
     then if ud_votingCompleteHeight d = UNDEF_HEIGHT then UNDEF_HEIGHT else calculateUpgradeHeight c (ud_votingCompleteHeight d)
     else upgradeHeight c (ud_targetVersion d))"

definition blockPushed :: "'a Currency_scheme \<Rightarrow> 'b BlockHeader_scheme list \<Rightarrow> UpgradeDetector \<Rightarrow> UpgradeDetector option" where
  "blockPushed c blockchain d =
    (let target = ud_targetVersion d in
     if blockchain = [] then None
     else if upgradeHeight c target \<noteq> UNDEF_HEIGHT then
       if length blockchain \<le> unat (upgradeHeight c target + 1)
       then if int (unat (blk_majorVersion (last blockchain))) \<le> int (unat target) - 1 then Some d else None
       else if blk_majorVersion (last blockchain) \<ge> target then Some d else None
     else if ud_votingCompleteHeight d \<noteq> UNDEF_HEIGHT then
       if \<not> length blockchain > unat (ud_votingCompleteHeight d) then None
       else if length blockchain \<le> unat (ud_upgradeHeight c d)
       then if before_target target (last blockchain) then Some d else None
       else if length blockchain = unat (ud_upgradeHeight c d + 1)
       then if before_target target (last blockchain) then Some d else None
       else if blk_majorVersion (last blockchain) = target then Some d else None
     else
       let lastBlockHeight = word_of_nat (length blockchain) - 1 in do {
         complete \<leftarrow> isVotingComplete c target blockchain lastBlockHeight;
         Some (if complete then d\<lparr>ud_votingCompleteHeight := lastBlockHeight\<rparr> else d) })"

definition blockPopped :: "'a Currency_scheme \<Rightarrow> 'b BlockHeader_scheme list \<Rightarrow> UpgradeDetector \<Rightarrow> UpgradeDetector option" where
  "blockPopped c blockchain d =
    (if ud_votingCompleteHeight d \<noteq> UNDEF_HEIGHT then
       if upgradeHeight c (ud_targetVersion d) \<noteq> UNDEF_HEIGHT then None
       else if length blockchain = unat (ud_votingCompleteHeight d) then Some (d\<lparr>ud_votingCompleteHeight := UNDEF_HEIGHT\<rparr>)
       else if length blockchain > unat (ud_votingCompleteHeight d) then Some d else None
     else Some d)"

text \<open>
  The detector beside the chain: a block is pushed or the last one is popped, and the detector is told
  afterwards. The chain stays shorter than the undefined height.
\<close>

inductive ud_step :: "'a Currency_scheme \<Rightarrow> 'b BlockHeader_scheme list \<times> UpgradeDetector \<Rightarrow> 'b BlockHeader_scheme list \<times> UpgradeDetector \<Rightarrow> bool"
  for c where
  push: "length chain + 1 < 2 ^ 32 \<Longrightarrow> blockPushed c (chain @ [b]) d = Some d' \<Longrightarrow> ud_step c (chain, d) (chain @ [b], d')"
| pop: "chain \<noteq> [] \<Longrightarrow> blockPopped c (butlast chain) d = Some d' \<Longrightarrow> ud_step c (chain, d) (butlast chain, d')"

inductive_cases ud_stepE: "ud_step c s s'"

section \<open>The first height with enough votes\<close>

text \<open>The specification: the least height at which the voting is complete.\<close>

definition complete_at :: "'a Currency_scheme \<Rightarrow> u8 \<Rightarrow> 'b BlockHeader_scheme list \<Rightarrow> nat \<Rightarrow> bool" where
  "complete_at c t chain h \<longleftrightarrow> isVotingComplete c t chain (word_of_nat h) = Some True"

definition first_complete :: "'a Currency_scheme \<Rightarrow> u8 \<Rightarrow> 'b BlockHeader_scheme list \<Rightarrow> nat option" where
  "first_complete c t chain = find (complete_at c t chain) [0..<length chain]"

definition vch_of :: "nat option \<Rightarrow> u32" where
  "vch_of h = (case h of None \<Rightarrow> UNDEF_HEIGHT | Some h \<Rightarrow> word_of_nat h)"

lemma getNumberOfVotes_append:
  assumes "h < length chain" "length chain < 2 ^ 32" "0 < m_upgradeVotingWindow c"
  shows "getNumberOfVotes c t (chain @ [b]) (word_of_nat h) = getNumberOfVotes c t chain (word_of_nat h)"
proof -
  have "unat (word_of_nat h :: u32) = h" using assms by (simp add: unat_of_nat)
  then show ?thesis using assms by (auto simp: getNumberOfVotes_def nth_append intro!: fold_cong)
qed

lemma complete_at_append:
  assumes "h < length chain" "length chain < 2 ^ 32" "voting_asserts c t"
  shows "complete_at c t (chain @ [b]) h = complete_at c t chain h"
proof -
  have "0 < m_upgradeVotingWindow c" using assms(3) by (auto simp: voting_asserts_def word_less_nat_alt)
  note getNumberOfVotes_append[OF assms(1,2) this, of t b]
  then show ?thesis using assms(3) by (simp add: complete_at_def isVotingComplete_def Let_def)
qed

lemma find_append: "find P (xs @ ys) = (case find P xs of None \<Rightarrow> find P ys | Some x \<Rightarrow> Some x)"
  by (induction xs) auto

lemma first_complete_append:
  assumes "length chain < 2 ^ 32" "voting_asserts c t"
  shows "first_complete c t (chain @ [b]) = (case first_complete c t chain of Some h \<Rightarrow> Some h
    | None \<Rightarrow> if complete_at c t (chain @ [b]) (length chain) then Some (length chain) else None)"
proof -
  have "find (complete_at c t (chain @ [b])) [0..<length chain] = find (complete_at c t chain) [0..<length chain]"
    using complete_at_append[OF _ assms] by (intro find_cong) auto
  then show ?thesis by (simp add: first_complete_def find_append split: option.splits)
qed

lemma first_complete_Some: "first_complete c t chain = Some h \<Longrightarrow> h < length chain"
  by (auto simp: first_complete_def find_Some_iff)

lemma vch_of_less: "h < 2 ^ 32 - 1 \<Longrightarrow> vch_of (Some h) \<noteq> UNDEF_HEIGHT" "h < 2 ^ 32 - 1 \<Longrightarrow> unat (vch_of (Some h)) = h"
  by (auto simp: vch_of_def unat_of_nat word_unat_eq_iff unat_minus_1)

lemma ud_step_first_complete:
  assumes "ud_step c (chain, d) (chain', d')" "voting_asserts c (ud_targetVersion d)" "length chain < 2 ^ 32"
    "ud_votingCompleteHeight d = vch_of (first_complete c (ud_targetVersion d) chain)"
  shows "ud_targetVersion d' = ud_targetVersion d \<and> length chain' < 2 ^ 32
    \<and> ud_votingCompleteHeight d' = vch_of (first_complete c (ud_targetVersion d) chain')"
  using assms(1)
proof (cases rule: ud_step.cases)
  case (push b)
  let ?t = "ud_targetVersion d"
  have u: "upgradeHeight c ?t = UNDEF_HEIGHT" using assms(2) by (simp add: voting_asserts_def)
  have wl: "word_of_nat (length chain') - 1 = (word_of_nat (length chain) :: u32)" using push by simp
  note fc = first_complete_append[OF assms(3,2), of b]
  show ?thesis
  proof (cases "first_complete c ?t chain")
    case None
    then have "ud_votingCompleteHeight d = UNDEF_HEIGHT" using assms(4) by (simp add: vch_of_def)
    moreover have "isVotingComplete c ?t chain' (word_of_nat (length chain)) = Some (complete_at c ?t chain' (length chain))"
      using assms(2) by (auto simp: complete_at_def isVotingComplete_def Let_def)
    ultimately show ?thesis using push u wl fc None by (auto simp: blockPushed_def Let_def vch_of_def)
  next
    case (Some h)
    then have "h < 2 ^ 32 - 1" using first_complete_Some[OF Some] push by simp
    then have "ud_votingCompleteHeight d \<noteq> UNDEF_HEIGHT" using assms(4) Some vch_of_less by simp
    then have "d' = d" using push u by (auto simp: blockPushed_def Let_def split: if_splits)
    then show ?thesis using push fc Some assms(4) by simp
  qed
next
  case pop
  let ?t = "ud_targetVersion d"
  have u: "upgradeHeight c ?t = UNDEF_HEIGHT" using assms(2) by (simp add: voting_asserts_def)
  have ch: "chain = chain' @ [last chain]" "length chain = length chain' + 1" using pop by auto
  have l: "length chain' < 2 ^ 32" using assms(3) ch by simp
  note fc = first_complete_append[OF l assms(2), of "last chain", folded ch(1)]
  show ?thesis
  proof (cases "first_complete c ?t chain'")
    case None
    then have "ud_votingCompleteHeight d = UNDEF_HEIGHT \<or> unat (ud_votingCompleteHeight d) = length chain'"
      using assms(3,4) fc ch(2) vch_of_less(2)[of "length chain'"] by (auto simp: vch_of_def)
    then show ?thesis using pop u l None by (auto simp: blockPopped_def vch_of_def split: if_splits)
  next
    case (Some h)
    then have h: "h < length chain'" by (rule first_complete_Some)
    then have "ud_votingCompleteHeight d \<noteq> UNDEF_HEIGHT" "unat (ud_votingCompleteHeight d) = h"
      using assms(3,4) fc Some ch(2) vch_of_less[of h] by simp_all
    then show ?thesis using pop u l Some h assms(4) fc by (auto simp: blockPopped_def split: if_splits)
  qed
qed

lemma ud_reachable:
  assumes "(ud_step c)\<^sup>*\<^sup>* ([], detector t) (chain, d)" "voting_asserts c t"
  shows "ud_targetVersion d = t \<and> length chain < 2 ^ 32 \<and> ud_votingCompleteHeight d = vch_of (first_complete c t chain)"
  using assms
proof (induction "(chain, d)" arbitrary: chain d rule: rtranclp_induct)
  case base
  then show ?case by (simp add: detector_def first_complete_def vch_of_def)
next
  case (step s)
  obtain ch e where s: "s = (ch, e)" by fastforce
  then have "ud_targetVersion e = t" "length ch < 2 ^ 32" "ud_votingCompleteHeight e = vch_of (first_complete c t ch)"
    using step.hyps(3)[OF s] step.prems by auto
  then show ?case using ud_step_first_complete[of c ch e chain d] step.hyps(2) step.prems s by auto
qed

section \<open>Properties\<close>

definition sample_voter :: BlockHeader where
  "sample_voter = \<lparr>blk_majorVersion = 4, blk_minorVersion = 1, blk_nonce = 0, blk_timestamp = 0, blk_previousBlockHash = []\<rparr>"

definition sample_voting :: Currency where
  "sample_voting = the CurrencyBuilder\<lparr>m_upgradeVotingWindow := 2\<rparr>"

lemma sample_voting_simps:
  "m_upgradeVotingWindow sample_voting = 2" "m_upgradeVotingThreshold sample_voting = 90" "voting_asserts sample_voting 5"
  by (simp_all add: sample_voting_def CurrencyBuilder_def set_emissionSpeedFactor_def set_difficultyWindow_def
    set_upgradeVotingThreshold_def set_upgradeWindow_def set_numberOfDecimalPlaces_def voting_asserts_def upgradeHeight_def)

text \<open>
  C18: however blocks are pushed and popped, the detector that is told of every change holds the least
  height of the present chain at which the votes of a window reach the threshold, or the undefined
  height when there is none; so popping the block that completed a vote cancels the upgrade, and the
  assertions on the recorded height cannot fail.
\<close>

theorem upgrade_detector_first_complete:
  assumes "(ud_step c)\<^sup>*\<^sup>* ([], detector t) (chain, d)" "voting_asserts c t"
  shows "ud_votingCompleteHeight d = vch_of (first_complete c t chain)
    \<and> (chain \<noteq> [] \<longrightarrow> (\<exists>d'. blockPopped c (butlast chain) d = Some d'))"
proof -
  have d: "ud_targetVersion d = t" "length chain < 2 ^ 32" "ud_votingCompleteHeight d = vch_of (first_complete c t chain)"
    using ud_reachable[OF assms] by auto
  moreover have "\<exists>d'. blockPopped c (butlast chain) d = Some d'" if "chain \<noteq> []"
  proof (cases "first_complete c t chain")
    case None
    then show ?thesis using d by (simp add: blockPopped_def vch_of_def)
  next
    case (Some h)
    then have "h < length chain" by (rule first_complete_Some)
    then have "unat (ud_votingCompleteHeight d) \<le> length (butlast chain)" using d Some by (simp add: vch_of_def unat_of_nat)
    moreover have "upgradeHeight c t = - 1" using assms(2) by (simp add: voting_asserts_def)
    ultimately show ?thesis using d(1) by (auto simp: blockPopped_def)
  qed
  ultimately show ?thesis by blast
qed

theorem upgrade_detector_first_complete_witness:
  "\<exists>d. (ud_step sample_voting)\<^sup>*\<^sup>* ([], detector 5) ([sample_voter, sample_voter], d) \<and> ud_votingCompleteHeight d = 1
    \<and> vch_of (first_complete sample_voting 5 [sample_voter, sample_voter]) = 1"
proof -
  let ?v = sample_voter
  note defs = blockPushed_def isVotingComplete_def getNumberOfVotes_def sample_voting_simps detector_def is_vote_def
    before_target_def sample_voter_def Let_def
  have u: "upgradeHeight sample_voting 5 = - 1" using sample_voting_simps(3) by (simp add: voting_asserts_def)
  have 1: "blockPushed sample_voting ([] @ [?v]) (detector 5) = Some (detector 5)"
    using u by (simp add: defs)
  have 2: "blockPushed sample_voting ([?v] @ [?v]) (detector 5) = Some ((detector 5)\<lparr>ud_votingCompleteHeight := 1\<rparr>)"
    using u by (simp add: defs upt_rec)
  have r: "(ud_step sample_voting)\<^sup>*\<^sup>* ([], detector 5) ([?v, ?v], (detector 5)\<lparr>ud_votingCompleteHeight := 1\<rparr>)"
    using ud_step.push[OF _ 1] ud_step.push[OF _ 2] by (simp add: converse_rtranclp_into_rtranclp)
  show ?thesis
    using upgrade_detector_first_complete[OF r sample_voting_simps(3)] r
    by (intro exI[of _ "(detector 5)\<lparr>ud_votingCompleteHeight := 1\<rparr>"]) simp
qed

end
