(* ===== verification/Blockchain.thy ===== *)
theory Blockchain
  imports TransactionUndo Checkpoints BlockIndex UpgradeDetector
begin

text \<open>
  The chain of \<open>src/src/DynexCNCore/Blockchain.cpp\<close>: its state, its queries, the checks of blocks and
  transactions, and the operations that push and pop blocks. The cryptographic functions, the clock, the
  authorisation server are the fields of \<open>ChainEnv\<close>, and so is what two uninitialised variables hold. \<open>None\<close> stands
  for an exception, a failing assertion or an access outside a container.
\<close>

section \<open>State\<close>

record BlockEntry =
  be_bl :: Block
  be_height :: u32
  be_block_cumulative_size :: u64
  be_cumulative_difficulty :: u64
  be_already_generated_coins :: u64
  be_transactions :: "TransactionEntry list"

record block_verification_context =
  m_added_to_main_chain :: bool
  bvc_verification_failed :: bool
  m_marked_as_orphaned :: bool
  m_already_exists :: bool
  m_switched_to_alt_chain :: bool

record Blockchain = ChainTables +
  m_current_block_cumul_sz_limit :: u64
  m_alternative_chains :: "Hash \<rightharpoonup> BlockEntry"
  m_checkpoints :: Checkpoints
  m_is_in_checkpoint_zone :: bool
  m_blocks :: "BlockEntry list"
  m_blockIndex :: BlockIndex
  m_upgradeDetectorV2 :: UpgradeDetector
  m_upgradeDetectorV3 :: UpgradeDetector
  m_upgradeDetectorV4 :: UpgradeDetector
  bc_timestampIndex :: "u64 HashIndex"
  m_generatedTransactionsIndex :: GeneratedTransactionsIndex
  m_orphanBlocksIndex :: "u32 HashIndex"
  PrivacyMemBC :: "(Hash \<times> bool) list"
  m_lastKnownBlockHeight :: u32
  m_tx_pool :: tx_memory_pool

record ChainEnv =
  ce_currency :: Currency
  ce_crypto :: Crypto
  ce_slow_hash :: "byte list \<Rightarrow> Hash"
  ce_scalarmultKey :: "KeyImage \<Rightarrow> KeyImage \<Rightarrow> KeyImage"
  ce_check_ring_signature :: "Hash \<Rightarrow> KeyImage \<Rightarrow> PublicKey list \<Rightarrow> Signature list \<Rightarrow> bool"
  ce_check_signature :: "Hash \<Rightarrow> PublicKey \<Rightarrow> Signature \<Rightarrow> bool"
  ce_time :: u64
  ce_AuthBlock :: "u32 \<Rightarrow> u32 \<Rightarrow> bool"
  ce_uninit_height :: u32
  ce_uninit_key :: "byte list"

abbreviation ce_H :: "ChainEnv \<Rightarrow> byte list \<Rightarrow> Hash" where
  "ce_H E \<equiv> cn_fast_hash (ce_crypto E)"

text \<open>The constants of \<open>Blockchain.h\<close> for the check of key images.\<close>

definition KEY_I :: KeyImage where
  "KEY_I = 1 # replicate 31 0"

definition KEY_L :: KeyImage where
  "KEY_L = [0xed, 0xd3, 0xf5, 0x5c, 0x1a, 0x63, 0x12, 0x58, 0xd6, 0x9c, 0xf7, 0xa2, 0xde, 0xf9, 0xde, 0x14] @ replicate 15 0 @ [0x10]"

definition KEY_R :: KeyImage where
  "KEY_R = [0xb1, 0xdd, 0x99, 0xdf, 0x58, 0x54, 0x35, 0xb0, 0xbc, 0x75, 0xc4, 0x1a, 0xb4, 0x34, 0x93, 0xb6,
    0x48, 0xb3, 0x67, 0xac, 0x00, 0xd3, 0x59, 0x86, 0xb4, 0xc2, 0x39, 0xa9, 0xb4, 0x53, 0x05, 0xfb]"

text \<open>The overload of \<open>get_block_hash\<close> that returns the hash, the null hash for a malformed block.\<close>

definition block_hash :: "(byte list \<Rightarrow> Hash) \<Rightarrow> Block \<Rightarrow> Hash" where
  "block_hash H b = (case get_block_hash H b of None \<Rightarrow> NULL_HASH | Some h \<Rightarrow> h)"

section \<open>Queries\<close>

definition getCurrentBlockchainHeight :: "'a Blockchain_scheme \<Rightarrow> u32" where
  "getCurrentBlockchainHeight bc = word_of_nat (length (m_blocks bc))"

definition haveTransaction :: "Hash \<Rightarrow> 'a Blockchain_scheme \<Rightarrow> bool" where
  "haveTransaction h bc \<longleftrightarrow> m_transactionMap bc h \<noteq> None"

definition check_tx_inputs_keyimages_domain :: "'a Blockchain_scheme \<Rightarrow> KeyImage \<Rightarrow> bool" where
  "check_tx_inputs_keyimages_domain bc keyImage \<longleftrightarrow>
    (if getCurrentBlockchainHeight bc > 334581 then True else keyImage \<noteq> KEY_R)"

text \<open>The iterator of a key image that is not found is dereferenced when the image is outside the domain.\<close>

definition checkIfSpent_at :: "KeyImage \<Rightarrow> u32 \<Rightarrow> 'a Blockchain_scheme \<Rightarrow> bool option" where
  "checkIfSpent_at keyImage blockIndex bc =
    (case spentKeyImages bc keyImage of
       None \<Rightarrow> if check_tx_inputs_keyimages_domain bc keyImage then Some False else None
     | Some b \<Rightarrow> Some (b \<le> blockIndex))"

definition checkIfSpent :: "KeyImage \<Rightarrow> 'a Blockchain_scheme \<Rightarrow> bool" where
  "checkIfSpent keyImage bc \<longleftrightarrow>
    (if check_tx_inputs_keyimages_domain bc keyImage \<and> spentKeyImages bc keyImage \<noteq> None then True else False)"

definition have_tx_keyimg_as_spent :: "KeyImage \<Rightarrow> 'a Blockchain_scheme \<Rightarrow> bool" where
  "have_tx_keyimg_as_spent key_im bc = checkIfSpent key_im bc"

definition haveTransactionKeyImagesAsSpent :: "Transaction \<Rightarrow> 'a Blockchain_scheme \<Rightarrow> bool" where
  "haveTransactionKeyImagesAsSpent tx bc = list_ex (\<lambda>i. case i of
      KeyInput amount indexes keyImage \<Rightarrow> have_tx_keyimg_as_spent keyImage bc | _ \<Rightarrow> False) (tx_inputs tx)"

definition getCurrentCumulativeBlocksizeLimit :: "'a Blockchain_scheme \<Rightarrow> u64" where
  "getCurrentCumulativeBlocksizeLimit bc = m_current_block_cumul_sz_limit bc"

definition bc_checkTransactionSize :: "'c Currency_scheme \<Rightarrow> u64 \<Rightarrow> 'a Blockchain_scheme \<Rightarrow> bool" where
  "bc_checkTransactionSize cur blobSize bc =
    (if blobSize > getCurrentCumulativeBlocksizeLimit bc - m_minerTxBlobReservedSize cur then False else True)"

definition getTailId :: "'a Blockchain_scheme \<Rightarrow> Hash option" where
  "getTailId bc = (if m_blocks bc = [] then Some NULL_HASH else bi_getTailId (m_blockIndex bc))"

definition getTailId_height :: "'a Blockchain_scheme \<Rightarrow> (u32 \<times> Hash) option" where
  "getTailId_height bc = (if m_blocks bc = [] then None
    else do { h \<leftarrow> getTailId bc; Some (getCurrentBlockchainHeight bc - 1, h) })"

definition getBlockIdByHeight :: "u32 \<Rightarrow> 'a Blockchain_scheme \<Rightarrow> Hash option" where
  "getBlockIdByHeight height bc = (if \<not> height < bi_size (m_blockIndex bc) then None else getBlockId (m_blockIndex bc) height)"

definition nth_block :: "nat \<Rightarrow> 'a Blockchain_scheme \<Rightarrow> BlockEntry option" where
  "nth_block i bc = (if i < length (m_blocks bc) then Some (m_blocks bc ! i) else None)"

definition getBlockByHash :: "Hash \<Rightarrow> 'a Blockchain_scheme \<Rightarrow> Block option option" where
  "getBlockByHash blockHash bc =
    (case getBlockHeight (m_blockIndex bc) blockHash of
       Some height \<Rightarrow> do { e \<leftarrow> nth_block (unat height) bc; Some (Some (be_bl e)) }
     | None \<Rightarrow> Some (map_option be_bl (m_alternative_chains bc blockHash)))"

definition haveBlock :: "Hash \<Rightarrow> 'a Blockchain_scheme \<Rightarrow> bool" where
  "haveBlock h bc = (if hasBlock (m_blockIndex bc) h then True else if m_alternative_chains bc h \<noteq> None then True else False)"

definition getBlockMajorVersionForHeight :: "'c Currency_scheme \<Rightarrow> u32 \<Rightarrow> 'a Blockchain_scheme \<Rightarrow> u8" where
  "getBlockMajorVersionForHeight cur height bc =
    (if height > ud_upgradeHeight cur (m_upgradeDetectorV4 bc) then ud_targetVersion (m_upgradeDetectorV4 bc)
     else if height > ud_upgradeHeight cur (m_upgradeDetectorV3 bc) then ud_targetVersion (m_upgradeDetectorV3 bc)
     else if height > ud_upgradeHeight cur (m_upgradeDetectorV2 bc) then ud_targetVersion (m_upgradeDetectorV2 bc)
     else BLOCK_MAJOR_VERSION_1)"

text \<open>The blocks from an offset on give the times and the difficulties for the next block.\<close>

definition getDifficultyForNextBlock :: "'c Currency_scheme \<Rightarrow> 'a Blockchain_scheme \<Rightarrow> currency_error + u64" where
  "getDifficultyForNextBlock cur bc =
    (let n = length (m_blocks bc);
         version = getBlockMajorVersionForHeight cur (word_of_nat n) bc;
         offset = n - min n (unat (difficultyBlocksCountByBlockVersion cur version));
         offset = (if offset = 0 then offset + 1 else offset);
         window = drop offset (m_blocks bc)
     in nextDifficulty cur (word_of_nat n) version (map (blk_timestamp \<circ> be_bl) window) (map be_cumulative_difficulty window))"

definition getAvgDifficultyForHeight :: "u32 \<Rightarrow> u32 \<Rightarrow> 'a Blockchain_scheme \<Rightarrow> u64 option" where
  "getAvgDifficultyForHeight height window bc =
    (let height = min height (word_of_nat (length (m_blocks bc)) - 1) in
     if height \<le> 1 then Some 1
     else do {
       top \<leftarrow> nth_block (unat height) bc;
       if window = height then Some (be_cumulative_difficulty top div ucast height)
       else do {
         let offset = height - min height (min (word_of_nat (length (m_blocks bc)) - 1) window);
         let offset = (if offset = 0 then offset + 1 else offset);
         low \<leftarrow> nth_block (unat offset) bc;
         let count = min (word_of_nat (length (m_blocks bc)) - 1) window;
         if count = 0 then None
         else Some ((be_cumulative_difficulty top - be_cumulative_difficulty low) div ucast count) } })"

definition getBlockTimestamp :: "u32 \<Rightarrow> 'a Blockchain_scheme \<Rightarrow> u64 option" where
  "getBlockTimestamp height bc = map_option (blk_timestamp \<circ> be_bl) (nth_block (unat height) bc)"

definition getCoinsInCirculation :: "'a Blockchain_scheme \<Rightarrow> u64" where
  "getCoinsInCirculation bc = (if m_blocks bc = [] then 0 else be_already_generated_coins (last (m_blocks bc)))"

definition blockDifficulty :: "nat \<Rightarrow> 'a Blockchain_scheme \<Rightarrow> u64" where
  "blockDifficulty i bc =
    (if \<not> i < length (m_blocks bc) then 0
     else if i = 0 then be_cumulative_difficulty (m_blocks bc ! i)
     else be_cumulative_difficulty (m_blocks bc ! i) - be_cumulative_difficulty (m_blocks bc ! (i - 1)))"

definition blockCumulativeDifficulty :: "nat \<Rightarrow> 'a Blockchain_scheme \<Rightarrow> u64" where
  "blockCumulativeDifficulty i bc = (if \<not> i < length (m_blocks bc) then 0 else be_cumulative_difficulty (m_blocks bc ! i))"

section \<open>Inputs\<close>

definition transactionByIndex :: "TransactionIndex \<Rightarrow> 'a Blockchain_scheme \<Rightarrow> TransactionEntry option" where
  "transactionByIndex index bc = do {
     e \<leftarrow> nth_block (unat (ti_block index)) bc;
     if unat (ti_transaction index) < length (be_transactions e) then Some (be_transactions e ! unat (ti_transaction index)) else None }"

definition is_tx_spendtime_unlocked :: "'c Currency_scheme \<Rightarrow> u64 \<Rightarrow> 'a Blockchain_scheme \<Rightarrow> bool option" where
  "is_tx_spendtime_unlocked cur unlock_time bc =
    (if unlock_time < m_maxBlockHeight cur
     then Some (ucast (getCurrentBlockchainHeight bc - 1) + m_lockedTxAllowedDeltaBlocks cur \<ge> unlock_time)
     else do {
       lastBlockTimestamp \<leftarrow> getBlockTimestamp (getCurrentBlockchainHeight bc - 1) bc;
       Some (lastBlockTimestamp + m_lockedTxAllowedDeltaSeconds cur \<ge> unlock_time) })"

definition is_tx_spendtime_unlocked_at :: "'c Currency_scheme \<Rightarrow> u64 \<Rightarrow> u32 \<Rightarrow> bool" where
  "is_tx_spendtime_unlocked_at cur unlock_time height =
    (if unlock_time < m_maxBlockHeight cur
     then if ucast (height - 1) + m_lockedTxAllowedDeltaBlocks cur \<ge> unlock_time then True else False
     else False)"

text \<open>
  The visitor of \<open>check_tx_input\<close> collects the keys of the outputs; it refuses a locked transaction and an
  output that is not a \<open>KeyOutput\<close>.
\<close>

definition handle_output :: "'c Currency_scheme \<Rightarrow> 'a Blockchain_scheme \<Rightarrow> Transaction \<Rightarrow> TransactionOutput \<Rightarrow> PublicKey list \<Rightarrow> (bool \<times> PublicKey list) option" where
  "handle_output cur bc tx out keys = do {
     unlocked \<leftarrow> is_tx_spendtime_unlocked cur (tx_unlockTime tx) bc;
     Some (if \<not> unlocked then (False, keys)
       else case out_target out of KeyOutput key \<Rightarrow> (True, keys @ [key]) | MultisignatureOutput ks n \<Rightarrow> (False, keys)) }"

text \<open>
  \<open>scanOutputKeysForIndexes\<close> with a visitor. The height is \<open>None\<close> when the caller passed no pointer; it
  is raised by the last output only.
\<close>

fun scan_loop :: "(Transaction \<Rightarrow> TransactionOutput \<Rightarrow> 's \<Rightarrow> (bool \<times> 's) option) \<Rightarrow> 'a Blockchain_scheme \<Rightarrow> (TransactionIndex \<times> u16) list
    \<Rightarrow> u32 list \<Rightarrow> 's \<Rightarrow> u32 option \<Rightarrow> (bool \<times> 's \<times> u32 option) option" where
  "scan_loop vis bc outs [] s maxh = Some (True, s, maxh)"
| "scan_loop vis bc outs (i # offsets) s maxh =
    (if unat i \<ge> length outs then Some (False, s, maxh)
     else do {
       te \<leftarrow> transactionByIndex (fst (outs ! unat i)) bc;
       let n = unat (snd (outs ! unat i));
       if \<not> n < length (tx_outputs (te_tx te)) then Some (False, s, maxh)
       else do {
         (ok, s) \<leftarrow> vis (te_tx te) (tx_outputs (te_tx te) ! n) s;
         if \<not> ok then Some (False, s, maxh)
         else scan_loop vis bc outs offsets s
           (if offsets = [] then map_option (\<lambda>m. if m < ti_block (fst (outs ! unat i)) then ti_block (fst (outs ! unat i)) else m) maxh
            else maxh) } })"

definition scanOutputKeysForIndexes :: "(Transaction \<Rightarrow> TransactionOutput \<Rightarrow> 's \<Rightarrow> (bool \<times> 's) option) \<Rightarrow> 'a Blockchain_scheme \<Rightarrow> u64 \<Rightarrow> u32 list
    \<Rightarrow> 's \<Rightarrow> u32 option \<Rightarrow> (bool \<times> 's \<times> u32 option) option" where
  "scanOutputKeysForIndexes vis bc amount outputIndexes s maxh =
    (case m_outputs bc amount of
       None \<Rightarrow> Some (False, s, maxh)
     | Some outs \<Rightarrow>
         if outputIndexes = [] then Some (False, s, maxh)
         else scan_loop vis bc outs (relative_output_offsets_to_absolute outputIndexes) s maxh)"

definition check_tx_input :: "ChainEnv \<Rightarrow> 'a Blockchain_scheme \<Rightarrow> u64 \<Rightarrow> u32 list \<Rightarrow> KeyImage \<Rightarrow> Hash \<Rightarrow> Signature list \<Rightarrow> u32 option
    \<Rightarrow> (bool \<times> u32 option) option" where
  "check_tx_input E bc amount outputIndexes keyImage prefix_hash sig maxh =
    (if ce_scalarmultKey E keyImage KEY_L \<noteq> KEY_I then Some (False, maxh)
     else do {
       (ok, output_keys, maxh) \<leftarrow> scanOutputKeysForIndexes (handle_output (ce_currency E) bc) bc amount outputIndexes [] maxh;
       Some (if \<not> ok then (False, maxh)
         else if length outputIndexes \<noteq> length output_keys then (False, maxh)
         else if length sig \<noteq> length output_keys then (False, maxh)
         else if m_is_in_checkpoint_zone bc then (True, maxh)
         else (ce_check_ring_signature E prefix_hash keyImage output_keys sig, maxh)) })"

text \<open>The loop of \<open>validateInput\<close> that matches the signatures with the keys in their order.\<close>

fun match_signatures :: "(PublicKey \<Rightarrow> Signature \<Rightarrow> bool) \<Rightarrow> PublicKey list \<Rightarrow> Signature list \<Rightarrow> bool" where
  "match_signatures chk keys [] = True"
| "match_signatures chk [] (s # sigs) = False"
| "match_signatures chk (k # keys) (s # sigs) = (if chk k s then match_signatures chk keys sigs else match_signatures chk keys (s # sigs))"

definition validateInput :: "ChainEnv \<Rightarrow> 'a Blockchain_scheme \<Rightarrow> u64 \<Rightarrow> u8 \<Rightarrow> u32 \<Rightarrow> Hash \<Rightarrow> Signature list \<Rightarrow> bool option" where
  "validateInput E bc amount signatureCount outputIndex prefixHash sigs =
    (if unat signatureCount \<noteq> length sigs then None
     else case m_multisignatureOutputs bc amount of
       None \<Rightarrow> Some False
     | Some us \<Rightarrow>
         if unat outputIndex \<ge> length us then Some False
         else let u = us ! unat outputIndex in
           if mu_isUsed u then Some False
           else do {
             te \<leftarrow> transactionByIndex (mu_transactionIndex u) bc;
             unlocked \<leftarrow> is_tx_spendtime_unlocked (ce_currency E) (tx_unlockTime (te_tx te)) bc;
             if \<not> unlocked then Some False
             else if \<not> unat (mu_outputIndex u) < length (tx_outputs (te_tx te)) then None
             else let out = tx_outputs (te_tx te) ! unat (mu_outputIndex u) in
               if out_amount out \<noteq> amount then None
               else case out_target out of
                 KeyOutput key \<Rightarrow> None
               | MultisignatureOutput keys requiredSignatureCount \<Rightarrow>
                   if signatureCount \<noteq> requiredSignatureCount then Some False
                   else Some (match_signatures (ce_check_signature E prefixHash) keys sigs) })"

fun check_inputs_loop :: "ChainEnv \<Rightarrow> 'a Blockchain_scheme \<Rightarrow> Hash \<Rightarrow> TransactionInput list \<Rightarrow> Signature list list \<Rightarrow> u32 option
    \<Rightarrow> (bool \<times> u32 option) option" where
  "check_inputs_loop E bc prefix_hash [] sigs maxh = Some (True, maxh)"
| "check_inputs_loop E bc prefix_hash (i # ins) [] maxh = None"
| "check_inputs_loop E bc prefix_hash (i # ins) (sig # sigs) maxh =
    (case i of
       KeyInput amount outputIndexes keyImage \<Rightarrow>
         if outputIndexes = [] then Some (False, maxh)
         else if have_tx_keyimg_as_spent keyImage bc then Some (False, maxh)
         else do {
           (ok, maxh) \<leftarrow> check_tx_input E bc amount outputIndexes keyImage prefix_hash sig maxh;
           if \<not> ok then Some (False, maxh) else check_inputs_loop E bc prefix_hash ins sigs maxh }
     | MultisignatureInput amount signatureCount outputIndex \<Rightarrow> do {
         ok \<leftarrow> validateInput E bc amount signatureCount outputIndex prefix_hash sig;
         if \<not> ok then Some (False, maxh) else check_inputs_loop E bc prefix_hash ins sigs maxh }
     | BaseInput h \<Rightarrow> Some (False, maxh))"

text \<open>With the pointer to the height, which is reset first, or without.\<close>

definition checkTransactionInputs :: "ChainEnv \<Rightarrow> 'a Blockchain_scheme \<Rightarrow> Transaction \<Rightarrow> bool \<Rightarrow> (bool \<times> u32 option) option" where
  "checkTransactionInputs E bc tx want_height =
    check_inputs_loop E bc (snd (getObjectHash (ce_H E) write_TransactionPrefix tx)) (tx_inputs tx) (tx_signatures tx)
      (if want_height then Some 0 else None)"

text \<open>The overload with the block of the last output used and, if asked for, the tail of the chain.\<close>

definition checkTransactionInputs_used :: "ChainEnv \<Rightarrow> 'a Blockchain_scheme \<Rightarrow> Transaction \<Rightarrow> BlockInfo \<Rightarrow> (bool \<times> BlockInfo) option" where
  "checkTransactionInputs_used E bc tx used = do {
     (ok, maxh) \<leftarrow> checkTransactionInputs E bc tx True;
     let height = the maxh;
     let used = used\<lparr>info_height := height\<rparr>;
     if \<not> ok then Some (False, used)
     else case nth_block (unat height) bc of
       None \<Rightarrow> Some (False, used)
     | Some e \<Rightarrow> Some (True, case get_block_hash (ce_H E) (be_bl e) of None \<Rightarrow> used | Some h \<Rightarrow> used\<lparr>info_id := h\<rparr>) }"

definition checkTransactionInputs_failed :: "ChainEnv \<Rightarrow> 'a Blockchain_scheme \<Rightarrow> Transaction \<Rightarrow> BlockInfo \<Rightarrow> BlockInfo
    \<Rightarrow> (bool \<times> BlockInfo \<times> BlockInfo) option" where
  "checkTransactionInputs_failed E bc tx used failed =
    (let check = do {
       (height, tail) \<leftarrow> getTailId_height bc;
       (ok, used) \<leftarrow> checkTransactionInputs_used E bc tx used;
       Some (if \<not> ok then (False, used, \<lparr>info_height = height, info_id = tail\<rparr>) else (True, used, failed)) }
     in if BlockInfo_empty used then do {
          known \<leftarrow> (if \<not> BlockInfo_empty failed \<and> getCurrentBlockchainHeight bc > info_height failed
            then do { h \<leftarrow> getBlockIdByHeight (info_height failed) bc; Some (h = info_id failed) } else Some False);
          if known then Some (False, used, failed) else check }
        else if info_height used \<ge> getCurrentBlockchainHeight bc then Some (False, used, failed)
        else do {
          h \<leftarrow> getBlockIdByHeight (info_height used) bc;
          skip \<leftarrow> (if h \<noteq> info_id used
            then do { f \<leftarrow> getBlockIdByHeight (info_height failed) bc; Some (info_id failed = f) } else Some False);
          if skip then Some (False, used, failed) else check })"

section \<open>Checks of a block\<close>

definition checkBlockVersion :: "'c Currency_scheme \<Rightarrow> 'a Blockchain_scheme \<Rightarrow> Block \<Rightarrow> bool" where
  "checkBlockVersion cur bc b =
    (let expectedBlockVersion = getBlockMajorVersionForHeight cur (get_block_height b) bc in
     if blk_majorVersion b \<noteq> expectedBlockVersion then False
     else if blk_majorVersion b = BLOCK_MAJOR_VERSION_2 \<and> pb_majorVersion (blk_parentBlock b) > BLOCK_MAJOR_VERSION_1 then False
     else True)"

definition checkParentBlockSize :: "(byte list \<Rightarrow> Hash) \<Rightarrow> Block \<Rightarrow> bool" where
  "checkParentBlockSize H b =
    (if blk_majorVersion b = BLOCK_MAJOR_VERSION_2 \<or> blk_majorVersion b = BLOCK_MAJOR_VERSION_3
     then case write_ParentBlock H (blk_parentBlock b) (blk_timestamp b) (blk_nonce b) False False of
         None \<Rightarrow> False
       | Some ba \<Rightarrow> if length ba > 2 * 1024 then False else True
     else True)"

definition checkCumulativeBlockSize :: "'c Currency_scheme \<Rightarrow> u64 \<Rightarrow> u64 \<Rightarrow> bool option" where
  "checkCumulativeBlockSize cur cumulativeBlockSize height = do {
     maxSize \<leftarrow> maxBlockCumulativeSize cur height;
     Some (if cumulativeBlockSize > maxSize then False else True) }"

definition check_block_timestamp :: "'c Currency_scheme \<Rightarrow> u64 list \<Rightarrow> Block \<Rightarrow> bool" where
  "check_block_timestamp cur timestamps b =
    (if length timestamps < unat (timestampCheckWindow cur (blk_majorVersion b)) then True
     else if blk_timestamp b < medianValue timestamps then False else True)"

definition last_timestamps :: "'c Currency_scheme \<Rightarrow> u8 \<Rightarrow> 'a Blockchain_scheme \<Rightarrow> u64 list" where
  "last_timestamps cur version bc =
    (let n = length (m_blocks bc); w = unat (timestampCheckWindow cur version)
     in map (blk_timestamp \<circ> be_bl) (drop (if n \<le> w then 0 else n - w) (m_blocks bc)))"

definition check_block_timestamp_main :: "'c Currency_scheme \<Rightarrow> u64 \<Rightarrow> 'a Blockchain_scheme \<Rightarrow> Block \<Rightarrow> bool" where
  "check_block_timestamp_main cur now bc b =
    (if blk_timestamp b > now + blockFutureTimeLimit cur (blk_majorVersion b) then False
     else check_block_timestamp cur (last_timestamps cur (blk_majorVersion b) bc) b)"

definition getBackwardBlocksSize :: "nat \<Rightarrow> u64 list \<Rightarrow> nat \<Rightarrow> 'a Blockchain_scheme \<Rightarrow> bool \<times> u64 list" where
  "getBackwardBlocksSize from_height sz n bc =
    (if \<not> from_height < length (m_blocks bc) then (False, sz)
     else let start_offset = (from_height + 1) - min (from_height + 1) n
       in (True, sz @ map (\<lambda>i. be_block_cumulative_size (m_blocks bc ! i)) [start_offset..<from_height + 1]))"

definition get_last_n_blocks_sizes :: "nat \<Rightarrow> 'a Blockchain_scheme \<Rightarrow> u64 list" where
  "get_last_n_blocks_sizes n bc =
    (if m_blocks bc = [] then [] else snd (getBackwardBlocksSize (length (m_blocks bc) - 1) [] n bc))"

definition prevalidate_miner_transaction :: "'c Currency_scheme \<Rightarrow> Block \<Rightarrow> u32 \<Rightarrow> bool" where
  "prevalidate_miner_transaction cur b height =
    (let tx = blk_baseTransaction b in
     if length (tx_inputs tx) \<noteq> 1 then False
     else if tx_signatures tx \<noteq> [] then False
     else if \<not> is_BaseInput (tx_inputs tx ! 0) then False
     else if base_blockIndex (tx_inputs tx ! 0) \<noteq> height then False
     else if tx_unlockTime tx \<noteq> ucast height +
         (if height < UPGRADE_HEIGHT_V4_FIX_1 \<and> height > UPGRADE_HEIGHT_V4 then m_minedMoneyUnlockWindow_v1 cur else m_minedMoneyUnlockWindow cur)
     then False
     else if \<not> check_outs_overflow tx then False
     else True)"

text \<open>Whether the reward is right, the reward and the change of the emission. The amount is not looked at up to height 58505.\<close>

definition validate_miner_transaction :: "'c Currency_scheme \<Rightarrow> 'a Blockchain_scheme \<Rightarrow> Block \<Rightarrow> u32 \<Rightarrow> u64 \<Rightarrow> u64 \<Rightarrow> u64
    \<Rightarrow> currency_error + bool \<times> u64 \<times> i64" where
  "validate_miner_transaction cur bc b height cumulativeBlockSize alreadyGeneratedCoins fee =
    (let minerReward = fold (\<lambda>out s. s + out_amount out) (tx_outputs (blk_baseTransaction b)) 0;
         blocksSizeMedian = medianValue (get_last_n_blocks_sizes (unat (m_rewardBlocksWindow cur)) bc);
         blockMajorVersion = getBlockMajorVersionForHeight cur height bc
     in case getBlockReward cur height blockMajorVersion blocksSizeMedian cumulativeBlockSize alreadyGeneratedCoins fee of
          Inl e \<Rightarrow> Inl e
        | Inr (reward, emissionChange) \<Rightarrow>
            if height \<le> 58505 then Inr (True, reward, emissionChange)
            else if minerReward > reward then Inr (False, reward, emissionChange)
            else if minerReward < reward then Inr (False, reward, emissionChange)
            else Inr (True, reward, emissionChange))"

definition update_next_cumulative_size_limit :: "'c Currency_scheme \<Rightarrow> 'a Blockchain_scheme \<Rightarrow> 'a Blockchain_scheme" where
  "update_next_cumulative_size_limit cur bc =
    (let version = getBlockMajorVersionForHeight cur (word_of_nat (length (m_blocks bc))) bc;
         zone = blockGrantedFullRewardZoneByBlockVersion cur version;
         median = medianValue (get_last_n_blocks_sizes (unat (m_rewardBlocksWindow cur)) bc);
         median = (if median \<le> zone then zone else median)
     in bc\<lparr>m_current_block_cumul_sz_limit := median * 2\<rparr>)"

section \<open>Transactions must be traceable\<close>

text \<open>The fields of the extra data that \<open>check_non_privacy\<close> collects; later fields replace earlier ones.\<close>

definition extra_to_addresses :: "TransactionExtraField list \<Rightarrow> AccountPublicAddress list" where
  "extra_to_addresses fs = List.map_filter (\<lambda>f. case f of TransactionExtraToAddress a \<Rightarrow> Some a | _ \<Rightarrow> None) fs"

definition extra_amounts :: "TransactionExtraField list \<Rightarrow> i64 list" where
  "extra_amounts fs = List.map_filter (\<lambda>f. case f of TransactionExtraAmount a \<Rightarrow> Some (getAmountInt64 a) | _ \<Rightarrow> None) fs"

definition extra_tx_key :: "SecretKey \<Rightarrow> TransactionExtraField list \<Rightarrow> SecretKey" where
  "extra_tx_key initial fs = fold (\<lambda>f k. case f of TransactionExtraTxkey key \<Rightarrow> key | _ \<Rightarrow> k) fs initial"

text \<open>What an address receives; a key that cannot be derived leaves the variable as it was.\<close>

fun received_by :: "Crypto \<Rightarrow> PublicKey \<Rightarrow> KeyDerivation \<Rightarrow> PublicKey \<Rightarrow> nat \<Rightarrow> TransactionOutput list \<Rightarrow> u64 \<Rightarrow> u64" where
  "received_by C uninit derivation spend keyIndex [] received = received"
| "received_by C uninit derivation spend keyIndex (out # outs) received =
    received_by C uninit derivation spend (keyIndex + 1) outs
      (case out_target out of
         KeyOutput key \<Rightarrow>
           if (case derive_public_key C derivation keyIndex spend of None \<Rightarrow> uninit | Some k \<Rightarrow> k) = key then received + out_amount out else received
       | MultisignatureOutput keys n \<Rightarrow> received)"

fun non_privacy_loop :: "Crypto \<Rightarrow> PublicKey \<Rightarrow> SecretKey \<Rightarrow> TransactionOutput list \<Rightarrow> AccountPublicAddress list \<Rightarrow> i64 list \<Rightarrow> bool option" where
  "non_privacy_loop C uninit tx_key outs [] amounts = Some True"
| "non_privacy_loop C uninit tx_key outs (address # addresses) amounts =
    (case generate_key_derivation C (viewPublicKey address) tx_key of
       None \<Rightarrow> Some False
     | Some derivation \<Rightarrow>
         case amounts of
           [] \<Rightarrow> None
         | amount # amounts \<Rightarrow>
             if amount \<noteq> received_by C uninit derivation (spendPublicKey address) 0 outs 0 then Some False
             else non_privacy_loop C uninit tx_key outs addresses amounts)"

text \<open>
  The result is remembered by the hash of the transaction, for at most 1001 transactions.
\<close>

definition check_non_privacy :: "ChainEnv \<Rightarrow> Transaction \<Rightarrow> 'a Blockchain_scheme \<Rightarrow> (bool \<times> 'a Blockchain_scheme) option" where
  "check_non_privacy E tx bc =
    (let txhash = snd (getObjectHash (ce_H E) write_Transaction tx);
         mem = (if length (PrivacyMemBC bc) > 1000 then [] else PrivacyMemBC bc);
         fs = snd (parseTransactionExtra (tx_extra tx))
     in case map_of mem txhash of
          Some r \<Rightarrow> Some (r, bc)
        | None \<Rightarrow> do {
            r \<leftarrow> (if extra_amounts fs = [] \<or> extra_to_addresses fs = [] then Some False
              else non_privacy_loop (ce_crypto E) (ce_uninit_key E) (extra_tx_key (ce_uninit_key E) fs) (tx_outputs tx) (extra_to_addresses fs) (extra_amounts fs));
            Some (r, bc\<lparr>PrivacyMemBC := mem @ [(txhash, r)]\<rparr>) })"

section \<open>The chain as validator of the pool\<close>

text \<open>
  The interface that the pool calls. An access outside a container, which the tables of a chain exclude,
  is turned into a refusal.
\<close>

definition validator_of :: "ChainEnv \<Rightarrow> 'a Blockchain_scheme \<Rightarrow> ITransactionValidator" where
  "validator_of E bc = \<lparr>
    checkTransactionInputs_max = (\<lambda>tx used. case checkTransactionInputs_used E bc tx used of None \<Rightarrow> (False, used) | Some r \<Rightarrow> r),
    checkTransactionInputs_last = (\<lambda>tx used failed. case checkTransactionInputs_failed E bc tx used failed of None \<Rightarrow> (False, used, failed) | Some r \<Rightarrow> r),
    haveSpentKeyImages = (\<lambda>tx. haveTransactionKeyImagesAsSpent tx bc),
    checkTransactionSize = (\<lambda>blobSize. bc_checkTransactionSize (ce_currency E) blobSize bc)\<rparr>"

text \<open>The verification context that these calls pass and do not read.\<close>

definition unread_tvc :: tx_verification_context where
  "unread_tvc = \<lparr>m_should_be_relayed = False, m_verification_failed = False, m_verification_impossible = False,
    m_added_to_pool = False, m_tx_fee_too_small = False\<rparr>"

definition pool_return :: "ChainEnv \<Rightarrow> Transaction \<Rightarrow> Blockchain \<Rightarrow> (bool \<times> Blockchain) option" where
  "pool_return E tx bc = do {
     (ok, _, p) \<leftarrow> add_tx_hashed (ce_H E) (ce_crypto E) (ce_currency E) (validator_of E bc) (getCurrentBlockchainHeight bc) (ce_time E)
       tx unread_tvc True (m_tx_pool bc);
     Some (ok, bc\<lparr>m_tx_pool := p\<rparr>) }"

fun saveTransactions_loop :: "ChainEnv \<Rightarrow> Transaction list \<Rightarrow> Blockchain \<Rightarrow> Blockchain option" where
  "saveTransactions_loop E [] bc = Some bc"
| "saveTransactions_loop E (tx # txs) bc = do { (_, bc) \<leftarrow> pool_return E tx bc; saveTransactions_loop E txs bc }"

definition saveTransactions :: "ChainEnv \<Rightarrow> Transaction list \<Rightarrow> Blockchain \<Rightarrow> Blockchain option" where
  "saveTransactions E transactions bc = saveTransactions_loop E (rev transactions) bc"

text \<open>When a transaction is missing, those taken before go back; a failure to add one is an exception.\<close>

fun giveBack :: "ChainEnv \<Rightarrow> Transaction list \<Rightarrow> Blockchain \<Rightarrow> Blockchain option" where
  "giveBack E [] bc = Some bc"
| "giveBack E (tx # txs) bc = do { (ok, bc) \<leftarrow> pool_return E tx bc; if \<not> ok then None else giveBack E txs bc }"

fun loadTransactions_loop :: "ChainEnv \<Rightarrow> Hash list \<Rightarrow> Transaction list \<Rightarrow> Blockchain \<Rightarrow> (Transaction list option \<times> Blockchain) option" where
  "loadTransactions_loop E [] taken bc = Some (Some (rev taken), bc)"
| "loadTransactions_loop E (h # hs) taken bc = do {
     (r, p) \<leftarrow> take_tx (ce_crypto E) h (m_tx_pool bc);
     case r of
       None \<Rightarrow> do { bc \<leftarrow> giveBack E taken (bc\<lparr>m_tx_pool := p\<rparr>); Some (None, bc) }
     | Some (tx, _, _) \<Rightarrow> loadTransactions_loop E hs (tx # taken) (bc\<lparr>m_tx_pool := p\<rparr>) }"

definition loadTransactions :: "ChainEnv \<Rightarrow> Block \<Rightarrow> Blockchain \<Rightarrow> (Transaction list option \<times> Blockchain) option" where
  "loadTransactions E block bc = loadTransactions_loop E (blk_transactionHashes block) [] bc"

section \<open>Popping\<close>

fun pop_list :: "Crypto \<Rightarrow> (Transaction \<times> Hash) list \<Rightarrow> 'a ChainTables_scheme \<Rightarrow> 'a ChainTables_scheme option" where
  "pop_list C [] t = Some t"
| "pop_list C ((tx, h) # txs) t = do { t \<leftarrow> popTransaction C tx h t; pop_list C txs t }"

text \<open>The transactions of a block in reverse order, the miner transaction last.\<close>

definition popTransactions :: "Crypto \<Rightarrow> BlockEntry \<Rightarrow> Hash \<Rightarrow> 'a ChainTables_scheme \<Rightarrow> 'a ChainTables_scheme option" where
  "popTransactions C block minerTransactionHash t =
    (let txs = map te_tx (tl (be_transactions block)); hashes = blk_transactionHashes (be_bl block) in
     if length txs > length hashes then None
     else do {
       t \<leftarrow> pop_list C (rev (zip txs hashes)) t;
       popTransaction C (blk_baseTransaction (be_bl block)) minerTransactionHash t })"

definition removeLastBlock :: "ChainEnv \<Rightarrow> Blockchain \<Rightarrow> Blockchain option" where
  "removeLastBlock E bc =
    (if m_blocks bc = [] then Some bc
     else do {
       let block = last (m_blocks bc);
       bc \<leftarrow> popTransactions (ce_crypto E) block (snd (getObjectHash (ce_H E) write_Transaction (blk_baseTransaction (be_bl block)))) bc;
       blockHash \<leftarrow> getBlockIdByHeight (be_height block) bc;
       (_, generated) \<leftarrow> gti_remove (be_bl block) (m_generatedTransactionsIndex bc);
       let bc = bc\<lparr>bc_timestampIndex := snd (tbi_remove (blk_timestamp (be_bl block)) blockHash (bc_timestampIndex bc)),
         m_generatedTransactionsIndex := generated, m_blocks := butlast (m_blocks bc), m_blockIndex := bi_pop (m_blockIndex bc)\<rparr>;
       if length (m_blockIndex bc) \<noteq> length (m_blocks bc) then None else Some bc })"

text \<open>The three detectors look at the blocks of the chain.\<close>

definition detectors_popped :: "'c Currency_scheme \<Rightarrow> Blockchain \<Rightarrow> Blockchain option" where
  "detectors_popped cur bc = do {
     d2 \<leftarrow> blockPopped cur (map be_bl (m_blocks bc)) (m_upgradeDetectorV2 bc);
     d3 \<leftarrow> blockPopped cur (map be_bl (m_blocks bc)) (m_upgradeDetectorV3 bc);
     d4 \<leftarrow> blockPopped cur (map be_bl (m_blocks bc)) (m_upgradeDetectorV4 bc);
     Some (bc\<lparr>m_upgradeDetectorV2 := d2, m_upgradeDetectorV3 := d3, m_upgradeDetectorV4 := d4\<rparr>) }"

definition popBlock :: "ChainEnv \<Rightarrow> Blockchain \<Rightarrow> Blockchain option" where
  "popBlock E bc =
    (if m_blocks bc = [] then Some bc
     else if be_transactions (last (m_blocks bc)) = [] then None
     else do {
       bc \<leftarrow> saveTransactions E (map te_tx (tl (be_transactions (last (m_blocks bc))))) bc;
       bc \<leftarrow> removeLastBlock E bc;
       detectors_popped (ce_currency E) bc })"

text \<open>The loop of \<open>rollbackBlockchainTo\<close> removes one block in each round.\<close>

lemma pop_list_more: "pop_list C txs t = Some t' \<Longrightarrow> ChainTables.more t' = ChainTables.more t"
proof (induction txs arbitrary: t)
  case (Cons p txs)
  then show ?case by (cases p) (auto simp: bind_eq_Some_conv dest: popTransaction_more)
qed simp

lemma popTransactions_more: "popTransactions C block h t = Some t' \<Longrightarrow> ChainTables.more t' = ChainTables.more t"
  by (auto simp: popTransactions_def bind_eq_Some_conv Let_def split: if_splits dest!: popTransaction_more pop_list_more)

lemma more_fields:
  "ChainTables.more bc' = ChainTables.more bc \<Longrightarrow> m_blocks bc' = m_blocks bc \<and> m_blockIndex bc' = m_blockIndex bc
    \<and> bc_timestampIndex bc' = bc_timestampIndex bc \<and> m_generatedTransactionsIndex bc' = m_generatedTransactionsIndex bc
    \<and> m_upgradeDetectorV2 bc' = m_upgradeDetectorV2 bc \<and> m_upgradeDetectorV3 bc' = m_upgradeDetectorV3 bc
    \<and> m_upgradeDetectorV4 bc' = m_upgradeDetectorV4 bc \<and> m_checkpoints bc' = m_checkpoints bc \<and> m_tx_pool bc' = m_tx_pool bc
    \<and> m_lastKnownBlockHeight bc' = m_lastKnownBlockHeight bc \<and> m_is_in_checkpoint_zone bc' = m_is_in_checkpoint_zone bc
    \<and> m_alternative_chains bc' = m_alternative_chains bc \<and> m_current_block_cumul_sz_limit bc' = m_current_block_cumul_sz_limit bc
    \<and> PrivacyMemBC bc' = PrivacyMemBC bc"
  by (cases bc; cases bc') simp

lemma removeLastBlock_blocks: "removeLastBlock E bc = Some bc' \<Longrightarrow> m_blocks bc' = butlast (m_blocks bc)"
  by (auto simp: removeLastBlock_def bind_eq_Some_conv Let_def split: if_splits dest!: popTransactions_more more_fields)

function rollbackBlockchainTo :: "ChainEnv \<Rightarrow> u32 \<Rightarrow> Blockchain \<Rightarrow> Blockchain option" where
  "rollbackBlockchainTo E height bc =
    (if unat (height + 1) < length (m_blocks bc)
     then case removeLastBlock E bc of None \<Rightarrow> None | Some bc \<Rightarrow> rollbackBlockchainTo E height bc
     else Some bc)"
  by pat_completeness auto
termination by (relation "measure (\<lambda>(_, _, bc). length (m_blocks bc))") (auto dest: removeLastBlock_blocks)

declare rollbackBlockchainTo.simps [simp del]

section \<open>Pushing\<close>

definition getInputAmount :: "Transaction \<Rightarrow> u64" where
  "getInputAmount tx = fold (\<lambda>i amount. case i of KeyInput a idx k \<Rightarrow> amount + a | MultisignatureInput a n j \<Rightarrow> amount + a | BaseInput b \<Rightarrow> amount)
    (tx_inputs tx) 0"

definition getOutputAmount :: "Transaction \<Rightarrow> u64" where
  "getOutputAmount tx = fold (\<lambda>out amount. amount + out_amount out) (tx_outputs tx) 0"

definition detectors_pushed :: "'c Currency_scheme \<Rightarrow> Blockchain \<Rightarrow> Blockchain option" where
  "detectors_pushed cur bc = do {
     d2 \<leftarrow> blockPushed cur (map be_bl (m_blocks bc)) (m_upgradeDetectorV2 bc);
     d3 \<leftarrow> blockPushed cur (map be_bl (m_blocks bc)) (m_upgradeDetectorV3 bc);
     d4 \<leftarrow> blockPushed cur (map be_bl (m_blocks bc)) (m_upgradeDetectorV4 bc);
     Some (bc\<lparr>m_upgradeDetectorV2 := d2, m_upgradeDetectorV3 := d3, m_upgradeDetectorV4 := d4\<rparr>) }"

definition pushBlock_entry :: "ChainEnv \<Rightarrow> BlockEntry \<Rightarrow> Blockchain \<Rightarrow> Blockchain option" where
  "pushBlock_entry E block bc = do {
     let blockHash = block_hash (ce_H E) (be_bl block);
     (_, generated) \<leftarrow> gti_add (be_bl block) (m_generatedTransactionsIndex bc);
     let bc = bc\<lparr>m_blocks := m_blocks bc @ [block], m_blockIndex := snd (bi_push (m_blockIndex bc) blockHash),
       bc_timestampIndex := snd (tbi_add (blk_timestamp (be_bl block)) blockHash (bc_timestampIndex bc)),
       m_generatedTransactionsIndex := generated\<rparr>;
     if length (m_blockIndex bc) \<noteq> length (m_blocks bc) then None else Some bc }"

text \<open>
  The loop over the transactions of a block: whether all were accepted, the entries pushed, and the size and
  the fees so far. The result of \<open>pushTransaction\<close> is not looked at. The height in a new entry is not set yet.
\<close>

fun push_loop :: "ChainEnv \<Rightarrow> bool \<Rightarrow> TransactionIndex \<Rightarrow> (Transaction \<times> Hash) list \<Rightarrow> TransactionEntry list \<Rightarrow> u64 \<Rightarrow> u64 \<Rightarrow> Blockchain
    \<Rightarrow> (bool \<times> TransactionEntry list \<times> u64 \<times> u64 \<times> Blockchain) option" where
  "push_loop E in_zone ti [] entries sz fee bc = Some (True, entries, sz, fee, bc)"
| "push_loop E in_zone ti ((tx, tx_id) # txs) entries sz fee bc = do {
     ba \<leftarrow> write_Transaction tx;
     (ok, _) \<leftarrow> checkTransactionInputs E bc tx False;
     if \<not> ok then Some (False, entries, sz, fee, bc)
     else do {
       (traceable, bc) \<leftarrow> (if \<not> in_zone then check_non_privacy E tx bc else Some (True, bc));
       if \<not> traceable then Some (False, entries, sz, fee, bc)
       else do {
         let ti = ti\<lparr>ti_transaction := ti_transaction ti + 1\<rparr>;
         (_, te, bc) \<leftarrow> pushTransaction (ce_crypto E) (check_tx_inputs_keyimages_domain bc) (ce_uninit_height E)
           \<lparr>te_tx = tx, te_global_output_indexes = []\<rparr> tx_id ti bc;
         push_loop E in_zone ti txs (entries @ [te]) (sz + word_of_nat (length ba)) (fee + (getInputAmount tx - getOutputAmount tx)) bc } } }"

text \<open>The checks before anything is pushed: the difficulty, or why the block is refused.\<close>

datatype refusal = RefusedSilently | RefusedFailed

definition check_new_block :: "ChainEnv \<Rightarrow> Block \<Rightarrow> Hash \<Rightarrow> Blockchain \<Rightarrow> (refusal + u64 \<times> bool) option" where
  "check_new_block E b blockHash bc =
    (let cur = ce_currency E; n = getCurrentBlockchainHeight bc in
     if hasBlock (m_blockIndex bc) blockHash then Some (Inl RefusedFailed)
     else if \<not> checkBlockVersion cur bc b then Some (Inl RefusedFailed)
     else if \<not> checkParentBlockSize (ce_H E) b then Some (Inl RefusedFailed)
     else if getMergeMiningTagFromExtra (tx_extra (blk_baseTransaction b)) \<noteq> None \<and> blk_majorVersion b \<ge> BLOCK_MAJOR_VERSION_4
     then Some (Inl RefusedSilently)
     else do {
       tail \<leftarrow> getTailId bc;
       if blk_previousBlockHash b \<noteq> tail then Some (Inl RefusedFailed)
       else if \<not> check_block_timestamp_main cur (ce_time E) bc b then Some (Inl RefusedFailed)
       else case getDifficultyForNextBlock cur bc of
         Inl e \<Rightarrow> None
       | Inr currentDifficulty \<Rightarrow>
           if currentDifficulty = 0 then Some (Inl RefusedSilently)
           else let in_zone = is_in_checkpoint_zone (m_checkpoints bc) n in
             if in_zone \<and> \<not> fst (check_block (m_checkpoints bc) n blockHash) then Some (Inl RefusedFailed)
             else if \<not> in_zone \<and> checkProofOfWork (ce_H E) (ce_slow_hash E) cur b currentDifficulty = None then Some (Inl RefusedFailed)
             else if \<not> prevalidate_miner_transaction cur b n then Some (Inl RefusedFailed)
             else Some (Inr (currentDifficulty, in_zone)) })"

definition authorised :: "ChainEnv \<Rightarrow> bool \<Rightarrow> Block \<Rightarrow> Blockchain \<Rightarrow> bool" where
  "authorised E in_zone b bc =
    (let block_diff = int (unat (m_lastKnownBlockHeight bc)) - int (length (m_blocks bc)) in
     \<not> (\<not> in_zone \<and> (block_diff \<le> 100 \<or> block_diff mod 100 = 0) \<and> \<not> ce_AuthBlock E (getCurrentBlockchainHeight bc) (blk_nonce b)))"

abbreviation failed :: "block_verification_context \<Rightarrow> block_verification_context" where
  "failed bvc \<equiv> bvc\<lparr>bvc_verification_failed := True\<rparr>"

definition pushBlock_txs :: "ChainEnv \<Rightarrow> Block \<Rightarrow> Transaction list \<Rightarrow> block_verification_context \<Rightarrow> Blockchain
    \<Rightarrow> (bool \<times> block_verification_context \<times> Blockchain) option" where
  "pushBlock_txs E b transactions bvc bc = do {
     let cur = ce_currency E;
     let n = getCurrentBlockchainHeight bc;
     let blockHash = block_hash (ce_H E) b;
     r \<leftarrow> check_new_block E b blockHash bc;
     case r of
       Inl RefusedSilently \<Rightarrow> Some (False, bvc, bc)
     | Inl RefusedFailed \<Rightarrow> Some (False, failed bvc, bc)
     | Inr (currentDifficulty, in_zone) \<Rightarrow> do {
         let minerTransactionHash = snd (getObjectHash (ce_H E) write_Transaction (blk_baseTransaction b));
         let ti = \<lparr>ti_block = n, ti_transaction = 0\<rparr>;
         (_, te, bc) \<leftarrow> pushTransaction (ce_crypto E) (check_tx_inputs_keyimages_domain bc) (ce_uninit_height E)
           \<lparr>te_tx = blk_baseTransaction b, te_global_output_indexes = []\<rparr> minerTransactionHash ti bc;
         let coinbase_blob_size = word_of_nat (snd (getObjectBinarySize write_Transaction (blk_baseTransaction b)));
         if length (blk_transactionHashes b) < length transactions then None
         else do {
           (ok, entries, sz, fee, bc) \<leftarrow> push_loop E in_zone ti (zip transactions (blk_transactionHashes b)) [te] coinbase_blob_size 0 bc;
           let block = \<lparr>be_bl = b, be_height = n, be_block_cumulative_size = sz, be_cumulative_difficulty = currentDifficulty,
             be_already_generated_coins = 0, be_transactions = entries\<rparr>;
           if \<not> ok then do {
             bc \<leftarrow> popTransactions (ce_crypto E) block minerTransactionHash bc;
             Some (False, failed bvc, bc) }
           else do {
             small \<leftarrow> checkCumulativeBlockSize cur sz (word_of_nat (length (m_blocks bc)));
             if \<not> small then Some (False, failed bvc, bc)
             else case validate_miner_transaction cur bc b n sz (getCoinsInCirculation bc) fee of
               Inl AssertionFailed \<Rightarrow> None
             | Inl Refused \<Rightarrow> do { bc \<leftarrow> popTransactions (ce_crypto E) block minerTransactionHash bc; Some (False, failed bvc, bc) }
             | Inr (valid, reward, emissionChange) \<Rightarrow>
                 if \<not> valid \<or> \<not> authorised E in_zone b bc
                 then do { bc \<leftarrow> popTransactions (ce_crypto E) block minerTransactionHash bc; Some (False, failed bvc, bc) }
                 else do {
                   let block = block\<lparr>be_already_generated_coins := getCoinsInCirculation bc + emissionChange,
                     be_cumulative_difficulty := currentDifficulty
                       + (if m_blocks bc = [] then 0 else be_cumulative_difficulty (last (m_blocks bc)))\<rparr>;
                   bc \<leftarrow> pushBlock_entry E block bc;
                   bc \<leftarrow> detectors_pushed cur bc;
                   Some (True, bvc\<lparr>m_added_to_main_chain := True\<rparr>, update_next_cumulative_size_limit cur bc) } } } } }"

definition pushBlock :: "ChainEnv \<Rightarrow> Block \<Rightarrow> block_verification_context \<Rightarrow> Blockchain \<Rightarrow> (bool \<times> block_verification_context \<times> Blockchain) option" where
  "pushBlock E b bvc bc = do {
     (loaded, bc) \<leftarrow> loadTransactions E b bc;
     case loaded of
       None \<Rightarrow> Some (False, failed bvc, bc)
     | Some transactions \<Rightarrow> do {
         (ok, bvc, bc) \<leftarrow> pushBlock_txs E b transactions bvc bc;
         if \<not> ok then do { bc \<leftarrow> saveTransactions E transactions bc; Some (False, bvc, bc) }
         else Some (True, bvc, bc) } }"

end
