(* ===== verification/BlockchainUndo.thy ===== *)
theory BlockchainUndo
  imports Blockchain
begin

text \<open>
  The transactions of a block as \<open>pushBlock\<close> of \<open>src/src/DynexCNCore/Blockchain.cpp\<close> pushes them: what
  the check of the inputs establishes, the loop over the transactions, and \<open>popTransactions\<close> as its inverse,
  also when the loop stops at a transaction that is refused.
\<close>

section \<open>What the check of the inputs establishes\<close>

lemma check_inputs_loop_ok:
  assumes "check_inputs_loop E bc ph ins sigs m = Some (True, m')" "\<forall>k\<in>set (images ins). check_tx_inputs_keyimages_domain bc k"
  shows "(\<forall>k\<in>set (images ins). spentKeyImages bc k = None)
    \<and> (\<forall>p\<in>set (msig_pairs ins). unat (snd p) < length (vec (m_multisignatureOutputs bc) (fst p)) \<and> \<not> used_at (m_multisignatureOutputs bc) p)"
  using assms
proof (induction ins arbitrary: sigs m rule: images.induct)
  case (2 a idx k ins)
  then obtain s ss m1 where "sigs = s # ss" "check_inputs_loop E bc ph ins ss m1 = Some (True, m')" "\<not> have_tx_keyimg_as_spent k bc"
    by (cases sigs) (auto split: if_splits simp: bind_eq_Some_conv)
  with 2(1)[OF this(2)] 2(3) show ?case by (auto simp: have_tx_keyimg_as_spent_def checkIfSpent_def split: if_splits)
next
  case (3 a n i ins)
  then obtain s ss where s: "sigs = s # ss" "check_inputs_loop E bc ph ins ss m = Some (True, m')" "validateInput E bc a n i ph s = Some True"
    by (cases sigs) (auto split: if_splits simp: bind_eq_Some_conv)
  from s(3) have "unat i < length (vec (m_multisignatureOutputs bc) a) \<and> \<not> used_at (m_multisignatureOutputs bc) (a, i)"
    by (auto simp: validateInput_def vec_def used_at_def Let_def bind_eq_Some_conv split: if_splits option.splits)
  with 3(1)[OF s(2)] 3(3) show ?case by auto
next
  case (4 h ins)
  then show ?case by (cases sigs) auto
qed auto

lemma pushTransaction_ok:
  assumes "pushTransaction C valid height te h ti t = Some (r, te', t')"
    "m_transactionMap t h = None" "distinct (images (tx_inputs (te_tx te)))" "distinct (msig_pairs (tx_inputs (te_tx te)))"
    "\<forall>k\<in>set (images (tx_inputs (te_tx te))). spentKeyImages t k = None"
    "\<forall>p\<in>set (msig_pairs (tx_inputs (te_tx te))). unat (snd p) < length (vec (m_multisignatureOutputs t) (fst p))"
  shows "r" "m_transactionMap t' = (m_transactionMap t)(h \<mapsto> ti)"
proof -
  have "length (tx_outputs (te_tx te)) < 2 ^ 16"
    using assms(1,2,4) push_images_total[OF assms(3,5), of valid height "[]"]
    by (auto simp: pushTransaction_def checkMultisignatureInputsDiff_iff bind_eq_Some_conv not_le split: if_splits)
  from pushTransaction_succeeds[OF assms(2-6) this, of C valid height ti] assms(1)
  show "r" "m_transactionMap t' = (m_transactionMap t)(h \<mapsto> ti)" by auto
qed

section \<open>Undoing the transactions of a block\<close>

text \<open>A transaction that is entered stays entered while others are pushed.\<close>

lemma pushTransaction_keeps:
  "pushTransaction C valid height te h ti t = Some (r, te', t') \<Longrightarrow> m_transactionMap t k \<noteq> None \<Longrightarrow> m_transactionMap t' k \<noteq> None"
  by (auto simp: pushTransaction_def bind_eq_Some_conv Let_def case_prod_beta split: if_splits)

text \<open>What the checks of the core establish for a single transaction.\<close>

definition spends_once :: "'a Blockchain_scheme \<Rightarrow> Transaction \<Rightarrow> bool" where
  "spends_once bc tx \<longleftrightarrow> distinct (images (tx_inputs tx)) \<and> distinct (msig_pairs (tx_inputs tx))
    \<and> (\<forall>k\<in>set (images (tx_inputs tx)). check_tx_inputs_keyimages_domain bc k)"

text \<open>Everything that is not one of the tables and not the memory of \<open>check_non_privacy\<close>.\<close>

definition same_rest :: "Blockchain \<Rightarrow> Blockchain \<Rightarrow> bool" where
  "same_rest bc bc' \<longleftrightarrow> ChainTables.more (bc\<lparr>PrivacyMemBC := []\<rparr>) = ChainTables.more (bc'\<lparr>PrivacyMemBC := []\<rparr>)"

lemma same_rest_refl [simp]: "same_rest bc bc"
  by (simp add: same_rest_def)

lemma same_rest_trans: "same_rest a b \<Longrightarrow> same_rest b c \<Longrightarrow> same_rest a c"
  by (simp add: same_rest_def)

lemma same_rest_fields:
  "same_rest bc bc' \<Longrightarrow> m_blocks bc' = m_blocks bc \<and> m_blockIndex bc' = m_blockIndex bc
    \<and> bc_timestampIndex bc' = bc_timestampIndex bc \<and> m_generatedTransactionsIndex bc' = m_generatedTransactionsIndex bc
    \<and> m_upgradeDetectorV2 bc' = m_upgradeDetectorV2 bc \<and> m_upgradeDetectorV3 bc' = m_upgradeDetectorV3 bc
    \<and> m_upgradeDetectorV4 bc' = m_upgradeDetectorV4 bc \<and> m_lastKnownBlockHeight bc' = m_lastKnownBlockHeight bc"
  unfolding same_rest_def by (cases bc; cases bc') simp

lemma same_rest_more: "ChainTables.more bc = ChainTables.more bc' \<Longrightarrow> same_rest bc bc'"
  unfolding same_rest_def by (cases bc; cases bc') simp

lemma same_rest_memory [simp]: "same_rest bc (bc\<lparr>PrivacyMemBC := mem\<rparr>)"
  by (simp add: same_rest_def)

lemma same_tables_memory [simp]: "same_tables (bc\<lparr>PrivacyMemBC := mem\<rparr>) bc" "tables_ok (bc\<lparr>PrivacyMemBC := mem\<rparr>) = tables_ok bc"
  by (simp_all add: same_tables_def tables_ok_def)

lemma check_non_privacy_memory: "check_non_privacy E tx bc = Some (r, bc') \<Longrightarrow> \<exists>mem. bc' = bc\<lparr>PrivacyMemBC := mem\<rparr>"
  by (auto simp: check_non_privacy_def Let_def bind_eq_Some_conv split: option.splits if_splits intro: exI[of _ "PrivacyMemBC bc"])

lemma domain_same: "m_blocks bc' = m_blocks bc \<Longrightarrow> check_tx_inputs_keyimages_domain bc' = check_tx_inputs_keyimages_domain bc"
  by (simp add: fun_eq_iff check_tx_inputs_keyimages_domain_def getCurrentBlockchainHeight_def)

lemma pop_list_append: "pop_list C (xs @ ys) t = do { t \<leftarrow> pop_list C xs t; pop_list C ys t }"
proof (induction xs arbitrary: t)
  case (Cons p xs)
  then show ?case by (cases p; cases "popTransaction C (fst p) (snd p) t") auto
qed simp

text \<open>Pushing one transaction that has passed the checks can be undone.\<close>

lemma push_one:
  fixes bc :: "'a Blockchain_scheme"
  assumes p: "pushTransaction C (check_tx_inputs_keyimages_domain bc) height \<lparr>te_tx = tx, te_global_output_indexes = []\<rparr> h ti bc = Some (r, te, bc')"
    and i: "\<forall>k\<in>set (images (tx_inputs tx)). spentKeyImages bc k = None"
      "\<forall>p\<in>set (msig_pairs (tx_inputs tx)). unat (snd p) < length (vec (m_multisignatureOutputs bc) (fst p)) \<and> \<not> used_at (m_multisignatureOutputs bc) p"
    and s: "spends_once bc tx" and f: "m_transactionMap bc h = None" and ok: "tables_ok bc"
  shows "tables_ok bc'" "m_transactionMap bc' = (m_transactionMap bc)(h \<mapsto> ti)"
    "dom (spentKeyImages bc') = set (images (tx_inputs tx)) \<union> dom (spentKeyImages bc)"
    "\<And>t1 :: 'a Blockchain_scheme. same_tables t1 bc' \<Longrightarrow> \<exists>t2. popTransaction C tx h t1 = Some t2 \<and> same_tables t2 bc"
proof -
  let ?te = "\<lparr>te_tx = tx, te_global_output_indexes = []\<rparr>"
  have r: "r" "m_transactionMap bc' = (m_transactionMap bc)(h \<mapsto> ti)"
    using pushTransaction_ok[OF p f] i s by (auto simp: spends_once_def)
  then have p': "pushTransaction C (check_tx_inputs_keyimages_domain bc) height ?te h ti bc = Some (True, te, bc')" using p by simp
  show "tables_ok bc'" by (rule push_tables_ok[OF p' ok])
  show "m_transactionMap bc' = (m_transactionMap bc)(h \<mapsto> ti)" by (rule r)
  have "push_images (check_tx_inputs_keyimages_domain bc) height [] (tx_inputs tx) (spentKeyImages bc) = Some (True, spentKeyImages bc')"
    by (rule pushTransaction_cases[OF p']) simp
  from push_images_ok[OF this] s show "dom (spentKeyImages bc') = set (images (tx_inputs tx)) \<union> dom (spentKeyImages bc)"
    by (auto simp: spends_once_def split: if_splits)
  have "may_push (check_tx_inputs_keyimages_domain bc) (te_tx ?te) bc" using i s by (auto simp: may_push_def spends_once_def)
  from popTransaction_push[OF p' this ok]
  show "\<exists>t2. popTransaction C tx h t1 = Some t2 \<and> same_tables t2 bc" if "same_tables t1 bc'" for t1 :: "'a Blockchain_scheme" using that by simp
qed

definition blob_size :: "Transaction \<Rightarrow> u64" where
  "blob_size tx = word_of_nat (length (the (write_Transaction tx)))"

definition tx_fee :: "Transaction \<Rightarrow> u64" where
  "tx_fee tx = getInputAmount tx - getOutputAmount tx"

text \<open>One round of the loop: the transaction is refused, or it is pushed and the loop goes on.\<close>

lemma push_loop_Cons:
  assumes "push_loop E z ti ((tx, h) # L) entries sz fee bc = Some (ok, entries', sz', fee', bc')"
  obtains (stop) mem where "\<not> ok" "entries' = entries" "bc' = bc\<lparr>PrivacyMemBC := mem\<rparr>"
  | (go) m mem ti' te r bc2 where
    "push_loop E z ti' L (entries @ [te]) (sz + blob_size tx) (fee + tx_fee tx) bc2 = Some (ok, entries', sz', fee', bc')"
    "pushTransaction (ce_crypto E) (check_tx_inputs_keyimages_domain (bc\<lparr>PrivacyMemBC := mem\<rparr>)) (ce_uninit_height E)
      \<lparr>te_tx = tx, te_global_output_indexes = []\<rparr> h ti' (bc\<lparr>PrivacyMemBC := mem\<rparr>) = Some (r, te, bc2)"
    "checkTransactionInputs E bc tx False = Some (True, m)" "te_tx te = tx" "same_rest bc bc2"
    "ti' = ti\<lparr>ti_transaction := ti_transaction ti + 1\<rparr>"
proof -
  have self: "\<exists>mem. bc = bc\<lparr>PrivacyMemBC := mem\<rparr>" by (rule exI[of _ "PrivacyMemBC bc"]) simp
  from assms consider "\<not> ok" "entries' = entries" "bc' = bc \<or> (\<exists>r. check_non_privacy E tx bc = Some (r, bc'))"
    | m bc1 ti' te r bc2 where
      "push_loop E z ti' L (entries @ [te]) (sz + blob_size tx) (fee + tx_fee tx) bc2 = Some (ok, entries', sz', fee', bc')"
      "pushTransaction (ce_crypto E) (check_tx_inputs_keyimages_domain bc1) (ce_uninit_height E) \<lparr>te_tx = tx, te_global_output_indexes = []\<rparr> h ti' bc1 = Some (r, te, bc2)"
      "checkTransactionInputs E bc tx False = Some (True, m)" "bc1 = bc \<or> check_non_privacy E tx bc = Some (True, bc1)"
      "ti' = ti\<lparr>ti_transaction := ti_transaction ti + 1\<rparr>"
    by (auto simp: bind_eq_Some_conv blob_size_def tx_fee_def Let_def split: if_splits)
  then show ?thesis
  proof cases
    case 1
    then have "\<exists>mem. bc' = bc\<lparr>PrivacyMemBC := mem\<rparr>" using self check_non_privacy_memory by blast
    with 1 show ?thesis using stop by blast
  next
    case 2
    obtain mem where mem: "bc1 = bc\<lparr>PrivacyMemBC := mem\<rparr>" using 2(4) self check_non_privacy_memory by blast
    have "same_rest bc bc2" unfolding same_rest_def using pushTransaction_more[OF 2(2)] mem
      same_rest_memory[of bc mem] same_rest_more[of bc2 bc1] same_rest_def by metis
    then show ?thesis using go[OF 2(1) 2(2)[unfolded mem] 2(3)] pushTransaction_tx[OF 2(2)] 2(5) by simp
  qed
qed

text \<open>The loop leaves the rest of the chain alone, and keeps what is entered; the sums of a complete loop.\<close>

lemma push_loop_rest:
  assumes "push_loop E z ti L entries sz fee bc = Some (ok, entries', sz', fee', bc')"
  shows "same_rest bc bc'" "m_transactionMap bc k \<noteq> None \<Longrightarrow> m_transactionMap bc' k \<noteq> None"
    "ok \<Longrightarrow> map te_tx entries' = map te_tx entries @ map fst L \<and> sz' = sz + sum_list (map (blob_size \<circ> fst) L)
      \<and> fee' = fee + sum_list (map (tx_fee \<circ> fst) L)"
proof -
  have "same_rest bc bc' \<and> (m_transactionMap bc k \<noteq> None \<longrightarrow> m_transactionMap bc' k \<noteq> None)
    \<and> (ok \<longrightarrow> map te_tx entries' = map te_tx entries @ map fst L \<and> sz' = sz + sum_list (map (blob_size \<circ> fst) L)
      \<and> fee' = fee + sum_list (map (tx_fee \<circ> fst) L))"
    using assms
  proof (induction L arbitrary: ti entries sz fee bc)
    case (Cons p L)
    obtain tx h where p: "p = (tx, h)" by (cases p)
    from Cons.prems[unfolded p] show ?case
    proof (cases rule: push_loop_Cons)
      case (go m mem ti' te r bc2)
      have "m_transactionMap bc k \<noteq> None \<longrightarrow> m_transactionMap bc2 k \<noteq> None" using pushTransaction_keeps[OF go(2), of k] by simp
      then show ?thesis using Cons.IH[OF go(1)] go(4,5) by (auto simp: p add.assoc intro: same_rest_trans)
    qed simp
  qed simp
  then show "same_rest bc bc'" "m_transactionMap bc k \<noteq> None \<Longrightarrow> m_transactionMap bc' k \<noteq> None"
    "ok \<Longrightarrow> map te_tx entries' = map te_tx entries @ map fst L \<and> sz' = sz + sum_list (map (blob_size \<circ> fst) L)
      \<and> fee' = fee + sum_list (map (tx_fee \<circ> fst) L)" by blast+
qed

definition tx_images :: "Transaction list \<Rightarrow> KeyImage list" where
  "tx_images txs = concat (map (images \<circ> tx_inputs) txs)"

text \<open>The loop pushes the transactions up to the first that is refused; popping them in reverse order undoes it.\<close>

definition loop_undone :: "Crypto \<Rightarrow> (Transaction \<times> Hash) list \<Rightarrow> Blockchain \<Rightarrow> Blockchain \<Rightarrow> bool" where
  "loop_undone C L bc bc' \<longleftrightarrow> tables_ok bc' \<and> (\<forall>t1 :: Blockchain. same_tables t1 bc' \<longrightarrow> (\<exists>t2. pop_list C (rev L) t1 = Some t2 \<and> same_tables t2 bc))
    \<and> dom (m_transactionMap bc') = snd ` set L \<union> dom (m_transactionMap bc)
    \<and> dom (spentKeyImages bc') = set (tx_images (map fst L)) \<union> dom (spentKeyImages bc)
    \<and> distinct (tx_images (map fst L)) \<and> set (tx_images (map fst L)) \<inter> dom (spentKeyImages bc) = {}"

lemma loop_undone_Nil: "tables_ok bc' \<Longrightarrow> same_tables bc' bc \<Longrightarrow> loop_undone C [] bc bc'"
  unfolding loop_undone_def by (auto simp: tx_images_def intro: same_tables_trans) (auto simp: same_tables_def)

lemma loop_undone_memory: "loop_undone C L (bc\<lparr>PrivacyMemBC := mem\<rparr>) bc' = loop_undone C L bc bc'"
proof -
  have "same_tables t (bc\<lparr>PrivacyMemBC := mem\<rparr>) = same_tables t bc" for t :: Blockchain unfolding same_tables_def by simp
  then show ?thesis unfolding loop_undone_def by simp
qed

lemma loop_undoneD:
  assumes "loop_undone C L bc bc'"
  shows "tables_ok bc'" "\<And>t1 :: Blockchain. same_tables t1 bc' \<Longrightarrow> \<exists>t2. pop_list C (rev L) t1 = Some t2 \<and> same_tables t2 bc"
    "dom (m_transactionMap bc') = snd ` set L \<union> dom (m_transactionMap bc)"
    "dom (spentKeyImages bc') = set (tx_images (map fst L)) \<union> dom (spentKeyImages bc)"
    "distinct (tx_images (map fst L))" "set (tx_images (map fst L)) \<inter> dom (spentKeyImages bc) = {}"
  using assms unfolding loop_undone_def by simp_all

lemma loop_undone_Cons:
  assumes p: "pushTransaction C (check_tx_inputs_keyimages_domain bc) height \<lparr>te_tx = tx, te_global_output_indexes = []\<rparr> h ti bc = Some (r, te, bc2)"
    and i: "\<forall>k\<in>set (images (tx_inputs tx)). spentKeyImages bc k = None"
      "\<forall>p\<in>set (msig_pairs (tx_inputs tx)). unat (snd p) < length (vec (m_multisignatureOutputs bc) (fst p)) \<and> \<not> used_at (m_multisignatureOutputs bc) p"
    and s: "spends_once bc tx" and f: "m_transactionMap bc h = None" and ok: "tables_ok bc" and L: "loop_undone C L bc2 bc'"
  shows "loop_undone C ((tx, h) # L) bc bc'"
proof -
  note one = push_one[OF p i s f ok]
  have pop: "\<exists>t2. pop_list C (rev ((tx, h) # L)) t1 = Some t2 \<and> same_tables t2 bc" if st: "same_tables t1 bc'" for t1 :: Blockchain
  proof -
    obtain t2 where t2: "pop_list C (rev L) t1 = Some t2" "same_tables t2 bc2" using loop_undoneD(2)[OF L st] by blast
    obtain t3 where "popTransaction C tx h t2 = Some t3" "same_tables t3 bc" using one(4)[OF t2(2)] by blast
    with t2(1) show ?thesis by (simp add: pop_list_append)
  qed
  have new: "set (tx_images (map fst L)) \<inter> (set (images (tx_inputs tx)) \<union> dom (spentKeyImages bc)) = {}"
    using loop_undoneD(6)[OF L] unfolding one(3) .
  have tx: "distinct (images (tx_inputs tx))" "set (images (tx_inputs tx)) \<inter> dom (spentKeyImages bc) = {}"
    using s i(1) by (auto simp: spends_once_def)
  have im: "tx_images (map fst ((tx, h) # L)) = images (tx_inputs tx) @ tx_images (map fst L)" by (simp add: tx_images_def)
  have "dom (m_transactionMap bc') = snd ` set ((tx, h) # L) \<union> dom (m_transactionMap bc)" using loop_undoneD(3)[OF L] one(2) by auto
  moreover have "dom (spentKeyImages bc') = set (images (tx_inputs tx) @ tx_images (map fst L)) \<union> dom (spentKeyImages bc)"
    using loop_undoneD(4)[OF L] one(3) by auto
  moreover have "distinct (images (tx_inputs tx) @ tx_images (map fst L))" using loop_undoneD(5)[OF L] new tx(1) by auto
  moreover have "set (images (tx_inputs tx) @ tx_images (map fst L)) \<inter> dom (spentKeyImages bc) = {}" using new tx(2) by auto
  ultimately show ?thesis unfolding loop_undone_def im using loop_undoneD(1)[OF L] pop by blast
qed

lemma push_loop_undo:
  assumes "push_loop E z ti L entries sz fee bc = Some (ok, entries', sz', fee', bc')" "tables_ok bc"
    "distinct (map snd L)" "\<forall>h\<in>snd ` set L. m_transactionMap bc h = None" "\<forall>tx\<in>fst ` set L. spends_once bc tx"
  shows "\<exists>n E'. entries' = entries @ E' \<and> map te_tx E' = map fst (take n L) \<and> n \<le> length L \<and> (ok \<longrightarrow> n = length L)
    \<and> loop_undone (ce_crypto E) (take n L) bc bc'"
  using assms
proof (induction L arbitrary: ti entries sz fee bc)
  case Nil
  then show ?case by (auto intro: loop_undone_Nil)
next
  case (Cons p L)
  obtain tx h where p: "p = (tx, h)" by (cases p)
  from Cons.prems(1)[unfolded p] show ?case
  proof (cases rule: push_loop_Cons)
    case (stop mem)
    then have "loop_undone (ce_crypto E) (take 0 (p # L)) bc bc'" using Cons.prems(2) by (auto intro: loop_undone_Nil)
    with stop show ?thesis by (intro exI[of _ 0] exI[of _ "[]"]) auto
  next
    case (go m mem ti' te r bc2)
    define bc1 where "bc1 = bc\<lparr>PrivacyMemBC := mem\<rparr>"
    have pre: "spends_once bc tx" "m_transactionMap bc h = None" using Cons.prems(4,5) p by auto
    have i: "\<forall>k\<in>set (images (tx_inputs tx)). spentKeyImages bc1 k = None"
      "\<forall>p\<in>set (msig_pairs (tx_inputs tx)). unat (snd p) < length (vec (m_multisignatureOutputs bc1) (fst p)) \<and> \<not> used_at (m_multisignatureOutputs bc1) p"
      using check_inputs_loop_ok[OF go(3)[unfolded checkTransactionInputs_def]] pre(1) by (auto simp: spends_once_def bc1_def)
    have so: "spends_once bc2 = spends_once bc" "spends_once bc1 = spends_once bc"
      using domain_same[of bc2 bc] domain_same[of bc1 bc] same_rest_fields[OF go(5)] by (simp_all add: fun_eq_iff spends_once_def bc1_def)
    have ok1: "tables_ok bc1" "spends_once bc1 tx" "m_transactionMap bc1 h = None" using Cons.prems(2) pre so by (simp_all add: bc1_def)
    note one = push_one[OF go(2)[folded bc1_def] i ok1(2,3,1)]
    have h: "h \<notin> snd ` set L" "distinct (map snd L)" using Cons.prems(3) p by auto
    have "m_transactionMap bc2 k = None" if "k \<in> snd ` set L" for k
    proof -
      have "k \<noteq> h" "m_transactionMap bc k = None" using that h(1) Cons.prems(4) by auto
      then show ?thesis unfolding one(2) by (simp add: bc1_def)
    qed
    then have rest: "\<forall>h\<in>snd ` set L. m_transactionMap bc2 h = None" "\<forall>tx\<in>fst ` set L. spends_once bc2 tx"
      using Cons.prems(5) unfolding so by simp_all
    obtain n E' where IH: "entries' = (entries @ [te]) @ E'" "map te_tx E' = map fst (take n L)" "n \<le> length L" "ok \<longrightarrow> n = length L"
      "loop_undone (ce_crypto E) (take n L) bc2 bc'"
      using Cons.IH[OF go(1) one(1) h(2) rest] by blast
    have "loop_undone (ce_crypto E) (take (Suc n) (p # L)) bc bc'"
      using loop_undone_Cons[OF go(2)[folded bc1_def] i ok1(2,3,1) IH(5)] loop_undone_memory[where bc = bc and mem = mem] by (simp add: p bc1_def)
    then show ?thesis using IH(1-4) go(4) by (intro exI[of _ "Suc n"] exI[of _ "te # E'"]) (auto simp: p)
  qed
qed

lemma zip_prefix: "n \<le> length xs \<Longrightarrow> length xs \<le> length ys \<Longrightarrow> zip (map fst (take n (zip xs ys))) ys = take n (zip xs ys)"
  by (rule nth_equalityI) auto

abbreviation miner_hash :: "ChainEnv \<Rightarrow> Block \<Rightarrow> Hash" where
  "miner_hash E b \<equiv> snd (getObjectHash (ce_H E) write_Transaction (blk_baseTransaction b))"

text \<open>
  The transactions of a block are new and different, and each spends an output at most once, with key images
  in the domain; their positions fit the 16 bits of a \<open>TransactionIndex\<close>.
\<close>

definition block_fits :: "ChainEnv \<Rightarrow> Block \<Rightarrow> Transaction list \<Rightarrow> Blockchain \<Rightarrow> bool" where
  "block_fits E b txs bc \<longleftrightarrow> distinct (miner_hash E b # blk_transactionHashes b)
    \<and> (\<forall>h\<in>set (miner_hash E b # blk_transactionHashes b). m_transactionMap bc h = None) \<and> (\<forall>tx\<in>set txs. spends_once bc tx)
    \<and> length txs + 1 < 2 ^ 16"

lemma pop_list_snoc: "pop_list C (xs @ [(tx, h)]) t = Option.bind (pop_list C xs t) (popTransaction C tx h)"
proof (cases "pop_list C xs t")
  case (Some t')
  then show ?thesis by (cases "popTransaction C tx h t'") (simp_all add: pop_list_append)
qed (simp add: pop_list_append)

text \<open>The miner transaction and the loop together, and \<open>popTransactions\<close> as their inverse.\<close>

lemma block_undo:
  assumes pm: "pushTransaction (ce_crypto E) (check_tx_inputs_keyimages_domain bc) height \<lparr>te_tx = blk_baseTransaction b, te_global_output_indexes = []\<rparr>
      (miner_hash E b) ti bc = Some (r, te, bc1)"
    and base: "tx_inputs (blk_baseTransaction b) = [BaseInput n0]"
    and pl: "push_loop E z ti (zip txs (blk_transactionHashes b)) [te] sz 0 bc1 = Some (ok, entries, sz', fee', bc2)"
    and len: "length txs \<le> length (blk_transactionHashes b)" and fits: "block_fits E b txs bc" and tok: "tables_ok bc"
  shows "\<exists>n E'. entries = te # E' \<and> map te_tx E' = take n txs \<and> n \<le> length txs \<and> (ok \<longrightarrow> n = length txs)
    \<and> loop_undone (ce_crypto E) ((blk_baseTransaction b, miner_hash E b) # take n (zip txs (blk_transactionHashes b))) bc bc2
    \<and> (\<forall>block. be_bl block = b \<and> be_transactions block = entries \<longrightarrow> (popTransactions (ce_crypto E) block (miner_hash E b) :: Blockchain \<Rightarrow> Blockchain option)
      = pop_list (ce_crypto E) (rev ((blk_baseTransaction b, miner_hash E b) # take n (zip txs (blk_transactionHashes b)))))"
proof -
  let ?te = "\<lparr>te_tx = blk_baseTransaction b, te_global_output_indexes = []\<rparr>" and ?L = "zip txs (blk_transactionHashes b)"
  have base': "images (tx_inputs (blk_baseTransaction b)) = []" "msig_pairs (tx_inputs (blk_baseTransaction b)) = []" by (simp_all add: base)
  have f: "m_transactionMap bc (miner_hash E b) = None" using fits by (simp add: block_fits_def)
  have s: "spends_once bc (blk_baseTransaction b)" by (simp add: spends_once_def base')
  have i: "\<forall>k\<in>set (images (tx_inputs (blk_baseTransaction b))). spentKeyImages bc k = None"
    "\<forall>p\<in>set (msig_pairs (tx_inputs (blk_baseTransaction b))). unat (snd p) < length (vec (m_multisignatureOutputs bc) (fst p)) \<and> \<not> used_at (m_multisignatureOutputs bc) p"
    by (simp_all add: base')
  note one = push_one[OF pm i s f tok]
  have r1: "same_rest bc bc1" by (rule same_rest_more) (simp add: pushTransaction_more[OF pm])
  then have so: "spends_once bc1 = spends_once bc" using domain_same[of bc1 bc] same_rest_fields[OF r1] by (simp add: fun_eq_iff spends_once_def)
  have L: "map fst ?L = txs" "distinct (map snd ?L)" using len fits by (auto simp: block_fits_def map_snd_zip_take map_fst_zip_take)
  have inL: "snd ` set ?L \<subseteq> set (blk_transactionHashes b)" "fst ` set ?L \<subseteq> set txs" by (auto dest: set_zip_leftD set_zip_rightD)
  have fr: "\<forall>h\<in>snd ` set ?L. m_transactionMap bc1 h = None" "\<forall>tx\<in>fst ` set ?L. spends_once bc1 tx"
    using fits inL unfolding one(2) so block_fits_def by auto
  obtain n E' where u: "entries = [te] @ E'" "map te_tx E' = map fst (take n ?L)" "n \<le> length ?L" "ok \<longrightarrow> n = length ?L"
    "loop_undone (ce_crypto E) (take n ?L) bc1 bc2"
    using push_loop_undo[OF pl one(1) L(2) fr] by blast
  have lo: "loop_undone (ce_crypto E) ((blk_baseTransaction b, miner_hash E b) # take n ?L) bc bc2"
    by (rule loop_undone_Cons[OF pm i s f tok u(5)])
  have E': "map te_tx E' = take n txs" "n \<le> length txs" using u(2,3) L(1) len by (simp_all flip: take_map)
  have pop: "(popTransactions (ce_crypto E) block (miner_hash E b) :: Blockchain \<Rightarrow> Blockchain option) = pop_list (ce_crypto E) (rev ((blk_baseTransaction b, miner_hash E b) # take n ?L))"
    if bl: "be_bl block = b" "be_transactions block = entries" for block
  proof
    fix t :: Blockchain
    have z: "zip (map te_tx E') (blk_transactionHashes b) = take n ?L" using u(2,3) len zip_prefix[of n txs] by simp
    have "length E' \<le> length (blk_transactionHashes b)" using arg_cong[OF E'(1), of length] len by simp
    then show "popTransactions (ce_crypto E) block (miner_hash E b) t = pop_list (ce_crypto E) (rev ((blk_baseTransaction b, miner_hash E b) # take n ?L)) t"
      using z u(1) bl by (simp add: popTransactions_def Let_def pop_list_snoc)
  qed
  have "ok \<longrightarrow> n = length txs" using u(4) len by simp
  then show ?thesis using u(1) E' lo pop by (intro exI[of _ n] exI[of _ E']) simp
qed

end
