(* ===== verification/BlockchainInvariant.thy ===== *)
theory BlockchainInvariant
  imports BlockchainUndo
begin

text \<open>
  The outcomes of \<open>pushBlock\<close> (\<open>src/src/DynexCNCore/Blockchain.cpp\<close>) case by case, the invariant of the
  chain with its tables and indices, \<open>removeLastBlock\<close> as the inverse of an accepted block, and the states
  that are reachable by accepted, refused and removed blocks.
\<close>

section \<open>Accepted and refused blocks\<close>

lemma check_new_block_ok:
  assumes "check_new_block E b h bc = Some (Inr (d, z))"
  shows "\<not> hasBlock (m_blockIndex bc) h" "checkBlockVersion (ce_currency E) bc b" "checkParentBlockSize (ce_H E) b"
    "getTailId bc = Some (blk_previousBlockHash b)" "check_block_timestamp_main (ce_currency E) (ce_time E) bc b"
    "getDifficultyForNextBlock (ce_currency E) bc = Inr d" "d \<noteq> 0" "z = is_in_checkpoint_zone (m_checkpoints bc) (getCurrentBlockchainHeight bc)"
    "z \<Longrightarrow> fst (check_block (m_checkpoints bc) (getCurrentBlockchainHeight bc) h)"
    "\<not> z \<Longrightarrow> checkProofOfWork (ce_H E) (ce_slow_hash E) (ce_currency E) b d \<noteq> None"
    "prevalidate_miner_transaction (ce_currency E) b (getCurrentBlockchainHeight bc)"
  using assms unfolding check_new_block_def Let_def
  by (auto simp: bind_eq_Some_conv split: if_splits sum.splits)

lemma prevalidate_inputs: "prevalidate_miner_transaction cur b n \<Longrightarrow> tx_inputs (blk_baseTransaction b) = [BaseInput n]"
  by (cases "tx_inputs (blk_baseTransaction b)"; cases "hd (tx_inputs (blk_baseTransaction b))")
    (auto simp: prevalidate_miner_transaction_def Let_def split: if_splits)

definition block_size :: "Block \<Rightarrow> Transaction list \<Rightarrow> u64" where
  "block_size b txs = word_of_nat (snd (getObjectBinarySize write_Transaction (blk_baseTransaction b))) + sum_list (map blob_size txs)"

text \<open>What \<open>pushBlock\<close> has done when it reaches the loop's end.\<close>

lemma pushBlock_txs_cases:
  assumes "pushBlock_txs E b txs bvc bc = Some (ok, bvc', bc')"
  obtains (refused) "\<not> ok" "bc' = bc"
  | (pushed) d z te bc1 r oka entries sz fee bc2 where "check_new_block E b (block_hash (ce_H E) b) bc = Some (Inr (d, z))"
    "length txs \<le> length (blk_transactionHashes b)"
    "pushTransaction (ce_crypto E) (check_tx_inputs_keyimages_domain bc) (ce_uninit_height E)
       \<lparr>te_tx = blk_baseTransaction b, te_global_output_indexes = []\<rparr> (miner_hash E b) \<lparr>ti_block = getCurrentBlockchainHeight bc, ti_transaction = 0\<rparr> bc = Some (r, te, bc1)"
    "push_loop E z \<lparr>ti_block = getCurrentBlockchainHeight bc, ti_transaction = 0\<rparr> (zip txs (blk_transactionHashes b)) [te]
       (word_of_nat (snd (getObjectBinarySize write_Transaction (blk_baseTransaction b)))) 0 bc1 = Some (oka, entries, sz, fee, bc2)"
    "\<not> ok \<and> popTransactions (ce_crypto E) \<lparr>be_bl = b, be_height = getCurrentBlockchainHeight bc, be_block_cumulative_size = sz,
        be_cumulative_difficulty = d, be_already_generated_coins = 0, be_transactions = entries\<rparr> (miner_hash E b) bc2 = Some bc'
      \<or> \<not> ok \<and> oka \<and> bc' = bc2 \<and> checkCumulativeBlockSize (ce_currency E) sz (word_of_nat (length (m_blocks bc2))) = Some False
      \<or> ok \<and> oka \<and> checkCumulativeBlockSize (ce_currency E) sz (word_of_nat (length (m_blocks bc2))) = Some True
        \<and> (\<exists>reward change block bc3 bc4. validate_miner_transaction (ce_currency E) bc2 b (getCurrentBlockchainHeight bc) sz (getCoinsInCirculation bc2) fee
              = Inr (True, reward, change)
            \<and> block = \<lparr>be_bl = b, be_height = getCurrentBlockchainHeight bc, be_block_cumulative_size = sz,
                be_cumulative_difficulty = d + (if m_blocks bc2 = [] then 0 else be_cumulative_difficulty (last (m_blocks bc2))),
                be_already_generated_coins = getCoinsInCirculation bc2 + change, be_transactions = entries\<rparr>
            \<and> authorised E z b bc2 \<and> pushBlock_entry E block bc2 = Some bc3 \<and> detectors_pushed (ce_currency E) bc3 = Some bc4
            \<and> bvc' = bvc\<lparr>m_added_to_main_chain := True\<rparr> \<and> bc' = update_next_cumulative_size_limit (ce_currency E) bc4)"
proof -
  note as = assms[unfolded pushBlock_txs_def Let_def]
  obtain y where y: "check_new_block E b (block_hash (ce_H E) b) bc = Some y" using as by (cases "check_new_block E b (block_hash (ce_H E) b) bc") auto
  show ?thesis
  proof (cases y)
    case (Inl x)
    then have "\<not> ok \<and> bc' = bc" using as y by (cases x) auto
    then show ?thesis using refused by blast
  next
    case (Inr dz)
    obtain d z where dz: "dz = (d, z)" by (cases dz)
    let ?ti = "\<lparr>ti_block = getCurrentBlockchainHeight bc, ti_transaction = 0\<rparr>"
    obtain r te bc1 where pt: "pushTransaction (ce_crypto E) (check_tx_inputs_keyimages_domain bc) (ce_uninit_height E)
        \<lparr>te_tx = blk_baseTransaction b, te_global_output_indexes = []\<rparr> (miner_hash E b) ?ti bc = Some (r, te, bc1)"
      using as unfolding y Inr dz by (auto simp: bind_eq_Some_conv)
    have len: "length txs \<le> length (blk_transactionHashes b)" using as pt unfolding y Inr dz by (simp split: if_splits)
    obtain oka entries sz fee bc2 where pl: "push_loop E z ?ti (zip txs (blk_transactionHashes b)) [te]
       (word_of_nat (snd (getObjectBinarySize write_Transaction (blk_baseTransaction b)))) 0 bc1 = Some (oka, entries, sz, fee, bc2)"
      using as pt len unfolding y Inr dz by (auto simp: bind_eq_Some_conv)
    show ?thesis
      apply (rule pushed[OF _ len pt pl])
       apply (simp add: y Inr dz)
      using as pt len pl unfolding y Inr dz
      by (auto simp: bind_eq_Some_conv split: if_splits sum.splits currency_error.splits)
  qed
qed

lemma pushed_rest:
  assumes "pushTransaction C valid height te0 h ti bc = Some (r, te, bc1)"
    "push_loop E z ti L [te] sz0 0 bc1 = Some (ok, entries, sz, fee, bc2)"
  shows "same_rest bc bc2"
  using push_loop_rest(1)[OF assms(2)] same_rest_more[OF pushTransaction_more[OF assms(1), symmetric]] same_rest_trans by blast

lemma pushed_sums:
  assumes "pushTransaction C valid height \<lparr>te_tx = blk_baseTransaction b, te_global_output_indexes = []\<rparr> h ti bc = Some (r, te, bc1)"
    "push_loop E z ti (zip txs hs) [te] (word_of_nat (snd (getObjectBinarySize write_Transaction (blk_baseTransaction b)))) 0 bc1 = Some (ok, entries, sz, fee, bc2)"
    "ok" "length txs \<le> length hs"
  shows "sz = block_size b txs" "fee = sum_list (map tx_fee txs)" "map te_tx entries = blk_baseTransaction b # txs"
  using push_loop_rest(3)[OF assms(2,3)] pushTransaction_tx[OF assms(1)] assms(4)
  by (simp_all add: block_size_def map_fst_zip_take flip: map_map)

text \<open>A refused block leaves no trace, unless it is too big.\<close>

lemma pushBlock_txs_refused:
  assumes "pushBlock_txs E b txs bvc bc = Some (False, bvc', bc')" "tables_ok bc" "block_fits E b txs bc"
  shows "(same_tables bc' bc \<and> same_rest bc bc')
    \<or> checkCumulativeBlockSize (ce_currency E) (block_size b txs) (word_of_nat (length (m_blocks bc))) = Some False
      \<and> m_transactionMap bc' (miner_hash E b) \<noteq> None"
  using assms(1)
proof (cases rule: pushBlock_txs_cases)
  case (pushed d z te bc1 r oka entries sz fee bc2)
  note pv = prevalidate_inputs[OF check_new_block_ok(11)[OF pushed(1)]]
  obtain n E' where u: "entries = te # E'" "oka \<longrightarrow> n = length txs"
    "loop_undone (ce_crypto E) ((blk_baseTransaction b, miner_hash E b) # take n (zip txs (blk_transactionHashes b))) bc bc2"
    "\<forall>block. be_bl block = b \<and> be_transactions block = entries \<longrightarrow> (popTransactions (ce_crypto E) block (miner_hash E b) :: Blockchain \<Rightarrow> Blockchain option)
      = pop_list (ce_crypto E) (rev ((blk_baseTransaction b, miner_hash E b) # take n (zip txs (blk_transactionHashes b))))"
    using block_undo[OF pushed(3) pv pushed(4,2) assms(3,2)] by blast
  have r2: "same_rest bc bc2" by (rule pushed_rest[OF pushed(3,4)])
  from pushed(5) show ?thesis
  proof (elim disjE conjE)
    let ?block = "\<lparr>be_bl = b, be_height = getCurrentBlockchainHeight bc, be_block_cumulative_size = sz,
        be_cumulative_difficulty = d, be_already_generated_coins = 0, be_transactions = entries\<rparr>"
    assume p: "popTransactions (ce_crypto E) ?block (miner_hash E b) bc2 = Some bc'"
    have "same_tables bc' bc" using loop_undoneD(2)[OF u(3), of bc2] u(4)[rule_format, of ?block] p by simp
    moreover have "same_rest bc bc'" using r2 same_rest_more[OF popTransactions_more[OF p, symmetric]] same_rest_trans by blast
    ultimately show ?thesis by blast
  next
    assume o: "oka" "bc' = bc2" and s: "checkCumulativeBlockSize (ce_currency E) sz (word_of_nat (length (m_blocks bc2))) = Some False"
    have "sz = block_size b txs" using pushed_sums(1)[OF pushed(3,4) o(1) pushed(2)] .
    moreover have "m_blocks bc2 = m_blocks bc" using same_rest_fields[OF r2] by simp
    moreover have "miner_hash E b \<in> dom (m_transactionMap bc2)" unfolding loop_undoneD(3)[OF u(3)] by simp
    ultimately show ?thesis using s o(2) by auto
  qed (use pushed(5) in simp)
qed auto

text \<open>An accepted block.\<close>

lemma pushBlock_txs_accepted:
  assumes "pushBlock_txs E b txs bvc bc = Some (True, bvc', bc')"
  obtains d z entry reward change bc2 bc3 bc4 where "check_new_block E b (block_hash (ce_H E) b) bc = Some (Inr (d, z))" "same_rest bc bc2"
    "entry = \<lparr>be_bl = b, be_height = getCurrentBlockchainHeight bc, be_block_cumulative_size = block_size b txs,
      be_cumulative_difficulty = d + (if m_blocks bc = [] then 0 else be_cumulative_difficulty (last (m_blocks bc))),
      be_already_generated_coins = getCoinsInCirculation bc + change, be_transactions = be_transactions entry\<rparr>"
    "map te_tx (be_transactions entry) = blk_baseTransaction b # txs"
    "checkCumulativeBlockSize (ce_currency E) (block_size b txs) (word_of_nat (length (m_blocks bc))) = Some True"
    "validate_miner_transaction (ce_currency E) bc2 b (getCurrentBlockchainHeight bc) (block_size b txs) (getCoinsInCirculation bc) (sum_list (map tx_fee txs))
      = Inr (True, reward, change)"
    "authorised E z b bc2" "pushBlock_entry E entry bc2 = Some bc3" "detectors_pushed (ce_currency E) bc3 = Some bc4"
    "bc' = update_next_cumulative_size_limit (ce_currency E) bc4"
    "tables_ok bc \<Longrightarrow> block_fits E b txs bc
      \<Longrightarrow> loop_undone (ce_crypto E) ((blk_baseTransaction b, miner_hash E b) # zip txs (blk_transactionHashes b)) bc bc2
        \<and> length txs \<le> length (blk_transactionHashes b)
        \<and> (popTransactions (ce_crypto E) entry (miner_hash E b) :: Blockchain \<Rightarrow> Blockchain option)
          = pop_list (ce_crypto E) (rev ((blk_baseTransaction b, miner_hash E b) # zip txs (blk_transactionHashes b)))"
  using assms(1)
proof (cases rule: pushBlock_txs_cases)
  case (pushed d z te bc1 r oka entries sz fee bc2)
  note pv = prevalidate_inputs[OF check_new_block_ok(11)[OF pushed(1)]]
  note u = block_undo[OF pushed(3) pv pushed(4,2)]
  have r2: "same_rest bc bc2" by (rule pushed_rest[OF pushed(3,4)])
  have m: "m_blocks bc2 = m_blocks bc" "getCoinsInCirculation bc2 = getCoinsInCirculation bc"
    using same_rest_fields[OF r2] by (simp_all add: getCoinsInCirculation_def)
  from pushed(5) obtain reward change block bc3 bc4 where
    k: "oka" "checkCumulativeBlockSize (ce_currency E) sz (word_of_nat (length (m_blocks bc2))) = Some True"
      "validate_miner_transaction (ce_currency E) bc2 b (getCurrentBlockchainHeight bc) sz (getCoinsInCirculation bc2) fee = Inr (True, reward, change)"
      "block = \<lparr>be_bl = b, be_height = getCurrentBlockchainHeight bc, be_block_cumulative_size = sz,
         be_cumulative_difficulty = d + (if m_blocks bc2 = [] then 0 else be_cumulative_difficulty (last (m_blocks bc2))),
         be_already_generated_coins = getCoinsInCirculation bc2 + change, be_transactions = entries\<rparr>"
      "authorised E z b bc2" "pushBlock_entry E block bc2 = Some bc3" "detectors_pushed (ce_currency E) bc3 = Some bc4"
      "bc' = update_next_cumulative_size_limit (ce_currency E) bc4" by auto
  note sums = pushed_sums[OF pushed(3,4) k(1) pushed(2)]
  have un: "loop_undone (ce_crypto E) ((blk_baseTransaction b, miner_hash E b) # zip txs (blk_transactionHashes b)) bc bc2
        \<and> length txs \<le> length (blk_transactionHashes b)
        \<and> (popTransactions (ce_crypto E) block (miner_hash E b) :: Blockchain \<Rightarrow> Blockchain option)
          = pop_list (ce_crypto E) (rev ((blk_baseTransaction b, miner_hash E b) # zip txs (blk_transactionHashes b)))"
    if f: "tables_ok bc" "block_fits E b txs bc"
  proof -
    obtain n where n: "n = length txs" "loop_undone (ce_crypto E) ((blk_baseTransaction b, miner_hash E b) # take n (zip txs (blk_transactionHashes b))) bc bc2"
      "\<forall>block. be_bl block = b \<and> be_transactions block = entries \<longrightarrow> (popTransactions (ce_crypto E) block (miner_hash E b) :: Blockchain \<Rightarrow> Blockchain option)
        = pop_list (ce_crypto E) (rev ((blk_baseTransaction b, miner_hash E b) # take n (zip txs (blk_transactionHashes b))))"
      using u[OF f(2,1)] k(1) by blast
    have "take n (zip txs (blk_transactionHashes b)) = zip txs (blk_transactionHashes b)" using n(1) by simp
    then show ?thesis using n(2) n(3)[rule_format, of block] k(4) pushed(2) by simp
  qed
  show ?thesis
    by (rule that[OF pushed(1) r2 _ _ _ _ k(5-8) un]) (use k(2-4) sums m in simp_all)
qed auto

lemma timestamp_checked:
  assumes "check_block_timestamp_main cur now bc b"
  shows "blk_timestamp b \<le> now + blockFutureTimeLimit cur (blk_majorVersion b)
    \<and> (unat (timestampCheckWindow cur (blk_majorVersion b)) \<le> length (m_blocks bc)
      \<longrightarrow> medianValue (last_timestamps cur (blk_majorVersion b) bc) \<le> blk_timestamp b)"
proof -
  have "length (last_timestamps cur v bc) = min (length (m_blocks bc)) (unat (timestampCheckWindow cur v))" for v
    by (simp add: last_timestamps_def Let_def)
  then show ?thesis using assms by (auto simp: check_block_timestamp_main_def check_block_timestamp_def not_less split: if_splits)
qed

lemma reward_validated:
  assumes "validate_miner_transaction cur bc2 b height sz coins fee = Inr (True, reward, change)" "same_rest bc bc2"
  shows "getBlockReward cur height (getBlockMajorVersionForHeight cur height bc)
      (medianValue (get_last_n_blocks_sizes (unat (m_rewardBlocksWindow cur)) bc)) sz coins fee = Inr (reward, change)
    \<and> (58505 < height \<longrightarrow> getOutputAmount (blk_baseTransaction b) = reward)"
proof -
  have "getBlockMajorVersionForHeight cur height bc2 = getBlockMajorVersionForHeight cur height bc"
    "get_last_n_blocks_sizes n bc2 = get_last_n_blocks_sizes n bc" for n
    using same_rest_fields[OF assms(2)] by (simp_all add: getBlockMajorVersionForHeight_def get_last_n_blocks_sizes_def getBackwardBlocksSize_def)
  then show ?thesis using assms(1)
    by (auto simp: validate_miner_transaction_def Let_def getOutputAmount_def split: sum.splits if_splits)
qed

section \<open>The chain as a whole\<close>

definition chain_images :: "BlockEntry list \<Rightarrow> KeyImage list" where
  "chain_images bs = concat (map (\<lambda>e. tx_images (map te_tx (be_transactions e))) bs)"

definition entry_ids :: "(byte list \<Rightarrow> Hash) \<Rightarrow> BlockEntry \<Rightarrow> Hash list" where
  "entry_ids H e = snd (getObjectHash H write_Transaction (blk_baseTransaction (be_bl e)))
    # take (length (be_transactions e) - 1) (blk_transactionHashes (be_bl e))"

definition chain_ids :: "(byte list \<Rightarrow> Hash) \<Rightarrow> BlockEntry list \<Rightarrow> Hash list" where
  "chain_ids H bs = concat (map (entry_ids H) bs)"

text \<open>Each block names its predecessor and its height.\<close>

definition linked :: "(byte list \<Rightarrow> Hash) \<Rightarrow> BlockEntry list \<Rightarrow> bool" where
  "linked H bs \<longleftrightarrow> (\<forall>i<length bs.
      blk_previousBlockHash (be_bl (bs ! i)) = (if i = 0 then NULL_HASH else block_hash H (be_bl (bs ! (i - 1))))
    \<and> be_height (bs ! i) = word_of_nat i \<and> tx_inputs (blk_baseTransaction (be_bl (bs ! i))) = [BaseInput (word_of_nat i)])"

definition chain_ok :: "(byte list \<Rightarrow> Hash) \<Rightarrow> Blockchain \<Rightarrow> bool" where
  "chain_ok H bc \<longleftrightarrow> tables_ok bc \<and> length (m_blocks bc) < 2 ^ 32
    \<and> m_blockIndex bc = map (block_hash H \<circ> be_bl) (m_blocks bc) \<and> distinct (m_blockIndex bc) \<and> linked H (m_blocks bc)
    \<and> dom (spentKeyImages bc) = set (chain_images (m_blocks bc)) \<and> distinct (chain_images (m_blocks bc))
    \<and> dom (m_transactionMap bc) = set (chain_ids H (m_blocks bc)) \<and> distinct (chain_ids H (m_blocks bc))
    \<and> (gti_enabled (m_generatedTransactionsIndex bc) \<longrightarrow> gti_rel (m_generatedTransactionsIndex bc) (map be_bl (m_blocks bc)))
    \<and> (hi_enabled (bc_timestampIndex bc) \<longrightarrow> hi_entries (bc_timestampIndex bc)
      = mset (map (\<lambda>e. (blk_timestamp (be_bl e), block_hash H (be_bl e))) (m_blocks bc)))"

text \<open>States with the same chain; the address index, the pool, the detectors and the alternative chains may differ.\<close>

definition same_chain :: "Blockchain \<Rightarrow> Blockchain \<Rightarrow> bool" where
  "same_chain bc bc' \<longleftrightarrow> same_tables bc bc' \<and> m_blocks bc = m_blocks bc' \<and> m_blockIndex bc = m_blockIndex bc'
    \<and> m_generatedTransactionsIndex bc = m_generatedTransactionsIndex bc'
    \<and> hi_enabled (bc_timestampIndex bc) = hi_enabled (bc_timestampIndex bc') \<and> hi_entries (bc_timestampIndex bc) = hi_entries (bc_timestampIndex bc')"

lemma same_chain_refl [simp]: "same_chain bc bc"
  by (simp add: same_chain_def)

lemma same_chain_trans: "same_chain a b \<Longrightarrow> same_chain b c \<Longrightarrow> same_chain a c"
  using same_tables_trans[of a b c] by (simp add: same_chain_def)

lemma chain_ok_same: "same_chain bc' bc \<Longrightarrow> chain_ok H bc \<Longrightarrow> chain_ok H bc'"
  unfolding chain_ok_def same_chain_def same_tables_def tables_ok_def by (elim conjE) simp

lemma linked_snoc:
  assumes "linked H bs" "blk_previousBlockHash (be_bl e) = (if bs = [] then NULL_HASH else block_hash H (be_bl (last bs)))"
    "be_height e = word_of_nat (length bs)" "tx_inputs (blk_baseTransaction (be_bl e)) = [BaseInput (word_of_nat (length bs))]"
  shows "linked H (bs @ [e])"
  using assms by (auto simp: linked_def nth_append less_Suc_eq last_conv_nth)

text \<open>The state after the steps that end \<open>pushBlock\<close>.\<close>

lemma pushed_state:
  assumes "pushBlock_entry E entry bc2 = Some bc3" "detectors_pushed cur bc3 = Some bc4" "bc' = update_next_cumulative_size_limit cur bc4"
  shows "same_tables bc' bc2" "m_blocks bc' = m_blocks bc2 @ [entry]"
    "m_blockIndex bc' = snd (bi_push (m_blockIndex bc2) (block_hash (ce_H E) (be_bl entry)))"
    "bc_timestampIndex bc' = snd (tbi_add (blk_timestamp (be_bl entry)) (block_hash (ce_H E) (be_bl entry)) (bc_timestampIndex bc2))"
    "\<exists>r. gti_add (be_bl entry) (m_generatedTransactionsIndex bc2) = Some (r, m_generatedTransactionsIndex bc')"
    "tables_ok bc' = tables_ok bc2"
  using assms
  by (auto simp: pushBlock_entry_def detectors_pushed_def update_next_cumulative_size_limit_def Let_def bind_eq_Some_conv same_tables_def tables_ok_def
      split: if_splits)

lemma tbi_entries:
  "hi_enabled (snd (tbi_add t h i)) = hi_enabled i" "hi_enabled (snd (tbi_remove t h i)) = hi_enabled i"
  "hi_enabled i \<Longrightarrow> hi_entries (snd (tbi_add t h i)) = add_mset (t, h) (hi_entries i)"
  "hi_enabled i \<Longrightarrow> hi_entries (snd (tbi_remove t h i)) = hi_entries i - {#(t, h)#}"
  "\<not> hi_enabled i \<Longrightarrow> snd (tbi_add t h i) = i" "\<not> hi_enabled i \<Longrightarrow> snd (tbi_remove t h i) = i"
  using mm.del_entries[of t h "hi_index i"]
  by (simp_all add: tbi_add_def tbi_remove_def hi_entries_def mm.ins_entries case_prod_beta)

lemma gti_undo:
  assumes "gti_enabled i \<longrightarrow> gti_rel i bs" "coinbase_height b = Some (word_of_nat (length bs))" "length bs + 1 < 2 ^ 32"
    "gti_add b i = Some (r, j)"
  shows "\<exists>r'. gti_remove b j = Some (r', i)" "gti_enabled j = gti_enabled i" "gti_enabled j \<longrightarrow> gti_rel j (bs @ [b])"
proof -
  have "(\<exists>r'. gti_remove b j = Some (r', i)) \<and> gti_enabled j = gti_enabled i \<and> (gti_enabled j \<longrightarrow> gti_rel j (bs @ [b]))"
  proof (cases "gti_enabled i")
    case True
    then have i: "gti_rel i bs" using assms(1) by simp
    then have j: "gti_rel j (bs @ [b])" using gti_add_rel[OF i assms(2,3)] assms(4) by auto
    obtain k where "gti_remove b j = Some (True, k)" "gti_rel k bs" using gti_remove_rel[OF j assms(2,3)] by blast
    moreover have "k = i" using i \<open>gti_rel k bs\<close> by (cases i; cases k) (simp add: gti_rel_def)
    ultimately show ?thesis using i j by (auto simp: gti_rel_def)
  next
    case False
    then show ?thesis using assms(4) by (auto simp: gti_add_def gti_remove_def)
  qed
  then show "\<exists>r'. gti_remove b j = Some (r', i)" "gti_enabled j = gti_enabled i" "gti_enabled j \<longrightarrow> gti_rel j (bs @ [b])" by auto
qed

lemma tail_of_chain:
  assumes "chain_ok H bc" "getTailId bc = Some h"
  shows "h = (if m_blocks bc = [] then NULL_HASH else block_hash H (be_bl (last (m_blocks bc))))"
  using assms by (auto simp: chain_ok_def getTailId_def bi_getTailId_def last_map split: if_splits)

lemma index_snoc: "\<not> hasBlock index h \<Longrightarrow> snd (bi_push index h) = index @ [h]"
  by (simp add: bi_push_def hasBlock_def)

text \<open>What is known of a chain that an accepted block has extended.\<close>

lemma accepted_facts:
  assumes ok: "chain_ok (ce_H E) bc" and p: "pushBlock_txs E b txs bvc bc = Some (True, bvc', bc')" and f: "block_fits E b txs bc"
    and n: "length (m_blocks bc) + 1 < 2 ^ 32"
  obtains entry bc2 r where "m_blocks bc' = m_blocks bc @ [entry]" "be_bl entry = b" "be_height entry = word_of_nat (length (m_blocks bc))"
    "map te_tx (be_transactions entry) = blk_baseTransaction b # txs" "length txs \<le> length (blk_transactionHashes b)"
    "tx_inputs (blk_baseTransaction b) = [BaseInput (word_of_nat (length (m_blocks bc)))]"
    "blk_previousBlockHash b = (if m_blocks bc = [] then NULL_HASH else block_hash (ce_H E) (be_bl (last (m_blocks bc))))"
    "block_hash (ce_H E) b \<notin> set (m_blockIndex bc)" "m_blockIndex bc' = m_blockIndex bc @ [block_hash (ce_H E) b]"
    "bc_timestampIndex bc' = snd (tbi_add (blk_timestamp b) (block_hash (ce_H E) b) (bc_timestampIndex bc))"
    "gti_add b (m_generatedTransactionsIndex bc) = Some (r, m_generatedTransactionsIndex bc')"
    "loop_undone (ce_crypto E) ((blk_baseTransaction b, miner_hash E b) # zip txs (blk_transactionHashes b)) bc bc2"
    "same_tables bc' bc2" "tables_ok bc'"
    "(popTransactions (ce_crypto E) entry (miner_hash E b) :: Blockchain \<Rightarrow> Blockchain option)
      = pop_list (ce_crypto E) (rev ((blk_baseTransaction b, miner_hash E b) # zip txs (blk_transactionHashes b)))"
proof -
  have tok: "tables_ok bc" using ok by (simp add: chain_ok_def)
  obtain d z entry reward change bc2 bc3 bc4 where a: "check_new_block E b (block_hash (ce_H E) b) bc = Some (Inr (d, z))" "same_rest bc bc2"
    "entry = \<lparr>be_bl = b, be_height = getCurrentBlockchainHeight bc, be_block_cumulative_size = block_size b txs,
      be_cumulative_difficulty = d + (if m_blocks bc = [] then 0 else be_cumulative_difficulty (last (m_blocks bc))),
      be_already_generated_coins = getCoinsInCirculation bc + change, be_transactions = be_transactions entry\<rparr>"
    "map te_tx (be_transactions entry) = blk_baseTransaction b # txs"
    "pushBlock_entry E entry bc2 = Some bc3" "detectors_pushed (ce_currency E) bc3 = Some bc4"
    "bc' = update_next_cumulative_size_limit (ce_currency E) bc4"
    "loop_undone (ce_crypto E) ((blk_baseTransaction b, miner_hash E b) # zip txs (blk_transactionHashes b)) bc bc2"
    "length txs \<le> length (blk_transactionHashes b)"
    "(popTransactions (ce_crypto E) entry (miner_hash E b) :: Blockchain \<Rightarrow> Blockchain option)
      = pop_list (ce_crypto E) (rev ((blk_baseTransaction b, miner_hash E b) # zip txs (blk_transactionHashes b)))"
    using pushBlock_txs_accepted[OF p] tok f by metis
  note c = check_new_block_ok[OF a(1)] and st = pushed_state[OF a(5-7)]
  have e: "be_bl entry = b" "be_height entry = word_of_nat (length (m_blocks bc))"
    by (subst a(3), simp)+ (simp add: getCurrentBlockchainHeight_def)
  have s: "m_blocks bc2 = m_blocks bc" "m_blockIndex bc2 = m_blockIndex bc" "bc_timestampIndex bc2 = bc_timestampIndex bc"
    "m_generatedTransactionsIndex bc2 = m_generatedTransactionsIndex bc" using same_rest_fields[OF a(2)] by simp_all
  obtain r where r: "gti_add b (m_generatedTransactionsIndex bc) = Some (r, m_generatedTransactionsIndex bc')" using st(5) by (auto simp: e s)
  show ?thesis
  proof (rule that[OF _ e a(4,9) _ _ _ _ _ r a(8) st(1) _ a(10)])
    show "m_blocks bc' = m_blocks bc @ [entry]" using st(2) by (simp add: s)
    show "tx_inputs (blk_baseTransaction b) = [BaseInput (word_of_nat (length (m_blocks bc)))]"
      using prevalidate_inputs[OF c(11)] by (simp add: getCurrentBlockchainHeight_def)
    show "blk_previousBlockHash b = (if m_blocks bc = [] then NULL_HASH else block_hash (ce_H E) (be_bl (last (m_blocks bc))))"
      by (rule tail_of_chain[OF ok c(4)])
    show "block_hash (ce_H E) b \<notin> set (m_blockIndex bc)" using c(1) by (simp add: hasBlock_def)
    show "m_blockIndex bc' = m_blockIndex bc @ [block_hash (ce_H E) b]" using st(3) index_snoc[OF c(1)] by (simp add: e s)
    show "bc_timestampIndex bc' = snd (tbi_add (blk_timestamp b) (block_hash (ce_H E) b) (bc_timestampIndex bc))" using st(4) by (simp add: e s)
    show "tables_ok bc'" using st(6) loop_undoneD(1)[OF a(8)] by simp
  qed
qed

lemma push_chain_ok:
  assumes ok: "chain_ok (ce_H E) bc" and p: "pushBlock_txs E b txs bvc bc = Some (True, bvc', bc')" and f: "block_fits E b txs bc"
    and n: "length (m_blocks bc) + 1 < 2 ^ 32"
  shows "chain_ok (ce_H E) bc'"
proof -
  let ?L = "(blk_baseTransaction b, miner_hash E b) # zip txs (blk_transactionHashes b)"
  obtain entry bc2 r where a: "m_blocks bc' = m_blocks bc @ [entry]" "be_bl entry = b" "be_height entry = word_of_nat (length (m_blocks bc))"
    "map te_tx (be_transactions entry) = blk_baseTransaction b # txs" "length txs \<le> length (blk_transactionHashes b)"
    "tx_inputs (blk_baseTransaction b) = [BaseInput (word_of_nat (length (m_blocks bc)))]"
    "blk_previousBlockHash b = (if m_blocks bc = [] then NULL_HASH else block_hash (ce_H E) (be_bl (last (m_blocks bc))))"
    "block_hash (ce_H E) b \<notin> set (m_blockIndex bc)" "m_blockIndex bc' = m_blockIndex bc @ [block_hash (ce_H E) b]"
    "bc_timestampIndex bc' = snd (tbi_add (blk_timestamp b) (block_hash (ce_H E) b) (bc_timestampIndex bc))"
    "gti_add b (m_generatedTransactionsIndex bc) = Some (r, m_generatedTransactionsIndex bc')"
    "loop_undone (ce_crypto E) ?L bc bc2" "same_tables bc' bc2" "tables_ok bc'"
    by (rule accepted_facts[OF ok p f n])
  have o: "m_blockIndex bc = map (block_hash (ce_H E) \<circ> be_bl) (m_blocks bc)" "distinct (m_blockIndex bc)" "linked (ce_H E) (m_blocks bc)"
    "dom (spentKeyImages bc) = set (chain_images (m_blocks bc))" "distinct (chain_images (m_blocks bc))"
    "dom (m_transactionMap bc) = set (chain_ids (ce_H E) (m_blocks bc))" "distinct (chain_ids (ce_H E) (m_blocks bc))"
    "gti_enabled (m_generatedTransactionsIndex bc) \<longrightarrow> gti_rel (m_generatedTransactionsIndex bc) (map be_bl (m_blocks bc))"
    "hi_enabled (bc_timestampIndex bc) \<longrightarrow> hi_entries (bc_timestampIndex bc)
      = mset (map (\<lambda>e. (blk_timestamp (be_bl e), block_hash (ce_H E) (be_bl e))) (m_blocks bc))"
    using ok unfolding chain_ok_def by blast+
  have L: "map fst ?L = blk_baseTransaction b # txs" "map snd ?L = entry_ids (ce_H E) entry"
    using a(2,5) arg_cong[OF a(4), of length] by (simp_all add: map_fst_zip_take map_snd_zip_take entry_ids_def)
  have fits: "distinct (map snd ?L)" "set (map snd ?L) \<inter> dom (m_transactionMap bc) = {}"
    unfolding L(2) using f a(2) by (auto simp: block_fits_def entry_ids_def dest: in_set_takeD)
  have imgs: "chain_images (m_blocks bc') = chain_images (m_blocks bc) @ tx_images (map fst ?L)"
    unfolding L(1) by (simp add: chain_images_def a(1,4))
  have ids: "chain_ids (ce_H E) (m_blocks bc') = chain_ids (ce_H E) (m_blocks bc) @ map snd ?L"
    unfolding L(2) by (simp add: chain_ids_def a(1))
  have eq: "spentKeyImages bc' = spentKeyImages bc2" "m_transactionMap bc' = m_transactionMap bc2" using a(13) by (simp_all add: same_tables_def)
  note u = loop_undoneD[OF a(12)]
  have "linked (ce_H E) (m_blocks bc')" unfolding a(1) by (rule linked_snoc[OF o(3)]) (use a(2,3,6,7) in simp_all)
  moreover have "dom (spentKeyImages bc') = set (chain_images (m_blocks bc'))" using u(4) o(4) unfolding eq imgs by auto
  moreover have "distinct (chain_images (m_blocks bc'))" using u(5,6) o(4,5) unfolding imgs by auto
  moreover have "dom (m_transactionMap bc') = set (chain_ids (ce_H E) (m_blocks bc'))" using u(3) o(6) unfolding eq ids by auto
  moreover have "distinct (chain_ids (ce_H E) (m_blocks bc'))" using fits o(6,7) unfolding ids by auto
  moreover have "gti_enabled (m_generatedTransactionsIndex bc') \<longrightarrow> gti_rel (m_generatedTransactionsIndex bc') (map be_bl (m_blocks bc'))"
    using gti_undo(3)[OF o(8) _ _ a(11)] n by (simp add: coinbase_height_def a(1,2,6))
  moreover have "hi_enabled (bc_timestampIndex bc') \<longrightarrow> hi_entries (bc_timestampIndex bc')
      = mset (map (\<lambda>e. (blk_timestamp (be_bl e), block_hash (ce_H E) (be_bl e))) (m_blocks bc'))"
    using o(9) by (simp add: a(1,2,10) tbi_entries)
  moreover have "m_blockIndex bc' = map (block_hash (ce_H E) \<circ> be_bl) (m_blocks bc')" "distinct (m_blockIndex bc')" "length (m_blocks bc') < 2 ^ 32"
    using a(8,9) o(1,2) n by (simp_all add: a(1,2))
  ultimately show ?thesis using a(14) unfolding chain_ok_def by blast
qed

lemma remove_pushed:
  assumes ok: "chain_ok (ce_H E) bc" and p: "pushBlock_txs E b txs bvc bc = Some (True, bvc', bc')" and f: "block_fits E b txs bc"
    and n: "length (m_blocks bc) + 1 < 2 ^ 32" and t: "same_chain t bc'" and E': "ce_crypto E' = ce_crypto E"
  shows "\<exists>t'. removeLastBlock E' t = Some t' \<and> same_chain t' bc"
proof -
  let ?L = "(blk_baseTransaction b, miner_hash E b) # zip txs (blk_transactionHashes b)"
  obtain entry bc2 r where a: "m_blocks bc' = m_blocks bc @ [entry]" "be_bl entry = b" "be_height entry = word_of_nat (length (m_blocks bc))"
    "tx_inputs (blk_baseTransaction b) = [BaseInput (word_of_nat (length (m_blocks bc)))]"
    "m_blockIndex bc' = m_blockIndex bc @ [block_hash (ce_H E) b]"
    "bc_timestampIndex bc' = snd (tbi_add (blk_timestamp b) (block_hash (ce_H E) b) (bc_timestampIndex bc))"
    "gti_add b (m_generatedTransactionsIndex bc) = Some (r, m_generatedTransactionsIndex bc')"
    "loop_undone (ce_crypto E) ?L bc bc2" "same_tables bc' bc2"
    "(popTransactions (ce_crypto E) entry (miner_hash E b) :: Blockchain \<Rightarrow> Blockchain option) = pop_list (ce_crypto E) (rev ?L)"
    by (rule accepted_facts[OF ok p f n])
  have len: "length (m_blockIndex bc) = length (m_blocks bc)" using ok by (simp add: chain_ok_def)
  have ts: "same_tables t bc2" using t a(9) same_tables_trans unfolding same_chain_def by blast
  obtain t2 where t2: "popTransactions (ce_crypto E) entry (miner_hash E b) t = Some t2" "same_tables t2 bc"
    using loop_undoneD(2)[OF a(8) ts] unfolding a(10) by blast
  have m: "m_blocks t2 = m_blocks bc @ [entry]" "m_blockIndex t2 = m_blockIndex bc @ [block_hash (ce_H E) b]"
    "m_generatedTransactionsIndex t2 = m_generatedTransactionsIndex bc'" "bc_timestampIndex t2 = bc_timestampIndex t" "m_blocks t = m_blocks bc @ [entry]"
    using more_fields[OF popTransactions_more[OF t2(1)]] t a(1,5) by (simp_all add: same_chain_def)
  have id: "getBlockIdByHeight (be_height entry) t2 = Some (block_hash (ce_H E) b)"
  proof -
    have "(word_of_nat (length (m_blocks bc)) :: u32) < word_of_nat (length (m_blocks bc) + 1)"
      unfolding word_less_nat_alt unat_of_nat using n by simp
    moreover have "unat (word_of_nat (length (m_blocks bc)) :: u32) = length (m_blocks bc)" using n by (simp add: unat_of_nat)
    ultimately show ?thesis using nth_append_length[of "m_blockIndex bc" "block_hash (ce_H E) b" "[]"]
      by (simp add: getBlockIdByHeight_def getBlockId_def bi_size_def m(2) len a(3))
  qed
  have rel: "gti_enabled (m_generatedTransactionsIndex bc) \<longrightarrow> gti_rel (m_generatedTransactionsIndex bc) (map be_bl (m_blocks bc))"
    using ok unfolding chain_ok_def by blast
  obtain r' where gti: "gti_remove b (m_generatedTransactionsIndex bc') = Some (r', m_generatedTransactionsIndex bc)"
    using gti_undo(1)[OF rel _ _ a(7)] n by (auto simp: coinbase_height_def a(4))
  define t3 where "t3 = t2\<lparr>bc_timestampIndex := snd (tbi_remove (blk_timestamp b) (block_hash (ce_H E) b) (bc_timestampIndex t2)),
         m_generatedTransactionsIndex := m_generatedTransactionsIndex bc, m_blocks := m_blocks bc, m_blockIndex := m_blockIndex bc\<rparr>"
  have "removeLastBlock E' t = Some t3"
    using t2(1) id gti m len by (simp add: removeLastBlock_def t3_def a(2) E' bi_pop_def)
  moreover have "hi_enabled (bc_timestampIndex t) = hi_enabled (bc_timestampIndex bc)" "hi_entries (bc_timestampIndex t) = hi_entries (bc_timestampIndex bc')"
    using t by (simp_all add: same_chain_def a(6) tbi_entries)
  then have "hi_enabled (bc_timestampIndex t3) = hi_enabled (bc_timestampIndex bc)" "hi_entries (bc_timestampIndex t3) = hi_entries (bc_timestampIndex bc)"
    by (cases "hi_enabled (bc_timestampIndex bc)"; simp add: t3_def m(4) a(6) tbi_entries)+
  then have "same_chain t3 bc" using t2(2) by (simp add: same_chain_def same_tables_def t3_def)
  ultimately show ?thesis by blast
qed

section \<open>Reachable chains\<close>

definition starts_empty :: "Blockchain \<Rightarrow> bool" where
  "starts_empty bc \<longleftrightarrow> m_blocks bc = [] \<and> m_blockIndex bc = [] \<and> spentKeyImages bc = Map.empty \<and> m_outputs bc = Map.empty
    \<and> m_multisignatureOutputs bc = Map.empty \<and> m_transactionMap bc = Map.empty \<and> hi_entries (bc_timestampIndex bc) = {#}
    \<and> gti_index (m_generatedTransactionsIndex bc) = [] \<and> gti_last (m_generatedTransactionsIndex bc) = 0"

text \<open>
  The operations on the chain, each with an environment of its own (the clock, the authorisation server)
  but the same cryptography: accepted blocks, refused blocks, removed blocks, and whatever changes the pool,
  the detectors or the alternative chains only.
\<close>

inductive chain_reachable :: "Crypto \<Rightarrow> Blockchain \<Rightarrow> bool" for C where
  chain_start: "starts_empty bc \<Longrightarrow> chain_reachable C bc"
| chain_accept: "chain_reachable C bc \<Longrightarrow> ce_crypto E = C \<Longrightarrow> pushBlock_txs E b txs bvc bc = Some (True, bvc', bc')
    \<Longrightarrow> block_fits E b txs bc \<Longrightarrow> length (m_blocks bc) + 1 < 2 ^ 32 \<Longrightarrow> chain_reachable C bc'"
| chain_refuse: "chain_reachable C bc \<Longrightarrow> ce_crypto E = C \<Longrightarrow> pushBlock_txs E b txs bvc bc = Some (False, bvc', bc')
    \<Longrightarrow> block_fits E b txs bc
    \<Longrightarrow> checkCumulativeBlockSize (ce_currency E) (block_size b txs) (word_of_nat (length (m_blocks bc))) \<noteq> Some False
    \<Longrightarrow> chain_reachable C bc'"
| chain_remove: "chain_reachable C bc \<Longrightarrow> ce_crypto E = C \<Longrightarrow> removeLastBlock E bc = Some bc' \<Longrightarrow> chain_reachable C bc'"
| chain_aside: "chain_reachable C bc \<Longrightarrow> same_chain bc' bc \<Longrightarrow> chain_reachable C bc'"

text \<open>The same chains as a stack of states, one for each block.\<close>

inductive built :: "Crypto \<Rightarrow> Blockchain list \<Rightarrow> Blockchain \<Rightarrow> bool" for C where
  built_empty: "starts_empty bc \<Longrightarrow> built C [] bc"
| built_push: "built C hist bc \<Longrightarrow> ce_crypto E = C \<Longrightarrow> pushBlock_txs E b txs bvc bc = Some (True, bvc', bc1)
    \<Longrightarrow> block_fits E b txs bc \<Longrightarrow> length (m_blocks bc) + 1 < 2 ^ 32 \<Longrightarrow> same_chain bc' bc1 \<Longrightarrow> built C (bc # hist) bc'"

inductive_cases built_NilE: "built C [] bc"
inductive_cases built_ConsE: "built C (bc # hist) bc'"

lemma starts_empty_same: "starts_empty bc \<Longrightarrow> same_chain bc' bc \<Longrightarrow> starts_empty bc'"
  by (simp add: starts_empty_def same_chain_def same_tables_def)

lemma built_same: "built C hist bc \<Longrightarrow> same_chain bc' bc \<Longrightarrow> built C hist bc'"
  by (cases rule: built.cases) (auto intro: built.intros starts_empty_same same_chain_trans)

lemma starts_empty_ok: "starts_empty bc \<Longrightarrow> chain_ok H bc"
  by (simp add: starts_empty_def chain_ok_def tables_ok_def no_empty_def linked_def chain_images_def chain_ids_def gti_rel_def tx_total_def)

lemma built_ok: "built C hist bc \<Longrightarrow> chain_ok (cn_fast_hash C) bc"
proof (induction rule: built.induct)
  case (built_push hist bc E b txs bvc bvc' bc1 bc')
  then show ?case using push_chain_ok[of E bc b txs bvc bvc' bc1] chain_ok_same by blast
qed (rule starts_empty_ok)

lemma built_remove:
  assumes "built C hist bc" "ce_crypto E = C" "removeLastBlock E bc = Some bc'"
  shows "\<exists>hist'. built C hist' bc'"
proof (cases hist)
  case Nil
  then have "starts_empty bc" using assms(1) by (auto elim: built_NilE)
  then show ?thesis using assms by (auto simp: removeLastBlock_def starts_empty_def)
next
  case (Cons bc0 hist0)
  with assms(1) obtain E0 b txs bvc bvc' bc1 where p: "built C hist0 bc0" "ce_crypto E0 = C" "pushBlock_txs E0 b txs bvc bc0 = Some (True, bvc', bc1)"
    "block_fits E0 b txs bc0" "length (m_blocks bc0) + 1 < 2 ^ 32" "same_chain bc bc1" by (auto elim: built_ConsE)
  have "chain_ok (ce_H E0) bc0" using built_ok[OF p(1)] p(2) by simp
  from remove_pushed[OF this p(3-6), of E] assms(2,3) p(2) have "same_chain bc' bc0" by auto
  then show ?thesis using built_same[OF p(1)] by blast
qed

lemma refused_same_chain:
  assumes "pushBlock_txs E b txs bvc bc = Some (False, bvc', bc')" "tables_ok bc" "block_fits E b txs bc"
    "checkCumulativeBlockSize (ce_currency E) (block_size b txs) (word_of_nat (length (m_blocks bc))) \<noteq> Some False"
  shows "same_chain bc' bc"
  using pushBlock_txs_refused[OF assms(1-3)] assms(4) same_rest_fields[of bc bc'] by (auto simp: same_chain_def)

lemma reachable_built: "chain_reachable C bc \<Longrightarrow> \<exists>hist. built C hist bc"
proof (induction rule: chain_reachable.induct)
  case (chain_refuse bc E b txs bvc bvc' bc')
  then obtain hist where h: "built C hist bc" by blast
  then have "tables_ok bc" using built_ok[OF h] by (simp add: chain_ok_def)
  then show ?case using refused_same_chain[OF chain_refuse(3) _ chain_refuse(4,5)] built_same[OF h] by blast
next
  case (chain_accept bc E b txs bvc bvc' bc')
  then show ?case using built_push[OF _ chain_accept(2-5) same_chain_refl] by blast
qed (blast intro: built_empty built_remove built_same)+

text \<open>Removing a block from a chain that has one.\<close>

lemma reachable_removes:
  assumes "chain_reachable C bc" "ce_crypto E = C"
  shows "\<exists>bc'. removeLastBlock E bc = Some bc' \<and> chain_reachable C bc' \<and> m_blocks bc' = butlast (m_blocks bc)"
proof -
  obtain hist where h: "built C hist bc" using reachable_built[OF assms(1)] by blast
  obtain bc' where bc': "removeLastBlock E bc = Some bc'"
  proof (cases hist)
    case Nil
    then have "starts_empty bc" using h by (auto elim: built_NilE)
    then show ?thesis using that by (auto simp: removeLastBlock_def starts_empty_def)
  next
    case (Cons bc0 hist0)
    with h obtain E0 b txs bvc bvc' bc1 where p: "built C hist0 bc0" "ce_crypto E0 = C" "pushBlock_txs E0 b txs bvc bc0 = Some (True, bvc', bc1)"
      "block_fits E0 b txs bc0" "length (m_blocks bc0) + 1 < 2 ^ 32" "same_chain bc bc1" by (auto elim: built_ConsE)
    have "chain_ok (ce_H E0) bc0" using built_ok[OF p(1)] p(2) by simp
    from remove_pushed[OF this p(3-6), of E] assms(2) p(2) that show ?thesis by auto
  qed
  then show ?thesis using chain_remove[OF assms(1,2)] removeLastBlock_blocks by blast
qed

lemma rollback_reachable:
  assumes "chain_reachable C bc" "ce_crypto E = C"
  shows "\<exists>bc'. rollbackBlockchainTo E height bc = Some bc' \<and> chain_reachable C bc' \<and> m_blocks bc' = take (unat (height + 1)) (m_blocks bc)"
  using assms
proof (induction "length (m_blocks bc)" arbitrary: bc rule: less_induct)
  case less
  show ?case
  proof (cases "unat (height + 1) < length (m_blocks bc)")
    case True
    obtain bc1 where bc1: "removeLastBlock E bc = Some bc1" "chain_reachable C bc1" "m_blocks bc1 = butlast (m_blocks bc)"
      using reachable_removes[OF less.prems] by blast
    have "length (m_blocks bc1) < length (m_blocks bc)" using True bc1(3) by simp
    from less.hyps[OF this bc1(2) less.prems(2)] obtain bc' where "rollbackBlockchainTo E height bc1 = Some bc'" "chain_reachable C bc'"
      "m_blocks bc' = take (unat (height + 1)) (butlast (m_blocks bc))" unfolding bc1(3) by blast
    moreover have "take (unat (height + 1)) (butlast (m_blocks bc)) = take (unat (height + 1)) (m_blocks bc)" using True by (simp add: take_butlast)
    ultimately show ?thesis using True bc1(1) by (subst rollbackBlockchainTo.simps) simp
  next
    case False
    then show ?thesis using less.prems(1) by (subst rollbackBlockchainTo.simps) simp
  qed
qed

end
