(* ===== verification/BlockchainProperties.thy ===== *)
theory BlockchainProperties
  imports BlockchainInvariant
begin

text \<open>
  The properties of the chain of blocks, with a chain of one block as the concrete input of their witnesses.
\<close>

section \<open>A chain of one block\<close>

definition prefix_hash :: "byte list \<Rightarrow> Hash" where
  "prefix_hash ba = take 32 (ba @ replicate 32 0)"

definition chain_crypto :: Crypto where
  "chain_crypto = sample_crypto\<lparr>cn_fast_hash := prefix_hash\<rparr>"

definition sample_env :: "bool \<Rightarrow> ChainEnv" where
  "sample_env ok = \<lparr>ce_currency = sample_currency, ce_crypto = chain_crypto, ce_slow_hash = (\<lambda>_. replicate 32 0),
    ce_scalarmultKey = (\<lambda>_ _. KEY_I), ce_check_ring_signature = (\<lambda>_ _ _ _. True), ce_check_signature = (\<lambda>_ _ _. True),
    ce_time = 1000, ce_AuthBlock = (\<lambda>_ _. ok), ce_uninit_height = 0, ce_uninit_key = []\<rparr>"

definition no_detector :: "u8 \<Rightarrow> UpgradeDetector" where
  "no_detector v = \<lparr>ud_targetVersion = v, ud_votingCompleteHeight = UNDEF_HEIGHT\<rparr>"

definition empty_chain :: Blockchain where
  "empty_chain = \<lparr>spentKeyImages = Map.empty, m_outputs = Map.empty, m_multisignatureOutputs = Map.empty, m_transactionMap = Map.empty,
    bc_paymentIdIndex = \<lparr>hi_enabled = False, hi_index = []\<rparr>, bc_addressindex = \<lparr>hi_enabled = False, hi_index = []\<rparr>,
    m_current_block_cumul_sz_limit = 0, m_alternative_chains = Map.empty, m_checkpoints = [], m_is_in_checkpoint_zone = False,
    m_blocks = [], m_blockIndex = [], m_upgradeDetectorV2 = no_detector 2, m_upgradeDetectorV3 = no_detector 3, m_upgradeDetectorV4 = no_detector 4,
    bc_timestampIndex = \<lparr>hi_enabled = True, hi_index = []\<rparr>, m_generatedTransactionsIndex = \<lparr>gti_enabled = True, gti_index = [], gti_last = 0\<rparr>,
    m_orphanBlocksIndex = \<lparr>hi_enabled = False, hi_index = []\<rparr>, PrivacyMemBC = [], m_lastKnownBlockHeight = 0, m_tx_pool = tx_memory_pool_init False\<rparr>"

definition block0 :: Block where
  "block0 = sample_block\<lparr>blk_baseTransaction := sample_coinbase\<lparr>tx_unlockTime := m_minedMoneyUnlockWindow sample_currency, tx_inputs := [BaseInput 0]\<rparr>,
     blk_transactionHashes := [], blk_previousBlockHash := NULL_HASH\<rparr>"
definition bvc0 :: block_verification_context where
 "bvc0 = \<lparr>m_added_to_main_chain = False, bvc_verification_failed = False, m_marked_as_orphaned = False, m_already_exists = False, m_switched_to_alt_chain = False\<rparr>"


lemma check0: "check_new_block (sample_env ok) block0 (block_hash (ce_H (sample_env ok)) block0) empty_chain = Some (Inr (1, False))" by code_simp


lemma pushBlock_txs_eq:
  assumes "check_new_block E b (block_hash (ce_H E) b) bc = Some (Inr (d, z))"
    "pushTransaction (ce_crypto E) (check_tx_inputs_keyimages_domain bc) (ce_uninit_height E)
       \<lparr>te_tx = blk_baseTransaction b, te_global_output_indexes = []\<rparr> (miner_hash E b) \<lparr>ti_block = getCurrentBlockchainHeight bc, ti_transaction = 0\<rparr> bc = Some (r, te, bc1)"
    "checkCumulativeBlockSize (ce_currency E) (block_size b []) (word_of_nat (length (m_blocks bc1))) = Some True"
    "validate_miner_transaction (ce_currency E) bc1 b (getCurrentBlockchainHeight bc) (block_size b []) (getCoinsInCirculation bc1) 0 = Inr (True, reward, change)"
  shows "pushBlock_txs E b [] bvc bc =
    (let block = \<lparr>be_bl = b, be_height = getCurrentBlockchainHeight bc, be_block_cumulative_size = block_size b [],
       be_cumulative_difficulty = d, be_already_generated_coins = 0, be_transactions = [te]\<rparr> in
     if \<not> authorised E z b bc1 then do { bc \<leftarrow> popTransactions (ce_crypto E) block (miner_hash E b) bc1; Some (False, failed bvc, bc) }
     else do {
       bc \<leftarrow> pushBlock_entry E (block\<lparr>be_already_generated_coins := getCoinsInCirculation bc1 + change,
         be_cumulative_difficulty := d + (if m_blocks bc1 = [] then 0 else be_cumulative_difficulty (last (m_blocks bc1)))\<rparr>) bc1;
       bc \<leftarrow> detectors_pushed (ce_currency E) bc;
       Some (True, bvc\<lparr>m_added_to_main_chain := True\<rparr>, update_next_cumulative_size_limit (ce_currency E) bc) })"
  using assms by (simp add: pushBlock_txs_def Let_def block_size_def)

definition chain_pushed :: Blockchain where
  "chain_pushed = empty_chain\<lparr>m_transactionMap := [miner_hash (sample_env True) block0 \<mapsto> \<lparr>ti_block = 0, ti_transaction = 0\<rparr>],
     m_outputs := [5 \<mapsto> [(\<lparr>ti_block = 0, ti_transaction = 0\<rparr>, 0)]]\<rparr>"

lemma miner0: "pushTransaction (ce_crypto (sample_env ok)) (check_tx_inputs_keyimages_domain empty_chain) (ce_uninit_height (sample_env ok))
       \<lparr>te_tx = blk_baseTransaction block0, te_global_output_indexes = []\<rparr> (miner_hash (sample_env ok) block0)
       \<lparr>ti_block = getCurrentBlockchainHeight empty_chain, ti_transaction = 0\<rparr> empty_chain
     = Some (True, \<lparr>te_tx = blk_baseTransaction block0, te_global_output_indexes = [0]\<rparr>, chain_pushed)"
  by (simp add: pushTransaction_def chain_pushed_def empty_chain_def checkMultisignatureInputsDiff_def block0_def sample_coinbase_def ai_add_def pii_add_def
    push_output_def global_index_def vec_def getCurrentBlockchainHeight_def sample_env_def)

lemma size0: "block_size block0 [] = 42"
  unfolding block_size_def by code_simp

lemma cum0: "checkCumulativeBlockSize (ce_currency (sample_env ok)) (block_size block0 []) (word_of_nat (length (m_blocks chain_pushed))) = Some True"
  by (simp add: size0 checkCumulativeBlockSize_def maxBlockCumulativeSize_def chain_pushed_def empty_chain_def sample_env_def sample_currency_simps)

lemma reward0: "\<exists>r e. getBlockReward sample_currency 0 1 0 42 0 0 = Inr (r, e)"
  by (simp add: getBlockReward_def blockGrantedFullRewardZoneByBlockVersion_def getPenalizedAmount_def sample_currency_simps assert_some_def)

lemma val0: "\<exists>reward change. validate_miner_transaction (ce_currency (sample_env ok)) chain_pushed block0 (getCurrentBlockchainHeight empty_chain) (block_size block0 [])
    (getCoinsInCirculation chain_pushed) 0 = Inr (True, reward, change)"
proof -
  have "getCurrentBlockchainHeight empty_chain = 0" "getCoinsInCirculation chain_pushed = 0" "ce_currency (sample_env ok) = sample_currency"
    "getBlockMajorVersionForHeight sample_currency 0 chain_pushed = 1" "get_last_n_blocks_sizes n chain_pushed = []" "medianValue [] = (0 :: u64)" for n
    by (simp_all add: chain_pushed_def empty_chain_def getCurrentBlockchainHeight_def getCoinsInCirculation_def sample_env_def
      getBlockMajorVersionForHeight_def get_last_n_blocks_sizes_def medianValue_def)
  then show ?thesis unfolding size0 validate_miner_transaction_def Let_def using reward0 by auto
qed

lemma auth0: "authorised (sample_env True) False block0 chain_pushed"
  by (simp add: authorised_def sample_env_def)

lemma upgrade_heights: "upgradeHeight sample_currency 2 = 999999990" "upgradeHeight sample_currency 3 = 999999991" "upgradeHeight sample_currency 4 = 999999991"
  by (simp_all add: upgradeHeight_def sample_currency_simps)

lemma detectors0: "blockPushed sample_currency [block0] (no_detector 2) = Some (no_detector 2)"
  "blockPushed sample_currency [block0] (no_detector 3) = Some (no_detector 3)" "blockPushed sample_currency [block0] (no_detector 4) = Some (no_detector 4)"
  by (simp_all add: blockPushed_def no_detector_def upgrade_heights block0_def sample_block_def)

definition sample_chain :: Blockchain where
  "sample_chain = snd (snd (the (pushBlock_txs (sample_env True) block0 [] bvc0 empty_chain)))"

lemma entry0: "\<exists>bc3 bc4. pushBlock_entry (sample_env True) \<lparr>be_bl = block0, be_height = h, be_block_cumulative_size = sz,
      be_cumulative_difficulty = d, be_already_generated_coins = c, be_transactions = ts\<rparr> chain_pushed = Some bc3 \<and> detectors_pushed (ce_currency (sample_env True)) bc3 = Some bc4"
proof -
  let ?e = "\<lparr>be_bl = block0, be_height = h, be_block_cumulative_size = sz, be_cumulative_difficulty = d, be_already_generated_coins = c, be_transactions = ts\<rparr>"
  have "pushBlock_entry (sample_env True) ?e chain_pushed \<noteq> None"
    by (simp add: pushBlock_entry_def chain_pushed_def empty_chain_def gti_add_def coinbase_height_def block0_def bi_push_def Let_def)
  then obtain bc3 where bc3: "pushBlock_entry (sample_env True) ?e chain_pushed = Some bc3" by blast
  then have "m_blocks bc3 = [?e]" "m_upgradeDetectorV2 bc3 = no_detector 2" "m_upgradeDetectorV3 bc3 = no_detector 3" "m_upgradeDetectorV4 bc3 = no_detector 4"
    by (auto simp: pushBlock_entry_def chain_pushed_def empty_chain_def bind_eq_Some_conv Let_def split: if_splits)
  then show ?thesis using bc3 detectors0 by (simp add: detectors_pushed_def sample_env_def)
qed

lemma push0: "\<exists>bvc'. pushBlock_txs (sample_env True) block0 [] bvc0 empty_chain = Some (True, bvc', sample_chain)"
proof -
  obtain r c where v: "validate_miner_transaction (ce_currency (sample_env True)) chain_pushed block0 (getCurrentBlockchainHeight empty_chain) (block_size block0 [])
    (getCoinsInCirculation chain_pushed) 0 = Inr (True, r, c)" using val0 by blast
  obtain bvc' bc' where p: "pushBlock_txs (sample_env True) block0 [] bvc0 empty_chain = Some (True, bvc', bc')"
    unfolding pushBlock_txs_eq[OF check0 miner0 cum0 v] Let_def using auth0
      entry0[of "getCurrentBlockchainHeight empty_chain" "block_size block0 []" "1 + (if m_blocks chain_pushed = [] then 0 else be_cumulative_difficulty (last (m_blocks chain_pushed)))"
        "getCoinsInCirculation chain_pushed + c" "[\<lparr>te_tx = blk_baseTransaction block0, te_global_output_indexes = [0]\<rparr>]"] by auto
  then show ?thesis by (simp add: sample_chain_def)
qed

lemma refuse0: "\<exists>bvc' bc'. pushBlock_txs (sample_env False) block0 [] bvc0 empty_chain = Some (False, bvc', bc')"
proof -
  obtain r c where v: "validate_miner_transaction (ce_currency (sample_env False)) chain_pushed block0 (getCurrentBlockchainHeight empty_chain) (block_size block0 [])
    (getCoinsInCirculation chain_pushed) 0 = Inr (True, r, c)" using val0 by blast
  have "\<not> authorised (sample_env False) False block0 chain_pushed" by (simp add: authorised_def sample_env_def chain_pushed_def empty_chain_def)
  then show ?thesis unfolding pushBlock_txs_eq[OF check0 miner0 cum0 v] Let_def
    by (simp add: popTransactions_def popTransaction_def chain_pushed_def empty_chain_def block0_def sample_coinbase_def ai_remove_def sample_env_def case_prod_beta)
qed

section \<open>Properties\<close>

lemma sample_fits: "block_fits (sample_env ok) block0 [] empty_chain"
  by (simp add: block_fits_def empty_chain_def block0_def)

lemma empty_chain_ok: "starts_empty empty_chain" "tables_ok empty_chain"
  by (simp_all add: starts_empty_def empty_chain_def tables_ok_def no_empty_def hi_entries_def)

lemma sample_chain_reachable: "chain_reachable chain_crypto sample_chain" "m_blocks sample_chain \<noteq> []"
proof -
  obtain bvc' where p: "pushBlock_txs (sample_env True) block0 [] bvc0 empty_chain = Some (True, bvc', sample_chain)" using push0 by blast
  show "chain_reachable chain_crypto sample_chain"
    by (rule chain_accept[OF chain_start[OF empty_chain_ok(1)] _ p sample_fits]) (simp_all add: sample_env_def empty_chain_def)
  show "m_blocks sample_chain \<noteq> []"
    by (rule pushBlock_txs_accepted[OF p]) (use pushed_state(2) in fastforce)
qed

text \<open>
  C2: a block that \<open>pushBlock\<close> accepts extends the chain at its end: it names the last block as its
  predecessor and is new; its time is not too far in the future and not below the median of the last blocks
  when there are enough of them; at heights with checkpoints it is the one of the checkpoint, elsewhere its
  proof of work meets the next difficulty, which is not zero and is added to the cumulative difficulty; the
  size is below the limit; the coinbase names the height and, above height 58505, pays exactly the reward
  for the size, the fees and the coins so far, to which the change of the emission is added.
\<close>

theorem accepted_block_valid:
  assumes "pushBlock_txs E b txs bvc bc = Some (True, bvc', bc')"
  shows "\<exists>entry d reward change. m_blocks bc' = m_blocks bc @ [entry] \<and> be_bl entry = b
    \<and> map te_tx (be_transactions entry) = blk_baseTransaction b # txs
    \<and> getTailId bc = Some (blk_previousBlockHash b) \<and> \<not> hasBlock (m_blockIndex bc) (block_hash (ce_H E) b)
    \<and> blk_timestamp b \<le> ce_time E + blockFutureTimeLimit (ce_currency E) (blk_majorVersion b)
    \<and> (unat (timestampCheckWindow (ce_currency E) (blk_majorVersion b)) \<le> length (m_blocks bc)
        \<longrightarrow> medianValue (last_timestamps (ce_currency E) (blk_majorVersion b) bc) \<le> blk_timestamp b)
    \<and> getDifficultyForNextBlock (ce_currency E) bc = Inr d \<and> d \<noteq> 0
    \<and> be_cumulative_difficulty entry = d + (if m_blocks bc = [] then 0 else be_cumulative_difficulty (last (m_blocks bc)))
    \<and> (if is_in_checkpoint_zone (m_checkpoints bc) (getCurrentBlockchainHeight bc)
       then fst (check_block (m_checkpoints bc) (getCurrentBlockchainHeight bc) (block_hash (ce_H E) b))
       else checkProofOfWork (ce_H E) (ce_slow_hash E) (ce_currency E) b d \<noteq> None)
    \<and> checkCumulativeBlockSize (ce_currency E) (block_size b txs) (word_of_nat (length (m_blocks bc))) = Some True
    \<and> tx_inputs (blk_baseTransaction b) = [BaseInput (getCurrentBlockchainHeight bc)]
    \<and> getBlockReward (ce_currency E) (getCurrentBlockchainHeight bc) (getBlockMajorVersionForHeight (ce_currency E) (getCurrentBlockchainHeight bc) bc)
        (medianValue (get_last_n_blocks_sizes (unat (m_rewardBlocksWindow (ce_currency E))) bc)) (block_size b txs)
        (getCoinsInCirculation bc) (sum_list (map tx_fee txs)) = Inr (reward, change)
    \<and> (58505 < getCurrentBlockchainHeight bc \<longrightarrow> getOutputAmount (blk_baseTransaction b) = reward)
    \<and> be_already_generated_coins entry = getCoinsInCirculation bc + change"
proof -
  obtain d z entry reward change bc2 bc3 bc4 where a: "check_new_block E b (block_hash (ce_H E) b) bc = Some (Inr (d, z))" "same_rest bc bc2"
    "entry = \<lparr>be_bl = b, be_height = getCurrentBlockchainHeight bc, be_block_cumulative_size = block_size b txs,
      be_cumulative_difficulty = d + (if m_blocks bc = [] then 0 else be_cumulative_difficulty (last (m_blocks bc))),
      be_already_generated_coins = getCoinsInCirculation bc + change, be_transactions = be_transactions entry\<rparr>"
    "map te_tx (be_transactions entry) = blk_baseTransaction b # txs"
    "checkCumulativeBlockSize (ce_currency E) (block_size b txs) (word_of_nat (length (m_blocks bc))) = Some True"
    "validate_miner_transaction (ce_currency E) bc2 b (getCurrentBlockchainHeight bc) (block_size b txs) (getCoinsInCirculation bc) (sum_list (map tx_fee txs))
      = Inr (True, reward, change)"
    "pushBlock_entry E entry bc2 = Some bc3" "detectors_pushed (ce_currency E) bc3 = Some bc4" "bc' = update_next_cumulative_size_limit (ce_currency E) bc4"
    by (rule pushBlock_txs_accepted[OF assms])
  note c = check_new_block_ok[OF a(1)] and s = same_rest_fields[OF a(2)] and v = reward_validated[OF a(6,2)]
  note t = timestamp_checked[OF c(5)]
  have e: "be_bl entry = b" "be_cumulative_difficulty entry = d + (if m_blocks bc = [] then 0 else be_cumulative_difficulty (last (m_blocks bc)))"
    "be_already_generated_coins entry = getCoinsInCirculation bc + change" by (subst a(3), simp)+
  have m: "m_blocks bc' = m_blocks bc @ [entry]" using pushed_state(2)[OF a(7-9)] s by simp
  show ?thesis
    by (rule exI[of _ entry], rule exI[of _ d], rule exI[of _ reward], rule exI[of _ change])
      (use m e a(4,5) c(1,4,6-10) t v prevalidate_inputs[OF c(11)] in auto)
qed

theorem accepted_block_valid_witness:
  "\<exists>entry d. m_blocks sample_chain = [entry] \<and> be_bl entry = block0 \<and> getDifficultyForNextBlock sample_currency empty_chain = Inr d \<and> d \<noteq> 0
    \<and> be_cumulative_difficulty entry = d"
proof -
  obtain bvc' where p: "pushBlock_txs (sample_env True) block0 [] bvc0 empty_chain = Some (True, bvc', sample_chain)" using push0 by blast
  have e: "m_blocks empty_chain = []" "ce_currency (sample_env True) = sample_currency" by (simp_all add: empty_chain_def sample_env_def)
  show ?thesis using accepted_block_valid[OF p] unfolding e by auto
qed





text \<open>
  C6: rolling back ends, without a failing assertion and without an access outside a table, in a state that
  is again reachable and whose blocks are the first ones up to the height. The bound is computed with 32 bits,
  so a rollback to the greatest height removes every block.
\<close>

theorem rollback_terminates:
  assumes "chain_reachable C bc" "ce_crypto E = C"
  shows "\<exists>bc'. rollbackBlockchainTo E height bc = Some bc' \<and> chain_reachable C bc'
    \<and> m_blocks bc' = take (unat (height + 1)) (m_blocks bc)"
  using assms by (rule rollback_reachable)

theorem rollback_terminates_witness:
  "m_blocks sample_chain \<noteq> [] \<and> (\<exists>bc'. rollbackBlockchainTo (sample_env True) (- 1) sample_chain = Some bc' \<and> m_blocks bc' = [])"
proof -
  have "ce_crypto (sample_env True) = chain_crypto" by (simp add: sample_env_def)
  from rollback_terminates[OF sample_chain_reachable(1) this, of "- 1"] sample_chain_reachable(2) show ?thesis by auto
qed



end
