(* ===== verification/BlockchainTyping.thy ===== *)
theory BlockchainTyping
  imports BlockchainProperties
begin

text \<open>
  What the tables of \<open>src/src/DynexCNCore/Blockchain.cpp\<close> point to: every index in the tables of outputs, of
  multisignature outputs and of transactions leads to a transaction of the chain. The check of the inputs of
  a transaction relies on it.
\<close>

section \<open>What the entries of the tables point to\<close>

definition is_MultisignatureOutput :: "TransactionOutputTarget \<Rightarrow> bool" where
  "is_MultisignatureOutput t \<longleftrightarrow> \<not> is_KeyOutput t"

text \<open>The transaction at an index, and an output of an amount and of a kind in it.\<close>

definition output_at :: "(TransactionIndex \<Rightarrow> Transaction option) \<Rightarrow> (TransactionOutputTarget \<Rightarrow> bool) \<Rightarrow> u64 \<Rightarrow> TransactionIndex \<Rightarrow> u16 \<Rightarrow> bool" where
  "output_at lk kind amount ti i \<longleftrightarrow> (\<exists>tx. lk ti = Some tx \<and> unat i < length (tx_outputs tx)
    \<and> out_amount (tx_outputs tx ! unat i) = amount \<and> kind (out_target (tx_outputs tx ! unat i)))"

definition outs_typed :: "(TransactionIndex \<Rightarrow> Transaction option) \<Rightarrow> OutputTables \<Rightarrow> bool" where
  "outs_typed lk = (\<lambda>(m, ms). (\<forall>a. \<forall>p\<in>set (vec m a). output_at lk is_KeyOutput a (fst p) (snd p))
    \<and> (\<forall>a. \<forall>u\<in>set (vec ms a). output_at lk is_MultisignatureOutput a (mu_transactionIndex u) (mu_outputIndex u)))"

lemma output_at_mono: "output_at lk kind a ti i \<Longrightarrow> lk \<subseteq>\<^sub>m lk' \<Longrightarrow> output_at lk' kind a ti i"
  unfolding output_at_def map_le_def by (metis domI)

lemma outs_typed_mono: "outs_typed lk t \<Longrightarrow> lk \<subseteq>\<^sub>m lk' \<Longrightarrow> outs_typed lk' t"
  unfolding outs_typed_def case_prod_beta using output_at_mono by blast

lemma vec_upd [simp]: "vec (m(a \<mapsto> xs)) b = (if a = b then xs else vec m b)"
  by (simp add: vec_def)

lemma push_output_typed:
  assumes "outs_typed lk t" "lk ti = Some tx" "i < length (tx_outputs tx)" "i < 2 ^ 16" "tx_outputs tx ! i = out"
  shows "outs_typed lk (push_output ti (word_of_nat i) out t)"
proof -
  have i: "unat (word_of_nat i :: u16) = i" using assms(4) by (simp add: unat_of_nat)
  have "output_at lk kind (out_amount out) ti (word_of_nat i) \<longleftrightarrow> kind (out_target out)" for kind
    using assms(2,3,5) by (simp add: output_at_def i)
  then show ?thesis using assms(1)
    by (cases t; cases "out_target out") (auto simp: outs_typed_def push_output_def is_MultisignatureOutput_def)
qed

lemma push_outputs_typed:
  assumes "outs_typed lk t" "lk ti = Some tx" "length (tx_outputs tx) < 2 ^ 16" "drop i (tx_outputs tx) = outs"
  shows "outs_typed lk (snd (push_outputs ti (word_of_nat i) outs t))"
  using assms
proof (induction outs arbitrary: i t)
  case (Cons out outs)
  have i: "i < length (tx_outputs tx)" "tx_outputs tx ! i = out" "drop (Suc i) (tx_outputs tx) = outs"
    using Cons.prems(4) by (metis drop_eq_Nil list.distinct(1) not_le, metis nth_via_drop, metis drop_Suc list.sel(3) tl_drop)
  have "outs_typed lk (push_output ti (word_of_nat i) out t)"
    using push_output_typed[OF Cons.prems(1,2) i(1) _ i(2)] i(1) Cons.prems(3) by simp
  from Cons.IH[OF this Cons.prems(2,3) i(3)] show ?case by (simp add: case_prod_beta add.commute)
qed simp

lemma set_used_typed:
  assumes "set_used u ins ms = Some ms'" "outs_typed lk (m, ms)"
  shows "outs_typed lk (m, ms')"
  using assms
proof (induction ins arbitrary: ms rule: msig_pairs.induct)
  case (3 a n i ins)
  define us where "us = vec ms a"
  define ms1 where "ms1 = ms(a \<mapsto> us[unat i := (us ! unat i)\<lparr>mu_isUsed := u\<rparr>])"
  have i: "unat i < length us" "set_used u ins ms1 = Some ms'" using 3(2) by (auto simp: ms1_def us_def Let_def split: if_splits)
  have "output_at lk is_MultisignatureOutput a (mu_transactionIndex v) (mu_outputIndex v)" if v: "v \<in> set (us[unat i := (us ! unat i)\<lparr>mu_isUsed := u\<rparr>])" for v
  proof -
    have "v = (us ! unat i)\<lparr>mu_isUsed := u\<rparr> \<or> v \<in> set us" using set_update_subset_insert[of us "unat i"] v by blast
    then obtain w where "w \<in> set us" "mu_transactionIndex v = mu_transactionIndex w" "mu_outputIndex v = mu_outputIndex w"
      using nth_mem[OF i(1)] by (cases "v \<in> set us") auto
    then show ?thesis using 3(3) by (simp add: outs_typed_def us_def)
  qed
  then have "outs_typed lk (m, ms1)" using 3(3) by (simp add: outs_typed_def ms1_def)
  from 3(1)[OF i(2) this] show ?case .
qed auto

lemma pushTransaction_typed:
  assumes "pushTransaction C valid height te h ti t = Some (r, te', t')" "outs_typed lk (m_outputs t, m_multisignatureOutputs t)" "lk ti = Some (te_tx te)"
  shows "outs_typed lk (m_outputs t', m_multisignatureOutputs t')"
proof (cases r)
  case True
  obtain msig gs outs msig' where u: "set_used True (tx_inputs (te_tx te)) (m_multisignatureOutputs t) = Some msig" "length (tx_outputs (te_tx te)) < 2 ^ 16"
    "push_outputs ti 0 (tx_outputs (te_tx te)) (m_outputs t, msig) = (gs, outs, msig')" "m_outputs t' = outs" "m_multisignatureOutputs t' = msig'"
    by (rule pushTransaction_cases[OF assms(1)[unfolded eqTrueI[OF True]]]) simp
  show ?thesis using push_outputs_typed[OF set_used_typed[OF u(1) assms(2)] assms(3) u(2), of 0] u(3-5) by simp
next
  case False
  then have "m_outputs t' = m_outputs t \<and> m_multisignatureOutputs t' = m_multisignatureOutputs t"
    using assms(1) by (auto simp: pushTransaction_def bind_eq_Some_conv Let_def case_prod_beta split: if_splits)
  then show ?thesis using assms(2) by simp
qed

text \<open>A block is being pushed: its transactions so far are at the indices of the next height.\<close>

definition lookup :: "BlockEntry list \<Rightarrow> TransactionIndex \<Rightarrow> Transaction option" where
  "lookup bs ti = (if unat (ti_block ti) < length bs \<and> unat (ti_transaction ti) < length (be_transactions (bs ! unat (ti_block ti)))
     then Some (te_tx (be_transactions (bs ! unat (ti_block ti)) ! unat (ti_transaction ti))) else None)"

lemma lookup_transactionByIndex: "lookup (m_blocks bc) ti = map_option te_tx (transactionByIndex ti bc)"
  by (simp add: lookup_def transactionByIndex_def nth_block_def)

definition pending :: "BlockEntry list \<Rightarrow> Transaction list \<Rightarrow> TransactionIndex \<Rightarrow> Transaction option" where
  "pending bs txs ti = (if unat (ti_block ti) = length bs then (if unat (ti_transaction ti) < length txs then Some (txs ! unat (ti_transaction ti)) else None)
    else lookup bs ti)"

lemma pending_mono: "pending bs txs \<subseteq>\<^sub>m pending bs (txs @ [tx])"
  by (auto simp: pending_def map_le_def nth_append dom_def split: if_splits)

lemma lookup_pending: "lookup bs \<subseteq>\<^sub>m pending bs txs"
  by (auto simp: pending_def lookup_def map_le_def dom_def split: if_splits)

lemma pending_done: "map te_tx (be_transactions e) = txs \<Longrightarrow> pending bs txs = lookup (bs @ [e])"
  by (auto simp: pending_def lookup_def fun_eq_iff nth_append less_Suc_eq)

lemma pending_new:
  "length bs < 2 ^ 32 \<Longrightarrow> length txs < 2 ^ 16
    \<Longrightarrow> pending bs (txs @ [tx]) \<lparr>ti_block = word_of_nat (length bs), ti_transaction = word_of_nat (length txs)\<rparr> = Some tx"
  by (simp add: pending_def unat_of_nat)

definition tables_typed :: "(TransactionIndex \<Rightarrow> Transaction option) \<Rightarrow> 'a ChainTables_scheme \<Rightarrow> bool" where
  "tables_typed lk t \<longleftrightarrow> outs_typed lk (m_outputs t, m_multisignatureOutputs t) \<and> (\<forall>ti\<in>ran (m_transactionMap t). lk ti \<noteq> None)"

lemma tables_typed_mono: "tables_typed lk t \<Longrightarrow> lk \<subseteq>\<^sub>m lk' \<Longrightarrow> tables_typed lk' t"
  using outs_typed_mono[of lk] unfolding tables_typed_def map_le_def by (metis domIff)

lemma tables_typed_same: "same_tables t t' \<Longrightarrow> tables_typed lk t' \<Longrightarrow> tables_typed lk t"
  by (simp add: same_tables_def tables_typed_def)

lemma push_typed:
  assumes "pushTransaction C valid height te h ti t = Some (r, te', t')" "tables_typed lk t" "lk ti = Some (te_tx te)"
  shows "tables_typed lk t'"
proof -
  have "m_transactionMap t' = m_transactionMap t \<or> m_transactionMap t' = (m_transactionMap t)(h \<mapsto> ti) \<and> m_transactionMap t h = None"
    using assms(1) by (auto simp: pushTransaction_def bind_eq_Some_conv Let_def case_prod_beta split: if_splits)
  then have "\<forall>ti'\<in>ran (m_transactionMap t'). lk ti' \<noteq> None" using assms(2,3) by (auto simp: tables_typed_def)
  then show ?thesis using pushTransaction_typed[OF assms(1), of lk] assms(2,3) by (simp add: tables_typed_def)
qed

lemma push_loop_typed:
  assumes "push_loop E z \<lparr>ti_block = word_of_nat (length bs), ti_transaction = word_of_nat i\<rparr> L entries sz fee bc = Some (ok, entries', sz', fee', bc')"
    "tables_typed (pending bs (map te_tx entries)) bc" "length entries = Suc i" "Suc i + length L < 2 ^ 16" "length bs < 2 ^ 32"
  shows "tables_typed (pending bs (map te_tx entries')) bc'"
  using assms
proof (induction L arbitrary: i entries sz fee bc)
  case (Cons p L)
  obtain tx h where p: "p = (tx, h)" by (cases p)
  define ti where "ti = \<lparr>ti_block = word_of_nat (length bs) :: u32, ti_transaction = word_of_nat (Suc i) :: u16\<rparr>"
  have sm: "tables_typed lk (bc\<lparr>PrivacyMemBC := mem\<rparr>) = tables_typed lk bc" for lk mem by (simp add: tables_typed_def)
  from Cons.prems(1)[unfolded p] consider (stop) "entries' = entries" "bc' = bc \<or> (\<exists>r. check_non_privacy E tx bc = Some (r, bc'))"
    | (go) sz1 fee1 te r bc1 bc2 where "push_loop E z ti L (entries @ [te]) sz1 fee1 bc2 = Some (ok, entries', sz', fee', bc')"
      "pushTransaction (ce_crypto E) (check_tx_inputs_keyimages_domain bc1) (ce_uninit_height E) \<lparr>te_tx = tx, te_global_output_indexes = []\<rparr> h ti bc1 = Some (r, te, bc2)"
      "bc1 = bc \<or> check_non_privacy E tx bc = Some (True, bc1)"
    by (auto simp: bind_eq_Some_conv Let_def ti_def add.commute split: if_splits)
  then show ?case
  proof cases
    case stop
    then show ?thesis using Cons.prems(2) check_non_privacy_memory[of E tx bc _ bc'] sm by auto
  next
    case go
    have te: "te_tx te = tx" using pushTransaction_tx[OF go(2)] by simp
    have "tables_typed (pending bs (map te_tx entries @ [tx])) bc1"
      using go(3) check_non_privacy_memory[of E tx bc True bc1] sm tables_typed_mono[OF Cons.prems(2) pending_mono] by auto
    moreover have "pending bs (map te_tx entries @ [tx]) ti = Some tx"
      using pending_new[of bs "map te_tx entries" tx] Cons.prems(3-5) by (simp add: ti_def)
    ultimately have "tables_typed (pending bs (map te_tx (entries @ [te]))) bc2" using push_typed[OF go(2)] te by simp
    from Cons.IH[OF go(1)[unfolded ti_def] this] Cons.prems(3-5) show ?thesis by simp
  qed
qed auto

definition chain_typed :: "Blockchain \<Rightarrow> bool" where
  "chain_typed bc \<longleftrightarrow> tables_typed (lookup (m_blocks bc)) bc"

lemma chain_typed_same: "same_chain bc' bc \<Longrightarrow> chain_typed bc \<Longrightarrow> chain_typed bc'"
  using tables_typed_same by (auto simp: chain_typed_def same_chain_def)

lemma push_chain_typed:
  assumes "pushBlock_txs E b txs bvc bc = Some (True, bvc', bc')" "chain_typed bc" "length txs + 1 < 2 ^ 16" "length (m_blocks bc) < 2 ^ 32"
  shows "chain_typed bc'"
  using assms(1)
proof (cases rule: pushBlock_txs_cases)
  case (pushed d z te bc1 r oka entries sz fee bc2)
  let ?bs = "m_blocks bc" and ?b = "blk_baseTransaction b"
  have te: "te_tx te = ?b" using pushTransaction_tx[OF pushed(3)] by simp
  have ti: "\<lparr>ti_block = getCurrentBlockchainHeight bc, ti_transaction = 0\<rparr> = \<lparr>ti_block = word_of_nat (length ?bs) :: u32, ti_transaction = word_of_nat 0 :: u16\<rparr>"
    by (simp add: getCurrentBlockchainHeight_def)
  have "tables_typed (pending ?bs [?b]) bc" using assms(2) tables_typed_mono[OF _ lookup_pending] by (simp add: chain_typed_def)
  then have "tables_typed (pending ?bs [?b]) bc1"
    using push_typed[OF pushed(3)] pending_new[of ?bs "[]" ?b] assms(4) by (simp add: ti)
  then have 2: "tables_typed (pending ?bs (map te_tx entries)) bc2"
    using push_loop_typed[OF pushed(4)[unfolded ti], of] assms(3,4) te by simp
  have r: "same_rest bc bc2" by (rule pushed_rest[OF pushed(3,4)])
  from pushed(5) obtain block bc3 bc4 where k: "pushBlock_entry E block bc2 = Some bc3" "detectors_pushed (ce_currency E) bc3 = Some bc4"
    "bc' = update_next_cumulative_size_limit (ce_currency E) bc4" "be_transactions block = entries" by auto
  note st = pushed_state[OF k(1-3)]
  have "lookup (m_blocks bc') = pending ?bs (map te_tx entries)" using pending_done[of block _ ?bs] k(4) st(2) same_rest_fields[OF r] by simp
  then show ?thesis using 2 tables_typed_same[OF st(1)] by (simp add: chain_typed_def)
qed auto

lemma built_typed: "built C hist bc \<Longrightarrow> chain_typed bc"
proof (induction rule: built.induct)
  case (built_empty bc)
  then show ?case by (simp add: chain_typed_def tables_typed_def outs_typed_def starts_empty_def vec_def)
next
  case (built_push hist bc E b txs bvc bvc' bc1 bc')
  have "length txs + 1 < 2 ^ 16" using built_push(4) by (simp add: block_fits_def)
  from push_chain_typed[OF built_push(3) built_push(7) this] built_push(5) chain_typed_same[OF built_push(6)] show ?case by simp
qed

section \<open>The check of inputs does not fail\<close>

lemma unlocked_total:
  assumes "m_blocks bc \<noteq> []" "length (m_blocks bc) < 2 ^ 32"
  shows "\<exists>r. is_tx_spendtime_unlocked cur t bc = Some r"
proof -
  have "unat ((word_of_nat (length (m_blocks bc)) :: u32) - 1) = length (m_blocks bc) - 1"
    using assms by (subst unat_minus_one) (auto simp: unat_of_nat word_unat_eq_iff)
  then have "unat ((word_of_nat (length (m_blocks bc)) :: u32) - 1) < length (m_blocks bc)" using assms(1) by simp
  then show ?thesis by (simp add: is_tx_spendtime_unlocked_def getBlockTimestamp_def nth_block_def getCurrentBlockchainHeight_def)
qed

lemma output_at_blocks:
  assumes "output_at (lookup (m_blocks bc)) kind a ti i"
  obtains te where "transactionByIndex ti bc = Some te" "unat i < length (tx_outputs (te_tx te))" "out_amount (tx_outputs (te_tx te) ! unat i) = a"
    "kind (out_target (tx_outputs (te_tx te) ! unat i))" "m_blocks bc \<noteq> []"
proof -
  obtain te where te: "transactionByIndex ti bc = Some te" "unat i < length (tx_outputs (te_tx te))" "out_amount (tx_outputs (te_tx te) ! unat i) = a"
    "kind (out_target (tx_outputs (te_tx te) ! unat i))"
    using assms by (auto simp: output_at_def lookup_transactionByIndex)
  have "m_blocks bc \<noteq> []" using te(1) by (auto simp: transactionByIndex_def nth_block_def bind_eq_Some_conv)
  with te that show ?thesis by blast
qed

lemma scan_loop_total:
  assumes "\<forall>p\<in>set outs. output_at (lookup (m_blocks bc)) is_KeyOutput a (fst p) (snd p)" "length (m_blocks bc) < 2 ^ 32"
  shows "\<exists>ok keys m'. scan_loop (handle_output cur bc) bc outs offsets s m = Some (ok, keys, m') \<and> (ok \<longrightarrow> (\<forall>i\<in>set offsets. unat i < length outs))"
proof (induction offsets arbitrary: s m)
  case (Cons i offsets)
  show ?case
  proof (cases "unat i < length outs")
    case True
    then have "output_at (lookup (m_blocks bc)) is_KeyOutput a (fst (outs ! unat i)) (snd (outs ! unat i))" using assms(1) nth_mem by blast
    then obtain te where te: "transactionByIndex (fst (outs ! unat i)) bc = Some te" "unat (snd (outs ! unat i)) < length (tx_outputs (te_tx te))" "m_blocks bc \<noteq> []"
      by (rule output_at_blocks)
    have "handle_output cur bc (te_tx te) (tx_outputs (te_tx te) ! unat (snd (outs ! unat i))) s \<noteq> None"
      using unlocked_total[OF te(3) assms(2), of cur "tx_unlockTime (te_tx te)"] by (auto simp: handle_output_def)
    then obtain ok s' where "handle_output cur bc (te_tx te) (tx_outputs (te_tx te) ! unat (snd (outs ! unat i))) s = Some (ok, s')" by auto
    then show ?thesis using te(1,2) True Cons.IH[of s'] by (cases ok) auto
  qed auto
qed auto

text \<open>What the serialization of a transaction guarantees about its signatures.\<close>

fun signatures_fit :: "TransactionInput list \<Rightarrow> Signature list list \<Rightarrow> bool" where
  "signatures_fit [] sigs = True"
| "signatures_fit (i # ins) [] = False"
| "signatures_fit (i # ins) (s # sigs) = ((case i of MultisignatureInput a n j \<Rightarrow> unat n = length s | _ \<Rightarrow> True) \<and> signatures_fit ins sigs)"

definition input_ok :: "Blockchain \<Rightarrow> TransactionInput \<Rightarrow> bool" where
  "input_ok bc i = (case i of
      KeyInput a idx k \<Rightarrow> idx \<noteq> [] \<and> \<not> have_tx_keyimg_as_spent k bc
        \<and> (\<forall>j\<in>set (relative_output_offsets_to_absolute idx). unat j < length (vec (m_outputs bc) a))
    | MultisignatureInput a n j \<Rightarrow> unat j < length (vec (m_multisignatureOutputs bc) a) \<and> \<not> used_at (m_multisignatureOutputs bc) (a, j)
    | BaseInput h \<Rightarrow> False)"

lemma check_tx_input_total:
  assumes "chain_typed bc" "length (m_blocks bc) < 2 ^ 32"
  shows "\<exists>ok m'. check_tx_input E bc a idx k ph sig m = Some (ok, m')
    \<and> (ok \<longrightarrow> (\<forall>j\<in>set (relative_output_offsets_to_absolute idx). unat j < length (vec (m_outputs bc) a)))"
proof (cases "m_outputs bc a = None \<or> idx = []")
  case True
  then show ?thesis by (auto simp: check_tx_input_def scanOutputKeysForIndexes_def split: option.splits)
next
  case False
  then obtain outs where outs: "m_outputs bc a = Some outs" by auto
  then have "\<forall>p\<in>set outs. output_at (lookup (m_blocks bc)) is_KeyOutput a (fst p) (snd p)"
    using assms(1) unfolding chain_typed_def tables_typed_def outs_typed_def vec_def by (auto split: option.splits)
  from scan_loop_total[OF this assms(2), of "ce_currency E" "relative_output_offsets_to_absolute idx" "[]" m]
  show ?thesis using outs False by (auto simp: check_tx_input_def scanOutputKeysForIndexes_def vec_def)
qed

lemma validateInput_total:
  assumes "chain_typed bc" "length (m_blocks bc) < 2 ^ 32" "unat n = length sig"
  shows "\<exists>ok. validateInput E bc a n j ph sig = Some ok
    \<and> (ok \<longrightarrow> unat j < length (vec (m_multisignatureOutputs bc) a) \<and> \<not> used_at (m_multisignatureOutputs bc) (a, j))"
proof (cases "m_multisignatureOutputs bc a")
  case (Some us)
  show ?thesis
  proof (cases "unat j < length us")
    case True
    then have "output_at (lookup (m_blocks bc)) is_MultisignatureOutput a (mu_transactionIndex (us ! unat j)) (mu_outputIndex (us ! unat j))"
      using assms(1) Some unfolding chain_typed_def tables_typed_def outs_typed_def vec_def by (auto split: option.splits)
    then obtain te where te: "transactionByIndex (mu_transactionIndex (us ! unat j)) bc = Some te" "unat (mu_outputIndex (us ! unat j)) < length (tx_outputs (te_tx te))"
      "out_amount (tx_outputs (te_tx te) ! unat (mu_outputIndex (us ! unat j))) = a"
      "is_MultisignatureOutput (out_target (tx_outputs (te_tx te) ! unat (mu_outputIndex (us ! unat j))))" "m_blocks bc \<noteq> []" by (rule output_at_blocks)
    obtain r where "is_tx_spendtime_unlocked (ce_currency E) (tx_unlockTime (te_tx te)) bc = Some r" using unlocked_total[OF te(5) assms(2)] by blast
    then show ?thesis using te assms(3) True Some
      by (auto simp: validateInput_def Let_def vec_def used_at_def is_MultisignatureOutput_def split: TransactionOutputTarget.splits)
  next
    case False
    then show ?thesis using Some assms(3) by (intro exI[of _ False]) (simp add: validateInput_def)
  qed
qed (use assms(3) in \<open>auto simp: validateInput_def\<close>)

lemma check_inputs_loop_total:
  assumes "chain_typed bc" "length (m_blocks bc) < 2 ^ 32" "signatures_fit ins sigs"
  shows "\<exists>ok m'. check_inputs_loop E bc ph ins sigs m = Some (ok, m') \<and> (ok \<longrightarrow> (\<forall>i\<in>set ins. input_ok bc i))"
  using assms(3)
proof (induction ins sigs arbitrary: m rule: signatures_fit.induct)
  case (3 i ins s sigs)
  then have IH: "\<And>m. \<exists>ok m'. check_inputs_loop E bc ph ins sigs m = Some (ok, m') \<and> (ok \<longrightarrow> (\<forall>i\<in>set ins. input_ok bc i))" by simp
  show ?case
  proof (cases i)
    case (KeyInput a idx k)
    then show ?thesis using IH check_tx_input_total[OF assms(1,2), of E a idx k ph s m] by (fastforce simp: input_ok_def)
  next
    case (MultisignatureInput a n j)
    then have "unat n = length s" using 3(2) by simp
    then show ?thesis using IH[of m] validateInput_total[OF assms(1,2), of n s E a j ph] MultisignatureInput by (auto simp: input_ok_def)
  qed auto
qed auto

section \<open>Property\<close>

text \<open>
  C7: on a reachable chain every entry of the tables of outputs points to an output of that amount and kind
  in a block of the chain. So the check of the inputs of a transaction with as many signatures as its
  multisignature inputs ask for always gives an answer, without a failing assertion and without an access
  outside a container; and a transaction that passes refers to existing outputs only, which are not spent.
\<close>

theorem input_checks_total:
  assumes "chain_reachable C bc" "signatures_fit (tx_inputs tx) (tx_signatures tx)"
  shows "chain_typed bc \<and> (\<exists>ok m. checkTransactionInputs E bc tx want_height = Some (ok, m) \<and> (ok \<longrightarrow> (\<forall>i\<in>set (tx_inputs tx). input_ok bc i)))"
proof -
  obtain hist where h: "built C hist bc" using reachable_built[OF assms(1)] by blast
  have "length (m_blocks bc) < 2 ^ 32" using built_ok[OF h] by (simp add: chain_ok_def)
  from check_inputs_loop_total[OF built_typed[OF h] this assms(2)] show ?thesis
    using built_typed[OF h] by (simp add: checkTransactionInputs_def)
qed

theorem input_checks_total_witness:
  "\<exists>ok m. checkTransactionInputs (sample_env True) sample_chain
      (sample_coinbase\<lparr>tx_inputs := [KeyInput 5 [0] (replicate 32 4), MultisignatureInput 5 1 0], tx_signatures := [[], [replicate 64 0]]\<rparr>) True = Some (ok, m)"
  using input_checks_total[OF sample_chain_reachable(1), of "sample_coinbase\<lparr>tx_inputs := [KeyInput 5 [0] (replicate 32 4), MultisignatureInput 5 1 0],
    tx_signatures := [[], [replicate 64 0]]\<rparr>" "sample_env True" True] by auto

end
