(* ===== verification/ChainCache.thy ===== *)
theory ChainCache
  imports BlockchainTyping
begin

text \<open>
  \<open>rebuildCache\<close> of \<open>src/src/DynexCNCore/Blockchain.cpp\<close> computes the tables and the block index from
  the stored blocks. On a reachable chain it finds what pushing the blocks has left there.
\<close>

section \<open>Rebuilding\<close>

fun rebuild_inputs :: "u32 \<Rightarrow> TransactionInput list \<Rightarrow> (KeyImage \<rightharpoonup> u32) \<times> (u64 \<rightharpoonup> MultisignatureOutputUsage list)
    \<Rightarrow> ((KeyImage \<rightharpoonup> u32) \<times> (u64 \<rightharpoonup> MultisignatureOutputUsage list)) option" where
  "rebuild_inputs b [] t = Some t"
| "rebuild_inputs b (i # ins) (spent, ms) =
    (case i of
       KeyInput amount indexes keyImage \<Rightarrow> rebuild_inputs b ins (if spent keyImage = None then spent(keyImage \<mapsto> b) else spent, ms)
     | MultisignatureInput amount n outputIndex \<Rightarrow>
         (let us = vec ms amount in
          if unat outputIndex < length us
          then rebuild_inputs b ins (spent, ms(amount \<mapsto> us[unat outputIndex := (us ! unat outputIndex)\<lparr>mu_isUsed := True\<rparr>]))
          else None)
     | BaseInput h \<Rightarrow> rebuild_inputs b ins (spent, ms))"

text \<open>One transaction; its outputs are entered as \<open>pushTransaction\<close> enters them.\<close>

definition rebuild_transaction :: "Crypto \<Rightarrow> TransactionIndex \<Rightarrow> Transaction \<Rightarrow> Hash \<Rightarrow> 'a ChainTables_scheme \<Rightarrow> 'a ChainTables_scheme option" where
  "rebuild_transaction C ti tx h t = do {
     (_, ai) \<leftarrow> ai_add C tx h (bc_addressindex t);
     (spent, ms) \<leftarrow> rebuild_inputs (ti_block ti) (tx_inputs tx) (spentKeyImages t, m_multisignatureOutputs t);
     if length (tx_outputs tx) \<ge> 2 ^ 16 then None
     else do {
       let (_, outs, ms) = push_outputs ti 0 (tx_outputs tx) (m_outputs t, ms);
       Some (t\<lparr>m_transactionMap := (if m_transactionMap t h = None then (m_transactionMap t)(h \<mapsto> ti) else m_transactionMap t),
         bc_paymentIdIndex := snd (pii_add tx h (bc_paymentIdIndex t)), bc_addressindex := ai,
         spentKeyImages := spent, m_outputs := outs, m_multisignatureOutputs := ms\<rparr>) } }"

text \<open>The transactions of a block from number \<open>t\<close> on; the hashes are asserted to be those of the header.\<close>

fun rebuild_transactions :: "Crypto \<Rightarrow> Hash list \<Rightarrow> u32 \<Rightarrow> nat \<Rightarrow> TransactionEntry list \<Rightarrow> 'a ChainTables_scheme \<Rightarrow> 'a ChainTables_scheme option" where
  "rebuild_transactions C hashes b t [] tbl = Some tbl"
| "rebuild_transactions C hashes b t (te # entries) tbl = do {
     let objectHash = snd (getObjectHash (cn_fast_hash C) write_Transaction (te_tx te));
     transactionHash \<leftarrow> (if t \<noteq> 0
       then if t - 1 < length hashes \<and> hashes ! (t - 1) = objectHash then Some (hashes ! (t - 1)) else None
       else Some objectHash);
     tbl \<leftarrow> rebuild_transaction C \<lparr>ti_block = b, ti_transaction = word_of_nat t\<rparr> (te_tx te) transactionHash tbl;
     rebuild_transactions C hashes b (t + 1) entries tbl }"

text \<open>One block; its hash is read from the next block if there is one. The counter of the transactions has 16 bits.\<close>

definition rebuild_block :: "Crypto \<Rightarrow> u32 \<Rightarrow> BlockEntry option \<Rightarrow> BlockEntry \<Rightarrow> Blockchain \<Rightarrow> Blockchain option" where
  "rebuild_block C b nextBlock block bc = do {
     blockHash \<leftarrow> (case nextBlock of
       None \<Rightarrow> Some (block_hash (cn_fast_hash C) (be_bl block))
     | Some bei \<Rightarrow> if blk_previousBlockHash (be_bl bei) = block_hash (cn_fast_hash C) (be_bl block) then Some (blk_previousBlockHash (be_bl bei)) else None);
     (_, generated) \<leftarrow> gti_add (be_bl block) (m_generatedTransactionsIndex bc);
     let bc = bc\<lparr>m_blockIndex := snd (bi_push (m_blockIndex bc) blockHash),
       bc_timestampIndex := snd (tbi_add (blk_timestamp (be_bl block)) blockHash (bc_timestampIndex bc)),
       m_generatedTransactionsIndex := generated\<rparr>;
     if length (blk_transactionHashes (be_bl block)) + 1 \<noteq> length (be_transactions block) then None
     else if length (be_transactions block) \<ge> 2 ^ 16 then None
     else rebuild_transactions C (blk_transactionHashes (be_bl block)) b 0 (be_transactions block) bc }"

fun rebuild_loop :: "Crypto \<Rightarrow> u32 \<Rightarrow> BlockEntry list \<Rightarrow> Blockchain \<Rightarrow> Blockchain option" where
  "rebuild_loop C b [] bc = Some bc"
| "rebuild_loop C b (block # blocks) bc = do {
     bc \<leftarrow> rebuild_block C b (case blocks of [] \<Rightarrow> None | n # _ \<Rightarrow> Some n) block bc;
     rebuild_loop C (b + 1) blocks bc }"

definition clear_cache :: "Blockchain \<Rightarrow> Blockchain" where
  "clear_cache bc = bc\<lparr>m_blockIndex := [], m_transactionMap := Map.empty, spentKeyImages := Map.empty, m_outputs := Map.empty,
     m_multisignatureOutputs := Map.empty, bc_addressindex := hi_clear (bc_addressindex bc),
     bc_paymentIdIndex := hi_clear (bc_paymentIdIndex bc), bc_timestampIndex := hi_clear (bc_timestampIndex bc),
     m_generatedTransactionsIndex := gti_clear (m_generatedTransactionsIndex bc)\<rparr>"

definition rebuildCache :: "Crypto \<Rightarrow> Blockchain \<Rightarrow> Blockchain option" where
  "rebuildCache C bc =
    (let bc = clear_cache bc in if m_blocks bc = [] then Some bc else rebuild_loop C 0 (m_blocks bc) bc)"

section \<open>Rebuilding what was pushed\<close>

definition cached :: "'a ChainTables_scheme \<Rightarrow> 'b ChainTables_scheme \<Rightarrow> bool" where
  "cached t q \<longleftrightarrow> m_outputs t = m_outputs q \<and> m_multisignatureOutputs t = m_multisignatureOutputs q
    \<and> m_transactionMap t = m_transactionMap q \<and> dom (spentKeyImages t) = dom (spentKeyImages q)"

lemma cached_memory [simp]: "cached (bc\<lparr>PrivacyMemBC := mem\<rparr>) q = cached bc q"
  by (simp add: cached_def)

abbreviation object_hash :: "Crypto \<Rightarrow> Transaction \<Rightarrow> Hash" where
  "object_hash C tx \<equiv> snd (getObjectHash (cn_fast_hash C) write_Transaction tx)"

lemma rebuild_inputs_used:
  assumes "set_used True ins ms = Some ms'"
  shows "\<exists>spent'. rebuild_inputs b ins (spent, ms) = Some (spent', ms') \<and> dom spent' = set (images ins) \<union> dom spent"
  using assms
proof (induction ins arbitrary: spent ms rule: images.induct)
  case (2 a idx k ins)
  from 2(1)[of ms "if spent k = None then spent(k \<mapsto> b) else spent"] 2(2) show ?case by (auto split: if_splits)
next
  case (3 a n i ins)
  then show ?case by (auto simp: Let_def split: if_splits)
qed auto

lemma rebuild_pushed:
  assumes p: "pushTransaction C valid height te h ti t = Some (True, te', t')" and v: "\<forall>k\<in>set (images (tx_inputs (te_tx te))). valid k"
    and c: "cached t q"
  shows "\<exists>q'. rebuild_transaction C ti (te_tx te) h q = Some q' \<and> cached t' q' \<and> ChainTables.more q' = ChainTables.more q"
proof -
  obtain spent msig gs outs msig' where u: "m_transactionMap t h = None"
    "push_images valid height [] (tx_inputs (te_tx te)) (spentKeyImages t) = Some (True, spent)"
    "set_used True (tx_inputs (te_tx te)) (m_multisignatureOutputs t) = Some msig" "length (tx_outputs (te_tx te)) < 2 ^ 16"
    "push_outputs ti 0 (tx_outputs (te_tx te)) (m_outputs t, msig) = (gs, outs, msig')"
    "m_outputs t' = outs" "m_multisignatureOutputs t' = msig'" "m_transactionMap t' = (m_transactionMap t)(h \<mapsto> ti)" "spentKeyImages t' = spent"
    by (rule pushTransaction_cases[OF p]) simp
  have d: "dom spent = set (images (tx_inputs (te_tx te))) \<union> dom (spentKeyImages t)"
    using push_images_ok[OF u(2) v] by (auto split: if_splits)
  obtain spent' where s: "rebuild_inputs (ti_block ti) (tx_inputs (te_tx te)) (spentKeyImages q, m_multisignatureOutputs t) = Some (spent', msig)"
    "dom spent' = set (images (tx_inputs (te_tx te))) \<union> dom (spentKeyImages q)"
    using rebuild_inputs_used[OF u(3)] by blast
  obtain r j where "ai_add C (te_tx te) h (bc_addressindex q) = Some (r, j)" using ai_total(1) by blast
  then show ?thesis using c s u d by (simp add: rebuild_transaction_def cached_def)
qed

text \<open>A transaction that passed the checks is entered.\<close>

lemma push_checked:
  assumes "pushTransaction C (check_tx_inputs_keyimages_domain (bc\<lparr>PrivacyMemBC := mem\<rparr>)) height \<lparr>te_tx = tx, te_global_output_indexes = []\<rparr>
      h ti (bc\<lparr>PrivacyMemBC := mem\<rparr>) = Some (r, te, bc2)"
    "checkTransactionInputs E bc tx False = Some (True, m)" "spends_once bc tx" "m_transactionMap bc h = None" "tables_ok bc" "same_rest bc bc2"
  shows "r" "tables_ok bc2" "m_transactionMap bc2 = (m_transactionMap bc)(h \<mapsto> ti)" "spends_once bc2 = spends_once bc"
    "\<forall>k\<in>set (images (tx_inputs tx)). check_tx_inputs_keyimages_domain (bc\<lparr>PrivacyMemBC := mem\<rparr>) k"
proof -
  let ?bc = "bc\<lparr>PrivacyMemBC := mem\<rparr>"
  have d: "check_tx_inputs_keyimages_domain ?bc = check_tx_inputs_keyimages_domain bc" by (rule domain_same) simp
  have i: "\<forall>k\<in>set (images (tx_inputs tx)). spentKeyImages ?bc k = None"
    "\<forall>p\<in>set (msig_pairs (tx_inputs tx)). unat (snd p) < length (vec (m_multisignatureOutputs ?bc) (fst p)) \<and> \<not> used_at (m_multisignatureOutputs ?bc) p"
    using check_inputs_loop_ok[OF assms(2)[unfolded checkTransactionInputs_def]] assms(3) by (auto simp: spends_once_def)
  have s: "spends_once ?bc tx" "m_transactionMap ?bc h = None" "tables_ok ?bc" using assms(3-5) d by (simp_all add: spends_once_def)
  show "r" using pushTransaction_ok(1)[OF assms(1) s(2)] i s(1) by (auto simp: spends_once_def)
  show "tables_ok bc2" by (rule push_one(1)[OF assms(1) i s])
  show "m_transactionMap bc2 = (m_transactionMap bc)(h \<mapsto> ti)" using push_one(2)[OF assms(1) i s] by simp
  show "spends_once bc2 = spends_once bc"
    using domain_same[of bc2 bc] same_rest_fields[OF assms(6)] by (simp add: fun_eq_iff spends_once_def)
  show "\<forall>k\<in>set (images (tx_inputs tx)). check_tx_inputs_keyimages_domain ?bc k" using s(1) by (simp add: spends_once_def)
qed

lemma rebuild_push_loop:
  assumes "push_loop E z \<lparr>ti_block = b, ti_transaction = word_of_nat i\<rparr> L entries sz fee bc = Some (True, entries', sz', fee', bc')"
    "tables_ok bc" "distinct (map snd L)" "\<forall>h\<in>snd ` set L. m_transactionMap bc h = None" "\<forall>tx\<in>fst ` set L. spends_once bc tx"
    "map (object_hash (ce_crypto E)) (map fst L) = map snd L" "drop i hashes = map snd L"
    "cached bc q"
  shows "\<exists>new q'. entries' = entries @ new \<and> rebuild_transactions (ce_crypto E) hashes b (Suc i) new q = Some q'
    \<and> cached bc' q' \<and> ChainTables.more q' = ChainTables.more q"
  using assms
proof (induction L arbitrary: i entries sz fee bc q)
  case (Cons p L)
  obtain tx h where p: "p = (tx, h)" by (cases p)
  from Cons.prems(1)[unfolded p] show ?case
  proof (cases rule: push_loop_Cons)
    case (go m mem ti' te r bc2)
    have ti': "ti' = \<lparr>ti_block = b, ti_transaction = word_of_nat (Suc i)\<rparr>" using go(6) by (simp add: add.commute)
    have pre: "spends_once bc tx" "m_transactionMap bc h = None" using Cons.prems(4,5) p by auto
    note k = push_checked[OF go(2,3) pre Cons.prems(2) go(5)]
    have h: "h \<notin> snd ` set L" "distinct (map snd L)" using Cons.prems(3) p by auto
    have rest: "\<forall>h\<in>snd ` set L. m_transactionMap bc2 h = None" "\<forall>tx\<in>fst ` set L. spends_once bc2 tx"
      using Cons.prems(4,5) h(1) unfolding k(3,4) by auto
    have hash: "i < length hashes" "hashes ! i = h" "object_hash (ce_crypto E) tx = h" "drop (Suc i) hashes = map snd L"
      using Cons.prems(6,7) p by (metis drop_eq_Nil list.distinct(1) list.simps(9) not_le, metis list.simps(9) nth_via_drop snd_conv, simp,
        metis drop_Suc list.sel(3) list.simps(9) tl_drop)
    obtain q1 where q1: "rebuild_transaction (ce_crypto E) ti' tx h q = Some q1" "cached bc2 q1" "ChainTables.more q1 = ChainTables.more q"
      using rebuild_pushed[OF go(2)[unfolded eqTrueI[OF k(1)]], of q] k(5) Cons.prems(8) p by auto
    obtain new q' where IH: "entries' = (entries @ [te]) @ new" "rebuild_transactions (ce_crypto E) hashes b (Suc (Suc i)) new q1 = Some q'"
      "cached bc' q'" "ChainTables.more q' = ChainTables.more q1"
      using Cons.IH[OF go(1)[unfolded ti'] k(2) h(2) rest _ hash(4) q1(2)] Cons.prems(6) by auto
    then show ?thesis using q1 hash go(4) by (intro exI[of _ "te # new"] exI[of _ q']) (simp add: ti')
  qed simp
qed simp

lemma cached_same: "same_tables t' t \<Longrightarrow> cached t q \<Longrightarrow> cached t' q"
  by (simp add: cached_def same_tables_def)

lemma gti_add_based: "tx_inputs (blk_baseTransaction b) = [BaseInput n] \<Longrightarrow> \<exists>r g. gti_add b i = Some (r, g)"
  by (auto simp: gti_add_def coinbase_height_def Let_def)

lemma rebuild_accepted:
  assumes p: "pushBlock_txs E b txs bvc bc = Some (True, bvc', bc')" and f: "block_fits E b txs bc" and tok: "tables_ok bc"
    and h: "map (object_hash (ce_crypto E)) txs = blk_transactionHashes b"
    and c: "cached bc q" "m_blockIndex q = m_blockIndex bc"
  shows "\<exists>entry q'. m_blocks bc' = m_blocks bc @ [entry] \<and> rebuild_block (ce_crypto E) (word_of_nat (length (m_blocks bc))) None entry q = Some q'
    \<and> cached bc' q' \<and> m_blockIndex q' = m_blockIndex bc' \<and> m_blocks q' = m_blocks q"
  using p
proof (cases rule: pushBlock_txs_cases)
  case (pushed d z te bc1 r oka entries sz fee bc2)
  let ?C = "ce_crypto E" and ?b = "blk_baseTransaction b" and ?n = "getCurrentBlockchainHeight bc"
  from pushed(5) obtain block bc3 bc4 where k: "pushBlock_entry E block bc2 = Some bc3" "detectors_pushed (ce_currency E) bc3 = Some bc4"
    "bc' = update_next_cumulative_size_limit (ce_currency E) bc4" "be_transactions block = entries" "be_bl block = b" and ok: "oka" by auto
  note st = pushed_state[OF k(1-3)] and sr = same_rest_fields[OF pushed_rest[OF pushed(3,4)]]
  have base: "tx_inputs ?b = [BaseInput ?n]" using prevalidate_inputs[OF check_new_block_ok(11)[OF pushed(1)]] .
  obtain rg g where g: "gti_add b (m_generatedTransactionsIndex q) = Some (rg, g)" using gti_add_based[OF base] by blast
  define q0 where "q0 = q\<lparr>m_blockIndex := snd (bi_push (m_blockIndex q) (block_hash (cn_fast_hash ?C) b)),
    bc_timestampIndex := snd (tbi_add (blk_timestamp b) (block_hash (cn_fast_hash ?C) b) (bc_timestampIndex q)), m_generatedTransactionsIndex := g\<rparr>"
  have c0: "cached bc q0" using c(1) by (simp add: cached_def q0_def)
  have fit: "m_transactionMap bc (miner_hash E b) = None" "distinct (blk_transactionHashes b)" "miner_hash E b \<notin> set (blk_transactionHashes b)"
    "\<forall>h\<in>set (blk_transactionHashes b). m_transactionMap bc h = None" "\<forall>tx\<in>set txs. spends_once bc tx" "length txs + 1 < 2 ^ 16"
    using f by (auto simp: block_fits_def)
  have s: "spends_once bc ?b" "\<forall>k\<in>set (images (tx_inputs ?b)). spentKeyImages bc k = None"
    "\<forall>p\<in>set (msig_pairs (tx_inputs ?b)). unat (snd p) < length (vec (m_multisignatureOutputs bc) (fst p)) \<and> \<not> used_at (m_multisignatureOutputs bc) p"
    by (simp_all add: spends_once_def base)
  have r: "r" using pushTransaction_ok(1)[OF pushed(3) fit(1)] by (simp add: base)
  note one = push_one[OF pushed(3) s(2,3,1) fit(1) tok]
  have r1: "same_rest bc bc1" by (rule same_rest_more) (simp add: pushTransaction_more[OF pushed(3)])
  then have so: "spends_once bc1 = spends_once bc" using domain_same[of bc1 bc] same_rest_fields[OF r1] by (simp add: fun_eq_iff spends_once_def)
  obtain q1 where q1: "rebuild_transaction ?C \<lparr>ti_block = ?n, ti_transaction = 0\<rparr> ?b (miner_hash E b) q0 = Some q1" "cached bc1 q1"
    "ChainTables.more q1 = ChainTables.more q0"
    using rebuild_pushed[OF pushed(3)[unfolded eqTrueI[OF r]], of q0] c0 by (auto simp: base)
  have len: "length txs = length (blk_transactionHashes b)" using h by (metis length_map)
  let ?L = "zip txs (blk_transactionHashes b)"
  have L: "map fst ?L = txs" "map snd ?L = blk_transactionHashes b" "fst ` set ?L = set txs" "snd ` set ?L = set (blk_transactionHashes b)"
    using len by (simp_all flip: set_map)
  have te: "te_tx te = ?b" using pushTransaction_tx[OF pushed(3)] by simp
  have fr: "\<forall>h\<in>snd ` set ?L. m_transactionMap bc1 h = None" "\<forall>tx\<in>fst ` set ?L. spends_once bc1 tx"
    using fit L unfolding one(2) so by auto
  have pl: "push_loop E z \<lparr>ti_block = ?n, ti_transaction = word_of_nat 0\<rparr> ?L [te]
      (word_of_nat (snd (getObjectBinarySize write_Transaction ?b))) 0 bc1 = Some (True, entries, sz, fee, bc2)" using pushed(4) ok by simp
  have ls: "distinct (map snd ?L)" "map (object_hash ?C) (map fst ?L) = map snd ?L" "drop 0 (blk_transactionHashes b) = map snd ?L"
    using fit(2) h unfolding L by simp_all
  obtain new q' where q': "entries = [te] @ new" "rebuild_transactions ?C (blk_transactionHashes b) ?n (Suc 0) new q1 = Some q'"
    "cached bc2 q'" "ChainTables.more q' = ChainTables.more q1"
    using rebuild_push_loop[OF pl one(1) ls(1) fr ls(2,3) q1(2)] by blast
  have "length entries = Suc (length txs)"
    using arg_cong[OF conjunct1[OF push_loop_rest(3)[OF pushed(4) ok]], of length] len by simp
  then have "rebuild_block ?C (word_of_nat (length (m_blocks bc))) None block q = Some q'"
    using q1(1) q'(1,2) g fit(6) len te by (simp add: rebuild_block_def k(4,5) q0_def getCurrentBlockchainHeight_def)
  moreover have "m_blockIndex q' = m_blockIndex bc'" "m_blocks q' = m_blocks q"
    using more_fields[of q' q0] q'(4) q1(3) c(2) st(3) sr by (simp_all add: q0_def k(5))
  ultimately show ?thesis using st(1,2) q'(3) cached_same sr by auto
qed auto

section \<open>The whole chain\<close>

lemma rebuild_loop_snoc:
  assumes "blocks \<noteq> [] \<longrightarrow> blk_previousBlockHash (be_bl e) = block_hash (cn_fast_hash C) (be_bl (last blocks))"
  shows "rebuild_loop C b (blocks @ [e]) bc = do { bc \<leftarrow> rebuild_loop C b blocks bc; rebuild_block C (b + word_of_nat (length blocks)) None e bc }"
  using assms
proof (induction blocks arbitrary: b bc)
  case (Cons x xs)
  have "rebuild_block C b (case xs @ [e] of [] \<Rightarrow> None | n # _ \<Rightarrow> Some n) x bc = rebuild_block C b (case xs of [] \<Rightarrow> None | n # _ \<Rightarrow> Some n) x bc"
    using Cons.prems by (cases xs) (simp_all add: rebuild_block_def)
  then show ?case using Cons.IH[of "b + 1"] Cons.prems
    by (cases "rebuild_block C b (case xs of [] \<Rightarrow> None | n # _ \<Rightarrow> Some n) x bc") (auto simp: add.assoc split: if_splits)
next
  case Nil
  then show ?case by (cases "rebuild_block C b None e bc") simp_all
qed

text \<open>The transactions of every block are those its header lists.\<close>

definition listed :: "Crypto \<Rightarrow> BlockEntry list \<Rightarrow> bool" where
  "listed C bs \<longleftrightarrow> (\<forall>e\<in>set bs. map (object_hash C \<circ> te_tx) (tl (be_transactions e)) = blk_transactionHashes (be_bl e))"

lemma built_rebuild:
  assumes "built C hist bc" "m_blockIndex q = []" "m_outputs q = Map.empty" "m_multisignatureOutputs q = Map.empty" "m_transactionMap q = Map.empty"
    "spentKeyImages q = Map.empty" "listed C (m_blocks bc)"
  shows "\<exists>q'. rebuild_loop C 0 (m_blocks bc) q = Some q' \<and> cached bc q' \<and> m_blockIndex q' = m_blockIndex bc \<and> m_blocks q' = m_blocks q"
  using assms
proof (induction rule: built.induct)
  case (built_empty bc)
  then show ?case by (simp add: starts_empty_def cached_def)
next
  case (built_push hist bc E b txs bvc bvc' bc1 bc')
  have ok: "chain_ok (ce_H E) bc" using built_ok[OF built_push(1)] built_push(2) by simp
  obtain entry bc2 r where a: "m_blocks bc1 = m_blocks bc @ [entry]" "be_bl entry = b"
    "map te_tx (be_transactions entry) = blk_baseTransaction b # txs"
    "blk_previousBlockHash b = (if m_blocks bc = [] then NULL_HASH else block_hash (ce_H E) (be_bl (last (m_blocks bc))))"
    by (rule accepted_facts[OF ok built_push(3-5)])
  have bs: "m_blocks bc' = m_blocks bc @ [entry]" using built_push(6) a(1) by (simp add: same_chain_def)
  have li: "listed C (m_blocks bc)" using built_push.prems(6) by (simp add: listed_def bs)
  obtain q1 where q1: "rebuild_loop C 0 (m_blocks bc) q = Some q1" "cached bc q1" "m_blockIndex q1 = m_blockIndex bc" "m_blocks q1 = m_blocks q"
    using built_push.IH[OF built_push.prems(1-5) li] by blast
  have "map te_tx (tl (be_transactions entry)) = txs" using a(3) by (metis list.sel(3) map_tl)
  then have h: "map (object_hash C) txs = blk_transactionHashes b" using built_push.prems(6) a(2) by (auto simp: listed_def bs)
  have "tables_ok bc" using ok by (simp add: chain_ok_def)
  from rebuild_accepted[OF built_push(3,4) this _ q1(2,3)] h built_push(2) a(1)
  obtain q' where q': "rebuild_block C (word_of_nat (length (m_blocks bc))) None entry q1 = Some q'" "cached bc1 q'" "m_blockIndex q' = m_blockIndex bc1"
    "m_blocks q' = m_blocks q1" by auto
  have "rebuild_loop C 0 (m_blocks bc') q = Some q'" unfolding bs
    by (subst rebuild_loop_snoc) (use a(2,4) built_push(2) q1(1) q'(1) in auto)
  then show ?case using q' q1(4) built_push(6) cached_same by (auto simp: same_chain_def)
qed

section \<open>Property\<close>

text \<open>
  C5: on a reachable chain whose blocks hold the transactions that their headers list, rebuilding the cache
  ends without a failing assertion and finds, from the blocks alone, the block index, the tables of outputs
  and of multisignature outputs, the places of the transactions and the set of spent key images that pushing
  and removing blocks has left there.
\<close>

theorem rebuild_cache_agrees:
  assumes "chain_reachable C bc" "listed C (m_blocks bc)"
  shows "\<exists>bc'. rebuildCache C bc = Some bc' \<and> m_blocks bc' = m_blocks bc \<and> m_blockIndex bc' = m_blockIndex bc
    \<and> m_outputs bc' = m_outputs bc \<and> m_multisignatureOutputs bc' = m_multisignatureOutputs bc
    \<and> m_transactionMap bc' = m_transactionMap bc \<and> dom (spentKeyImages bc') = dom (spentKeyImages bc)"
proof -
  obtain hist where h: "built C hist bc" using reachable_built[OF assms(1)] by blast
  let ?q = "clear_cache bc"
  have q: "m_blockIndex ?q = []" "m_outputs ?q = Map.empty" "m_multisignatureOutputs ?q = Map.empty" "m_transactionMap ?q = Map.empty"
    "spentKeyImages ?q = Map.empty" "m_blocks ?q = m_blocks bc"
    by (simp_all add: clear_cache_def)
  from built_rebuild[OF h q(1-5) assms(2)] obtain q' where "rebuild_loop C 0 (m_blocks bc) ?q = Some q'" "cached bc q'"
    "m_blockIndex q' = m_blockIndex bc" "m_blocks q' = m_blocks ?q" by blast
  moreover from this have "rebuildCache C bc = Some q'" unfolding rebuildCache_def Let_def q(6) by (cases "m_blocks bc") simp_all
  ultimately show ?thesis using q(6) by (auto simp: cached_def)
qed

theorem rebuild_cache_agrees_witness:
  "\<exists>bc'. rebuildCache chain_crypto sample_chain = Some bc' \<and> m_blocks bc' \<noteq> []
    \<and> m_outputs bc' = m_outputs sample_chain \<and> m_transactionMap bc' = m_transactionMap sample_chain"
proof -
  obtain bvc' where p: "pushBlock_txs (sample_env True) block0 [] bvc0 empty_chain = Some (True, bvc', sample_chain)" using push0 by blast
  have ok: "chain_ok (ce_H (sample_env True)) empty_chain" by (rule starts_empty_ok[OF empty_chain_ok(1)])
  have n: "length (m_blocks empty_chain) + 1 < 2 ^ 32" by (simp add: empty_chain_def)
  obtain entry where e: "m_blocks sample_chain = m_blocks empty_chain @ [entry]" "be_bl entry = block0" "map te_tx (be_transactions entry) = blk_baseTransaction block0 # []"
    by (rule accepted_facts[OF ok p sample_fits n])
  obtain te where te: "be_transactions entry = [te]" using e(3) by (auto simp: map_eq_Cons_conv)
  have "listed chain_crypto (m_blocks sample_chain)" using e te by (simp add: listed_def empty_chain_def block0_def)
  then show ?thesis using rebuild_cache_agrees[OF sample_chain_reachable(1)] sample_chain_reachable(2) by auto
qed

end
