(* ===== verification/ChainQueries.thy ===== *)
theory ChainQueries
  imports Blockchain
begin

text \<open>
  The queries on the chain of \<open>src/src/DynexCNCore/Blockchain.cpp\<close> that the core, the protocol and the
  wallets use. As in \<open>Blockchain\<close>, the outer \<open>None\<close> stands for an exception, a failing assertion, an
  access outside a container or a loop that does not end.
\<close>

section \<open>Transactions\<close>

fun getBlockchainTransactions :: "Hash list \<Rightarrow> Transaction list \<Rightarrow> Hash list \<Rightarrow> 'a Blockchain_scheme \<Rightarrow> (Transaction list \<times> Hash list) option" where
  "getBlockchainTransactions [] txs missed_txs bc = Some (txs, missed_txs)"
| "getBlockchainTransactions (tx_id # txs_ids) txs missed_txs bc =
    (case m_transactionMap bc tx_id of
       None \<Rightarrow> getBlockchainTransactions txs_ids txs (missed_txs @ [tx_id]) bc
     | Some ti \<Rightarrow> do {
         te \<leftarrow> transactionByIndex ti bc;
         getBlockchainTransactions txs_ids (txs @ [te_tx te]) missed_txs bc })"

definition bc_getTransactions :: "Hash list \<Rightarrow> Transaction list \<Rightarrow> Hash list \<Rightarrow> bool \<Rightarrow> 'a Blockchain_scheme \<Rightarrow> (Transaction list \<times> Hash list) option" where
  "bc_getTransactions txs_ids txs missed_txs checkTxPool bc =
    (if checkTxPool then do {
       (txs, poolTxIds) \<leftarrow> getBlockchainTransactions txs_ids txs missed_txs bc;
       Some (pool_getTransactions poolTxIds (m_tx_pool bc) txs []) }
     else getBlockchainTransactions txs_ids txs missed_txs bc)"

definition getTotalTransactions :: "'a Blockchain_scheme \<Rightarrow> nat" where
  "getTotalTransactions bc = card (dom (m_transactionMap bc))"

text \<open>The inner \<open>None\<close> is the result false.\<close>

definition getTransactionOutputGlobalIndexes :: "Hash \<Rightarrow> 'a Blockchain_scheme \<Rightarrow> u32 list option option" where
  "getTransactionOutputGlobalIndexes tx_id bc =
    (case m_transactionMap bc tx_id of
       None \<Rightarrow> Some None
     | Some ti \<Rightarrow> do {
         te \<leftarrow> transactionByIndex ti bc;
         Some (if te_global_output_indexes te = [] then None else Some (te_global_output_indexes te)) })"

definition getBlockContainingTransaction :: "Hash \<Rightarrow> 'a Blockchain_scheme \<Rightarrow> (Hash \<times> u32) option option" where
  "getBlockContainingTransaction txId bc =
    (case m_transactionMap bc txId of
       None \<Rightarrow> Some None
     | Some ti \<Rightarrow> do {
         e \<leftarrow> nth_block (unat (ti_block ti)) bc;
         blockId \<leftarrow> getBlockIdByHeight (be_height e) bc;
         Some (Some (blockId, be_height e)) })"

section \<open>Outputs\<close>

definition get_out_by_msig_gindex :: "u64 \<Rightarrow> u64 \<Rightarrow> 'a Blockchain_scheme \<Rightarrow> TransactionOutputTarget option option" where
  "get_out_by_msig_gindex amount gindex bc =
    (case m_multisignatureOutputs bc amount of
       None \<Rightarrow> Some None
     | Some us \<Rightarrow>
         if length us \<le> unat gindex then Some None
         else do {
           let u = us ! unat gindex;
           te \<leftarrow> transactionByIndex (mu_transactionIndex u) bc;
           if \<not> unat (mu_outputIndex u) < length (tx_outputs (te_tx te)) then None
           else case out_target (tx_outputs (te_tx te) ! unat (mu_outputIndex u)) of
             KeyOutput key \<Rightarrow> Some None
           | MultisignatureOutput keys n \<Rightarrow> Some (Some (MultisignatureOutput keys n)) })"

definition getMultisigOutputReference :: "(byte list \<Rightarrow> Hash) \<Rightarrow> u64 \<Rightarrow> u32 \<Rightarrow> 'a Blockchain_scheme \<Rightarrow> (Hash \<times> u16) option option" where
  "getMultisigOutputReference H amount outputIndex bc =
    (case m_multisignatureOutputs bc amount of
       None \<Rightarrow> Some None
     | Some us \<Rightarrow>
         if length us \<le> unat outputIndex then Some None
         else do {
           let u = us ! unat outputIndex;
           te \<leftarrow> transactionByIndex (mu_transactionIndex u) bc;
           Some (Some (snd (getObjectHash H write_Transaction (te_tx te)), mu_outputIndex u)) })"

text \<open>The loop runs down from the newest output to the first that is old enough.\<close>

fun allowed_loop :: "'c Currency_scheme \<Rightarrow> (TransactionIndex \<times> u16) list \<Rightarrow> 'a Blockchain_scheme \<Rightarrow> nat \<Rightarrow> nat" where
  "allowed_loop cur amount_outs bc 0 = 0"
| "allowed_loop cur amount_outs bc (Suc i) =
    (if ucast (ti_block (fst (amount_outs ! i))) + m_minedMoneyUnlockWindow cur \<le> ucast (getCurrentBlockchainHeight bc) then i + 1
     else allowed_loop cur amount_outs bc i)"

definition find_end_of_allowed_index :: "'c Currency_scheme \<Rightarrow> (TransactionIndex \<times> u16) list \<Rightarrow> 'a Blockchain_scheme \<Rightarrow> nat" where
  "find_end_of_allowed_index cur amount_outs bc =
    (if amount_outs = [] then 0 else allowed_loop cur amount_outs bc (length amount_outs))"

record out_entry =
  global_amount_index :: u32
  out_key :: PublicKey

definition add_out_to_get_random_outs :: "'c Currency_scheme \<Rightarrow> (TransactionIndex \<times> u16) list \<Rightarrow> nat \<Rightarrow> out_entry list \<Rightarrow> 'a Blockchain_scheme
    \<Rightarrow> (bool \<times> out_entry list) option" where
  "add_out_to_get_random_outs cur amount_outs i outs bc =
    (if \<not> i < length amount_outs then None
     else do {
       te \<leftarrow> transactionByIndex (fst (amount_outs ! i)) bc;
       let n = unat (snd (amount_outs ! i));
       if \<not> n < length (tx_outputs (te_tx te)) then Some (False, outs)
       else case out_target (tx_outputs (te_tx te) ! n) of
         MultisignatureOutput keys k \<Rightarrow> Some (False, outs)
       | KeyOutput key \<Rightarrow> do {
           unlocked \<leftarrow> is_tx_spendtime_unlocked cur (tx_unlockTime (te_tx te)) bc;
           Some (if \<not> unlocked then (False, outs) else (True, outs @ [\<lparr>global_amount_index = word_of_nat i, out_key = key\<rparr>])) } })"

text \<open>
  The choice of outputs to mix with. The indices that the random numbers give are the list \<open>draws\<close>; an index
  that was drawn before is skipped, and \<open>None\<close> is the result when the list is too short.
\<close>

fun random_loop :: "'c Currency_scheme \<Rightarrow> (TransactionIndex \<times> u16) list \<Rightarrow> nat \<Rightarrow> nat list \<Rightarrow> nat set \<Rightarrow> nat \<Rightarrow> nat \<Rightarrow> out_entry list
    \<Rightarrow> 'a Blockchain_scheme \<Rightarrow> out_entry list option" where
  "random_loop cur amount_outs limit draws used missing try_count outs bc =
    (if missing = 0 \<or> \<not> try_count < limit then Some outs
     else case draws of
       [] \<Rightarrow> None
     | i # draws' \<Rightarrow>
         if i \<in> used then random_loop cur amount_outs limit draws' used missing try_count outs bc
         else (case add_out_to_get_random_outs cur amount_outs i outs bc of
             None \<Rightarrow> None
           | Some (added, outs') \<Rightarrow>
               random_loop cur amount_outs limit draws' (insert i used) (if added then missing - 1 else missing) (try_count + 1) outs' bc))"

declare random_loop.simps [simp del]

fun all_outs_loop :: "'c Currency_scheme \<Rightarrow> (TransactionIndex \<times> u16) list \<Rightarrow> nat list \<Rightarrow> out_entry list \<Rightarrow> 'a Blockchain_scheme \<Rightarrow> out_entry list option" where
  "all_outs_loop cur amount_outs [] outs bc = Some outs"
| "all_outs_loop cur amount_outs (i # is) outs bc = do {
     (_, outs) \<leftarrow> add_out_to_get_random_outs cur amount_outs i outs bc;
     all_outs_loop cur amount_outs is outs bc }"

text \<open>The outputs for one amount.\<close>

definition random_outs_for_amount :: "'c Currency_scheme \<Rightarrow> u64 \<Rightarrow> u64 \<Rightarrow> nat list \<Rightarrow> 'a Blockchain_scheme \<Rightarrow> out_entry list option" where
  "random_outs_for_amount cur amount outs_count draws bc =
    (case m_outputs bc amount of
       None \<Rightarrow> Some []
     | Some amount_outs \<Rightarrow>
         let limit = find_end_of_allowed_index cur amount_outs bc in
         if length amount_outs > unat outs_count then random_loop cur amount_outs limit draws {} (unat outs_count) 0 [] bc
         else all_outs_loop cur amount_outs [0..<limit] [] bc)"

fun getRandomOutsByAmount :: "'c Currency_scheme \<Rightarrow> u64 \<Rightarrow> (u64 \<times> nat list) list \<Rightarrow> 'a Blockchain_scheme \<Rightarrow> (u64 \<times> out_entry list) list option" where
  "getRandomOutsByAmount cur outs_count [] bc = Some []"
| "getRandomOutsByAmount cur outs_count ((amount, draws) # amounts) bc = do {
     outs \<leftarrow> random_outs_for_amount cur amount outs_count draws bc;
     rest \<leftarrow> getRandomOutsByAmount cur outs_count amounts bc;
     Some ((amount, outs) # rest) }"

section \<open>Blocks\<close>

text \<open>The blocks from an offset on; the bound is a sum of 32-bit numbers.\<close>

definition getBlocks :: "u32 \<Rightarrow> u32 \<Rightarrow> 'a Blockchain_scheme \<Rightarrow> Block list option" where
  "getBlocks start_offset n bc =
    (if unat start_offset \<ge> length (m_blocks bc) then None
     else Some (map (\<lambda>i. be_bl (m_blocks bc ! i)) [unat start_offset..<min (unat (start_offset + n)) (length (m_blocks bc))]))"

fun blocks_txs_loop :: "nat list \<Rightarrow> Block list \<Rightarrow> Transaction list \<Rightarrow> 'a Blockchain_scheme \<Rightarrow> (bool \<times> Block list \<times> Transaction list) option" where
  "blocks_txs_loop [] blocks txs bc = Some (True, blocks, txs)"
| "blocks_txs_loop (i # is) blocks txs bc = do {
     let b = be_bl (m_blocks bc ! i);
     (txs, missed_ids) \<leftarrow> bc_getTransactions (blk_transactionHashes b) txs [] False bc;
     if missed_ids \<noteq> [] then Some (False, blocks @ [b], txs)
     else blocks_txs_loop is (blocks @ [b]) txs bc }"

definition getBlocks_txs :: "u32 \<Rightarrow> u32 \<Rightarrow> 'a Blockchain_scheme \<Rightarrow> (bool \<times> Block list \<times> Transaction list) option" where
  "getBlocks_txs start_offset n bc =
    (if unat start_offset \<ge> length (m_blocks bc) then Some (False, [], [])
     else blocks_txs_loop [unat start_offset..<min (unat (start_offset + n)) (length (m_blocks bc))] [] [] bc)"

text \<open>The template for a container of ids.\<close>

fun getBlocks_ids :: "Hash list \<Rightarrow> Block list \<Rightarrow> Hash list \<Rightarrow> 'a Blockchain_scheme \<Rightarrow> bool \<times> Block list \<times> Hash list" where
  "getBlocks_ids [] blocks missed_bs bc = (True, blocks, missed_bs)"
| "getBlocks_ids (bl_id # block_ids) blocks missed_bs bc =
    (case getBlockHeight (m_blockIndex bc) bl_id of
       None \<Rightarrow> getBlocks_ids block_ids blocks (missed_bs @ [bl_id]) bc
     | Some height \<Rightarrow>
         if \<not> unat height < length (m_blocks bc) then (False, blocks, missed_bs)
         else getBlocks_ids block_ids (blocks @ [be_bl (m_blocks bc ! unat height)]) missed_bs bc)"

definition getAlternativeBlocksCount :: "'a Blockchain_scheme \<Rightarrow> u32" where
  "getAlternativeBlocksCount bc = word_of_nat (card (dom (m_alternative_chains bc)))"

text \<open>A value of a block on the main chain or on an alternative one.\<close>

definition block_value :: "(BlockEntry \<Rightarrow> 'v) \<Rightarrow> Hash \<Rightarrow> 'a Blockchain_scheme \<Rightarrow> 'v option option" where
  "block_value value h bc =
    (case getBlockHeight (m_blockIndex bc) h of
       Some height \<Rightarrow> do { e \<leftarrow> nth_block (unat height) bc; Some (Some (value e)) }
     | None \<Rightarrow> Some (map_option value (m_alternative_chains bc h)))"

definition getAlreadyGeneratedCoins :: "Hash \<Rightarrow> 'a Blockchain_scheme \<Rightarrow> u64 option option" where
  "getAlreadyGeneratedCoins h bc = block_value be_already_generated_coins h bc"

definition getBlockSize :: "Hash \<Rightarrow> 'a Blockchain_scheme \<Rightarrow> u64 option option" where
  "getBlockSize h bc = block_value be_block_cumulative_size h bc"

text \<open>For the last block the number of transactions becomes the boolean result and the argument keeps its value \<open>old\<close>.\<close>

definition getGeneratedTransactionsNumber :: "u32 \<Rightarrow> u64 \<Rightarrow> 'a Blockchain_scheme \<Rightarrow> (bool \<times> u64) option" where
  "getGeneratedTransactionsNumber height old bc =
    (if height + 1 = word_of_nat (length (m_blocks bc)) then Some (getTotalTransactions bc \<noteq> 0, old)
     else map_option (\<lambda>r. case r of None \<Rightarrow> (False, old) | Some n \<Rightarrow> (True, n)) (gti_find height (m_generatedTransactionsIndex bc)))"

definition getOrphanBlockIdsByHeight :: "u32 \<Rightarrow> Hash list \<Rightarrow> 'a Blockchain_scheme \<Rightarrow> (bool \<times> Hash list) option" where
  "getOrphanBlockIdsByHeight height blockHashes bc = obi_find height blockHashes (m_orphanBlocksIndex bc)"

definition getBlockIdsByTimestamp :: "u64 \<Rightarrow> u64 \<Rightarrow> u32 \<Rightarrow> Hash list \<Rightarrow> 'a Blockchain_scheme \<Rightarrow> (bool \<times> Hash list \<times> u32 option) option" where
  "getBlockIdsByTimestamp timestampBegin timestampEnd blocksNumberLimit hashes bc =
    tbi_find timestampBegin timestampEnd blocksNumberLimit hashes (bc_timestampIndex bc)"

definition getTransactionIdsByPaymentId :: "Hash \<Rightarrow> 'a Blockchain_scheme \<Rightarrow> Hash list option" where
  "getTransactionIdsByPaymentId paymentId bc = pii_find paymentId (bc_paymentIdIndex bc)"

definition getTransactionIdsByAddress :: "string \<Rightarrow> 'a Blockchain_scheme \<Rightarrow> Hash list option" where
  "getTransactionIdsByAddress address bc = ai_find address (bc_addressindex bc)"

definition bc_getBlockIds :: "u32 \<Rightarrow> u32 \<Rightarrow> 'a Blockchain_scheme \<Rightarrow> Hash list" where
  "bc_getBlockIds startHeight maxCount bc = getBlockIds (m_blockIndex bc) startHeight maxCount"

definition isBlockInMainChain :: "Hash \<Rightarrow> 'a Blockchain_scheme \<Rightarrow> bool" where
  "isBlockInMainChain blockId bc = hasBlock (m_blockIndex bc) blockId"

definition isInCheckpointZone :: "u32 \<Rightarrow> 'a Blockchain_scheme \<Rightarrow> bool" where
  "isInCheckpointZone height bc = is_in_checkpoint_zone (m_checkpoints bc) height"

text \<open>\<open>std::lower_bound\<close>: the search by halves, for the first entry that is not \<open>below\<close>.\<close>

function block_lower_bound :: "(nat \<Rightarrow> bool) \<Rightarrow> nat \<Rightarrow> nat \<Rightarrow> nat" where
  "block_lower_bound below first len =
    (if len = 0 then first
     else if below (first + len div 2) then block_lower_bound below (first + len div 2 + 1) (len - len div 2 - 1)
     else block_lower_bound below first (len div 2))"
  by pat_completeness auto
termination by (relation "measure (\<lambda>(_, _, len). len)") auto

declare block_lower_bound.simps [simp del]

definition getLowerBound :: "'c Currency_scheme \<Rightarrow> u64 \<Rightarrow> u32 \<Rightarrow> 'a Blockchain_scheme \<Rightarrow> u32 option option" where
  "getLowerBound cur timestamp startOffset bc =
    (let n = length (m_blocks bc) in
     if \<not> unat startOffset < n then None
     else let bound = block_lower_bound (\<lambda>i. blk_timestamp (be_bl (m_blocks bc ! i)) < timestamp - m_blockFutureTimeLimit cur)
                        (unat startOffset) (n - unat startOffset)
       in Some (if bound = n then None else Some (word_of_nat bound)))"

fun checkpoints_loop :: "u32 list \<Rightarrow> u32 \<Rightarrow> 'a Blockchain_scheme \<Rightarrow> (bool \<times> u32) option" where
  "checkpoints_loop [] lastValid bc = Some (True, lastValid)"
| "checkpoints_loop (checkpointHeight # heights) lastValid bc =
    (if length (m_blocks bc) \<le> unat checkpointHeight then Some (True, lastValid)
     else do {
       h \<leftarrow> getBlockIdByHeight checkpointHeight bc;
       if fst (check_block (m_checkpoints bc) checkpointHeight h) then checkpoints_loop heights checkpointHeight bc
       else Some (False, lastValid) })"

definition checkCheckpoints :: "u32 \<Rightarrow> 'a Blockchain_scheme \<Rightarrow> (bool \<times> u32) option" where
  "checkCheckpoints lastValid bc = checkpoints_loop (getCheckpointHeights (m_checkpoints bc)) lastValid bc"

definition checkUpgradeHeight :: "'c Currency_scheme \<Rightarrow> UpgradeDetector \<Rightarrow> 'a Blockchain_scheme \<Rightarrow> bool" where
  "checkUpgradeHeight cur d bc =
    (let upgrade = ud_upgradeHeight cur d in
     if upgrade \<noteq> UNDEF_HEIGHT \<and> unat (upgrade + 1) < length (m_blocks bc)
       \<and> blk_majorVersion (be_bl (m_blocks bc ! unat (upgrade + 1))) \<noteq> ud_targetVersion d then False
     else True)"

text \<open>
  The minimal fee for a height; \<open>fee_rule\<close> is \<open>Currency::getMinimalFee\<close>, which computes with floating-point
  numbers. After the height was limited to the chain it is raised to 3.
\<close>

definition bc_getMinimalFee :: "(u64 \<Rightarrow> u64 \<Rightarrow> u64 \<Rightarrow> u64 \<Rightarrow> u32 \<Rightarrow> u64) \<Rightarrow> 'c Currency_scheme \<Rightarrow> u32 \<Rightarrow> 'a Blockchain_scheme \<Rightarrow> u64 option" where
  "bc_getMinimalFee fee_rule cur height bc =
    (let n = length (m_blocks bc) in
     if height = 0 \<or> n \<le> 1 then Some 0
     else do {
       let height = (if height > word_of_nat n - 1 then word_of_nat n - 1 else height);
       let height = (if height < 3 then 3 else height);
       let window = min height (min (word_of_nat n) (ucast (m_expectedNumberOfBlocksPerDay cur)));
       let window = (if window = 0 then 1 else window);
       let offset = height - window;
       let offset = (if offset = 0 then 1 else offset);
       avgDifficultyCurrent \<leftarrow> getAvgDifficultyForHeight height (window * 7 * 4) bc;
       top \<leftarrow> nth_block (unat height) bc;
       low \<leftarrow> nth_block (unat offset) bc;
       Some (fee_rule avgDifficultyCurrent ((be_already_generated_coins top - be_already_generated_coins low) div ucast window)
         (be_cumulative_difficulty top div ucast height) (be_already_generated_coins top div ucast height) height) })"

section \<open>Synchronisation\<close>

definition bc_findBlockchainSupplement :: "Hash list \<Rightarrow> 'a Blockchain_scheme \<Rightarrow> u32 option" where
  "bc_findBlockchainSupplement qblock_ids bc =
    (if qblock_ids = [] then None
     else do {
       genesis \<leftarrow> getBlockId (m_blockIndex bc) 0;
       if last qblock_ids \<noteq> genesis then None
       else Some (case findSupplement (m_blockIndex bc) qblock_ids of None \<Rightarrow> 0 | Some blockIndex \<Rightarrow> blockIndex) })"

text \<open>The ids, the number of blocks of the chain and the first index.\<close>

definition findBlockchainSupplement_ids :: "Hash list \<Rightarrow> nat \<Rightarrow> 'a Blockchain_scheme \<Rightarrow> (Hash list \<times> u32 \<times> u32) option" where
  "findBlockchainSupplement_ids remoteBlockIds maxCount bc = do {
     startBlockIndex \<leftarrow> bc_findBlockchainSupplement remoteBlockIds bc;
     Some (getBlockIds (m_blockIndex bc) startBlockIndex (word_of_nat maxCount), getCurrentBlockchainHeight bc, startBlockIndex) }"

text \<open>
  The blocks from one on an alternative chain down to the main chain, each with its hash, and the hash of
  the first ancestor that is not on an alternative chain. \<open>None\<close> if the walk does not end.
\<close>

partial_function (option) alternative_walk :: "(Hash \<rightharpoonup> BlockEntry) \<Rightarrow> Hash \<Rightarrow> ((Hash \<times> BlockEntry) list \<times> Hash) option" where
  "alternative_walk alts h =
    (case alts h of
       None \<Rightarrow> Some ([], h)
     | Some e \<Rightarrow> do {
         (es, ancestor) \<leftarrow> alternative_walk alts (blk_previousBlockHash (be_bl e));
         Some ((h, e) # es, ancestor) })"

text \<open>Every power of two, counted from the start.\<close>

function doubling :: "'v list \<Rightarrow> nat \<Rightarrow> 'v list" where
  "doubling xs i = (if 1 \<le> i \<and> i \<le> length xs then xs ! (i - 1) # doubling xs (i * 2) else [])"
  by pat_completeness auto
termination by (relation "measure (\<lambda>(xs, i). length xs + 1 - i)") auto

declare doubling.simps [simp del]

definition doBuildSparseChain :: "Hash \<Rightarrow> 'a Blockchain_scheme \<Rightarrow> Hash list option" where
  "doBuildSparseChain startBlockId bc =
    (if bi_size (m_blockIndex bc) = 0 then None
     else if hasBlock (m_blockIndex bc) startBlockId then buildSparseChain (m_blockIndex bc) startBlockId
     else if m_alternative_chains bc startBlockId = None then None
     else do {
       (alternativeChain, blockchainAncestor) \<leftarrow> alternative_walk (m_alternative_chains bc) startBlockId;
       if \<not> hasBlock (m_blockIndex bc) blockchainAncestor then None
       else do {
         sparseMainChain \<leftarrow> buildSparseChain (m_blockIndex bc) blockchainAncestor;
         Some (doubling (map fst alternativeChain) 1 @ sparseMainChain) } })"

definition bc_buildSparseChain :: "'a Blockchain_scheme \<Rightarrow> Hash list option" where
  "bc_buildSparseChain bc =
    (if bi_size (m_blockIndex bc) = 0 then None else do { t \<leftarrow> bi_getTailId (m_blockIndex bc); doBuildSparseChain t bc })"

definition bc_buildSparseChain_from :: "Hash \<Rightarrow> 'a Blockchain_scheme \<Rightarrow> Hash list option" where
  "bc_buildSparseChain_from startBlockId bc = (if \<not> haveBlock startBlockId bc then None else doBuildSparseChain startBlockId bc)"

end
