(* ===== verification/CoreTransactions.thy ===== *)
theory CoreTransactions
  imports ChainQueries BlockchainTyping
begin

text \<open>
  How the core (\<open>src/src/DynexCNCore/Core.cpp\<close>) treats an incoming transaction: the checks of its fee, its
  inputs and its outputs, and its way into the memory pool. The core holds the chain, which holds the pool,
  and its own copy of the checkpoints. As before \<open>None\<close> is a failing assertion, an exception or an access
  outside a container.
\<close>

section \<open>State\<close>

record core =
  m_blockchain :: Blockchain
  core_checkpoints :: Checkpoints

text \<open>Beside the environment of the chain: the rule for the minimal fee and the key pairs that the random generator gives.\<close>

record CoreEnv =
  cx_chain :: ChainEnv
  cx_fee_rule :: "u64 \<Rightarrow> u64 \<Rightarrow> u64 \<Rightarrow> u64 \<Rightarrow> u32 \<Rightarrow> u64"
  cx_generateKeyPair :: "nat \<Rightarrow> KeyPair"

abbreviation cx_currency :: "CoreEnv \<Rightarrow> Currency" where
  "cx_currency X \<equiv> ce_currency (cx_chain X)"

definition set_checkpoints :: "Checkpoints \<Rightarrow> core \<Rightarrow> core" where
  "set_checkpoints chk_pts c = c\<lparr>m_blockchain := (m_blockchain c)\<lparr>m_checkpoints := chk_pts\<rparr>, core_checkpoints := chk_pts\<rparr>"

definition getCurrentBlockMajorVersion :: "'c Currency_scheme \<Rightarrow> 'a Blockchain_scheme \<Rightarrow> u8 option" where
  "getCurrentBlockMajorVersion cur bc =
    (if \<not> getCurrentBlockchainHeight bc > 0 then None else Some (getBlockMajorVersionForHeight cur (getCurrentBlockchainHeight bc) bc))"

definition core_getBlockMajorVersionForHeight :: "'c Currency_scheme \<Rightarrow> u32 \<Rightarrow> 'a Blockchain_scheme \<Rightarrow> u8 option" where
  "core_getBlockMajorVersionForHeight cur height bc =
    (if \<not> getCurrentBlockchainHeight bc > 0 then None else Some (getBlockMajorVersionForHeight cur height bc))"

section \<open>Checks\<close>

fun mixin_loop :: "'c Currency_scheme \<Rightarrow> 'a Blockchain_scheme \<Rightarrow> nat \<Rightarrow> nat \<Rightarrow> TransactionInput list \<Rightarrow> bool option" where
  "mixin_loop cur bc signatures inputIndex [] = Some True"
| "mixin_loop cur bc signatures inputIndex (txin # ins) =
    (if \<not> inputIndex < signatures then None
     else case txin of
       KeyInput amount outputIndexes keyImage \<Rightarrow>
         (let txMixin = word_of_nat (length outputIndexes) in
          if txMixin > MAX_TX_MIXIN_SIZE then Some False
          else do {
            version \<leftarrow> getCurrentBlockMajorVersion cur bc;
            if version \<ge> BLOCK_MAJOR_VERSION_4 \<and> txMixin < m_minMixin cur \<and> txMixin \<noteq> 1 then Some False
            else mixin_loop cur bc signatures (inputIndex + 1) ins })
     | _ \<Rightarrow> mixin_loop cur bc signatures inputIndex ins)"

definition check_tx_mixin :: "'c Currency_scheme \<Rightarrow> 'a Blockchain_scheme \<Rightarrow> Transaction \<Rightarrow> bool option" where
  "check_tx_mixin cur bc tx = mixin_loop cur bc (length (tx_signatures tx)) 0 (tx_inputs tx)"

text \<open>The size that the caller passes is replaced by the size of the transaction.\<close>

definition check_tx_fee :: "CoreEnv \<Rightarrow> core \<Rightarrow> Transaction \<Rightarrow> tx_verification_context \<Rightarrow> u32 \<Rightarrow> (bool \<times> tx_verification_context) option" where
  "check_tx_fee X c tx tvc height =
    (let inputs_amount = get_inputs_money_amount tx; outputs_amount = get_outs_money_amount tx; cur = cx_currency X; bc = m_blockchain c in
     if outputs_amount > inputs_amount then Some (False, tvc\<lparr>m_verification_failed := True\<rparr>)
     else do {
       let (_, h, blobSize) = getObjectHash_size (ce_H (cx_chain X)) write_Transaction tx;
       let fee = inputs_amount - outputs_amount;
       isFusion \<leftarrow> (if fee = 0 then isFusionTransaction_sized cur tx blobSize height else Some False);
       if \<not> isFusion \<and> \<not> is_in_checkpoint_zone (core_checkpoints c) (getCurrentBlockchainHeight bc) then do {
         version \<leftarrow> core_getBlockMajorVersionForHeight cur height bc;
         enough \<leftarrow> (if version < BLOCK_MAJOR_VERSION_4 then Some (\<not> fee < m_minimumFee cur)
           else do {
             min \<leftarrow> bc_getMinimalFee (cx_fee_rule X) cur height bc;
             Some (\<not> fee < min - min * 20 div 100) });
         Some (if \<not> enough then (False, tvc\<lparr>m_verification_failed := True, m_tx_fee_too_small := True\<rparr>) else (True, tvc)) }
       else Some (True, tvc) })"

definition check_tx_unmixable :: "Transaction \<Rightarrow> u32 \<Rightarrow> bool" where
  "check_tx_unmixable tx height =
    list_all (\<lambda>out. \<not> (\<not> is_valid_decomposed_amount (out_amount out) \<and> height \<ge> UPGRADE_HEIGHT_V4)) (tx_outputs tx)"

fun keyimages_diff_loop :: "(KeyImage \<Rightarrow> KeyImage \<Rightarrow> KeyImage) \<Rightarrow> KeyImage set \<Rightarrow> TransactionInput list \<Rightarrow> bool" where
  "keyimages_diff_loop scalarmultKey ki [] = True"
| "keyimages_diff_loop scalarmultKey ki (input # ins) =
    (case input of
       KeyInput amount outputIndexes keyImage \<Rightarrow>
         if keyImage \<in> ki then False
         else if outputIndexes = [] then False
         else if \<not> scalarmultKey keyImage KEY_L = KEY_I then False
         else if 0 \<in> set (tl outputIndexes) then False
         else keyimages_diff_loop scalarmultKey (insert keyImage ki) ins
     | _ \<Rightarrow> keyimages_diff_loop scalarmultKey ki ins)"

definition check_tx_inputs_keyimages_diff :: "(KeyImage \<Rightarrow> KeyImage \<Rightarrow> KeyImage) \<Rightarrow> Transaction \<Rightarrow> bool" where
  "check_tx_inputs_keyimages_diff scalarmultKey tx = keyimages_diff_loop scalarmultKey {} (tx_inputs tx)"

definition check_tx_semantic :: "ChainEnv \<Rightarrow> Transaction \<Rightarrow> bool" where
  "check_tx_semantic E tx =
    (if tx_inputs tx = [] then False
     else if length (tx_inputs tx) \<noteq> length (tx_signatures tx) then False
     else if \<not> list_all2 (\<lambda>i sig. case i of KeyInput a outputIndexes k \<Rightarrow> length outputIndexes = length sig | _ \<Rightarrow> True) (tx_inputs tx) (tx_signatures tx)
     then False
     else if \<not> check_inputs_types_supported tx then False
     else if check_outs_valid (check_key (ce_crypto E)) tx \<noteq> None then False
     else if \<not> check_money_overflow tx then False
     else if get_inputs_money_amount tx < get_outs_money_amount tx then False
     else if \<not> check_tx_inputs_keyimages_diff (ce_scalarmultKey E) tx then False
     else if \<not> checkMultisignatureInputsDiff tx then False
     else True)"

text \<open>The greatest number of outputs that an input refers to.\<close>

definition getMixin :: "Transaction \<Rightarrow> u64" where
  "getMixin tx = fold (\<lambda>txin mixin. case txin of
      KeyInput a outputIndexes k \<Rightarrow> if word_of_nat (length outputIndexes) > mixin then word_of_nat (length outputIndexes) else mixin
    | _ \<Rightarrow> mixin) (tx_inputs tx) 0"

section \<open>Into the pool\<close>

definition add_new_tx :: "CoreEnv \<Rightarrow> Transaction \<Rightarrow> Hash \<Rightarrow> u64 \<Rightarrow> tx_verification_context \<Rightarrow> bool \<Rightarrow> core
    \<Rightarrow> (bool \<times> tx_verification_context \<times> core) option" where
  "add_new_tx X tx tx_hash blobSize tvc keeped_by_block c =
    (let bc = m_blockchain c; E = cx_chain X in
     if haveTransaction tx_hash bc then Some (True, tvc, c)
     else if have_tx tx_hash (m_tx_pool bc) then Some (True, tvc, c)
     else do {
       (ok, tvc, p) \<leftarrow> add_tx (ce_crypto E) (ce_currency E) (validator_of E bc) (getCurrentBlockchainHeight bc) (ce_time E)
         tx tx_hash blobSize tvc keeped_by_block (m_tx_pool bc);
       Some (ok, tvc, c\<lparr>m_blockchain := bc\<lparr>m_tx_pool := p\<rparr>\<rparr>) })"

text \<open>The checks that are left out below the last checkpoint; the last of them remembers its result in the chain.\<close>

definition check_outside_checkpoints :: "CoreEnv \<Rightarrow> Transaction \<Rightarrow> u64 \<Rightarrow> tx_verification_context \<Rightarrow> u32 \<Rightarrow> core
    \<Rightarrow> (bool \<times> tx_verification_context \<times> core) option" where
  "check_outside_checkpoints X tx blobSize tvc height c = do {
     let bc = m_blockchain c;
     let cur = cx_currency X;
     too_big \<leftarrow> (if blobSize > m_maxTransactionSizeLimit cur
       then map_option (\<lambda>version. version \<ge> BLOCK_MAJOR_VERSION_4) (getCurrentBlockMajorVersion cur bc) else Some False);
     if too_big then Some (False, tvc\<lparr>m_verification_failed := True\<rparr>, c)
     else do {
       (ok, tvc) \<leftarrow> check_tx_fee X c tx tvc height;
       if \<not> ok then Some (False, tvc\<lparr>m_verification_failed := True\<rparr>, c)
       else do {
         ok \<leftarrow> check_tx_mixin cur bc tx;
         if \<not> ok then Some (False, tvc\<lparr>m_verification_failed := True\<rparr>, c)
         else if \<not> check_tx_unmixable tx height then Some (False, tvc\<lparr>m_verification_failed := True\<rparr>, c)
         else do {
           (ok, bc) \<leftarrow> check_non_privacy (cx_chain X) tx bc;
           Some (if \<not> ok then (False, tvc\<lparr>m_verification_failed := True\<rparr>, c\<lparr>m_blockchain := bc\<rparr>)
             else (True, tvc, c\<lparr>m_blockchain := bc\<rparr>)) } } } }"

definition handleIncomingTransaction :: "CoreEnv \<Rightarrow> Transaction \<Rightarrow> Hash \<Rightarrow> u64 \<Rightarrow> tx_verification_context \<Rightarrow> bool \<Rightarrow> u32 \<Rightarrow> core
    \<Rightarrow> (bool \<times> tx_verification_context \<times> core) option" where
  "handleIncomingTransaction X tx txHash blobSize tvc keptByBlock height c = do {
     (ok, tvc, c) \<leftarrow> (if \<not> isInCheckpointZone (getCurrentBlockchainHeight (m_blockchain c)) (m_blockchain c)
       then check_outside_checkpoints X tx blobSize tvc height c else Some (True, tvc, c));
     if \<not> ok then Some (False, tvc, c)
     else if \<not> check_tx_semantic (cx_chain X) tx then Some (False, tvc\<lparr>m_verification_failed := True\<rparr>, c)
     else add_new_tx X tx txHash blobSize tvc keptByBlock c }"

text \<open>A transaction as it comes from the network.\<close>

definition handle_incoming_tx :: "CoreEnv \<Rightarrow> byte list \<Rightarrow> bool \<Rightarrow> core \<Rightarrow> (bool \<times> tx_verification_context \<times> core) option" where
  "handle_incoming_tx X tx_blob keeped_by_block c = do {
     let tvc = \<lparr>m_should_be_relayed = False, m_verification_failed = False, m_verification_impossible = False,
       m_added_to_pool = False, m_tx_fee_too_small = False\<rparr>;
     let cur = cx_currency X;
     let bc = m_blockchain c;
     too_big \<leftarrow> (if word_of_nat (length tx_blob) > m_maxTransactionSizeLimit cur
       then map_option (\<lambda>version. version \<ge> BLOCK_MAJOR_VERSION_4) (getCurrentBlockMajorVersion cur bc) else Some False);
     if too_big then Some (False, tvc\<lparr>m_verification_failed := True\<rparr>, c)
     else case parseAndValidateTransactionFromBinaryArray (ce_H (cx_chain X)) tx_blob of
       None \<Rightarrow> Some (False, tvc\<lparr>m_verification_failed := True\<rparr>, c)
     | Some (tx, tx_hash, tx_prefix_hash) \<Rightarrow> do {
         found \<leftarrow> getBlockContainingTransaction tx_hash bc;
         let blockHeight = (case found of None \<Rightarrow> getCurrentBlockchainHeight bc | Some (blockId, h) \<Rightarrow> h);
         handleIncomingTransaction X tx tx_hash (word_of_nat (length tx_blob)) tvc keeped_by_block blockHeight c } }"

section \<open>What the checks establish\<close>

lemma keyimages_diff_distinct:
  "keyimages_diff_loop sm ki ins \<Longrightarrow> distinct (images ins) \<and> set (images ins) \<inter> ki = {}
    \<and> (\<forall>k\<in>set (images ins). sm k KEY_L = KEY_I)"
  by (induction ins arbitrary: ki rule: images.induct) (auto split: if_splits)

lemma msig_outs_pairs: "msig_outs ins = map (\<lambda>(a, j). (a, ucast j)) (msig_pairs ins)"
  by (induction ins rule: msig_pairs.induct) auto

lemma ucast_u32_inj: "(ucast (x :: u32) :: u64) = ucast y \<longleftrightarrow> x = y"
  by (simp add: word_unat_eq_iff unat_ucast_up)

lemma distinct_msig: "distinct (msig_outs ins) = distinct (msig_pairs ins)"
  unfolding msig_outs_pairs by (rule distinct_map[THEN trans]) (auto simp: inj_on_def ucast_u32_inj)

text \<open>A semantically correct transaction has distinct inputs, and its amounts do not overflow.\<close>

lemma check_tx_semantic_ok:
  assumes "check_tx_semantic E tx"
  shows "distinct_inputs (tx_inputs tx)" "length (tx_signatures tx) = length (tx_inputs tx)" "tx_inputs tx \<noteq> []"
    "check_money_overflow tx" "get_outs_money_amount tx \<le> get_inputs_money_amount tx" "check_outs_valid (check_key (ce_crypto E)) tx = None"
    "\<forall>k\<in>set (images (tx_inputs tx)). ce_scalarmultKey E k KEY_L = KEY_I"
proof -
  have "keyimages_diff_loop (ce_scalarmultKey E) {} (tx_inputs tx)" "checkMultisignatureInputsDiff tx"
    using assms by (simp_all add: check_tx_semantic_def check_tx_inputs_keyimages_diff_def split: if_splits)
  then show "distinct_inputs (tx_inputs tx)" "\<forall>k\<in>set (images (tx_inputs tx)). ce_scalarmultKey E k KEY_L = KEY_I"
    using keyimages_diff_distinct by (auto simp: distinct_inputs_def distinct_msig checkMultisignatureInputsDiff_iff)
qed (use assms in \<open>auto simp: check_tx_semantic_def split: if_splits\<close>)

text \<open>The checks outside the checkpoints change nothing but the memory of \<open>check_non_privacy\<close>.\<close>

lemma check_outside_state:
  assumes "check_outside_checkpoints X tx blobSize tvc height c = Some (ok, tvc', c')"
  shows "\<exists>mem. c' = c\<lparr>m_blockchain := (m_blockchain c)\<lparr>PrivacyMemBC := mem\<rparr>\<rparr>" "m_added_to_pool tvc' = m_added_to_pool tvc"
proof -
  have self: "\<exists>mem. c = c\<lparr>m_blockchain := (m_blockchain c)\<lparr>PrivacyMemBC := mem\<rparr>\<rparr>"
    by (rule exI[of _ "PrivacyMemBC (m_blockchain c)"]) simp
  have "c' = c \<or> (\<exists>r bc. check_non_privacy (cx_chain X) tx (m_blockchain c) = Some (r, bc) \<and> c' = c\<lparr>m_blockchain := bc\<rparr>)"
    using assms by (auto simp: check_outside_checkpoints_def Let_def bind_eq_Some_conv split: if_splits)
  then show "\<exists>mem. c' = c\<lparr>m_blockchain := (m_blockchain c)\<lparr>PrivacyMemBC := mem\<rparr>\<rparr>" using self check_non_privacy_memory by fastforce
  have "m_added_to_pool t = m_added_to_pool tvc" if "check_tx_fee X c tx tvc height = Some (r, t)" for r t
    using that by (auto simp: check_tx_fee_def Let_def bind_eq_Some_conv case_prod_beta split: if_splits)
  then show "m_added_to_pool tvc' = m_added_to_pool tvc"
    using assms by (auto simp: check_outside_checkpoints_def Let_def bind_eq_Some_conv split: if_splits)
qed

text \<open>The fee is enough, or the transaction is a fusion transaction.\<close>

definition pays_enough :: "CoreEnv \<Rightarrow> core \<Rightarrow> u32 \<Rightarrow> Transaction \<Rightarrow> u64 \<Rightarrow> bool" where
  "pays_enough X c height tx fee \<longleftrightarrow> fee = 0 \<and> isFusionTransaction (cx_currency X) tx height
    \<or> (if getBlockMajorVersionForHeight (cx_currency X) height (m_blockchain c) < BLOCK_MAJOR_VERSION_4 then m_minimumFee (cx_currency X) \<le> fee
       else \<exists>m. bc_getMinimalFee (cx_fee_rule X) (cx_currency X) height (m_blockchain c) = Some m \<and> m - m * 20 div 100 \<le> fee)"

lemma check_tx_fee_ok:
  assumes "check_tx_fee X c tx tvc height = Some (True, tvc')" "\<not> is_in_checkpoint_zone (core_checkpoints c) (getCurrentBlockchainHeight (m_blockchain c))"
  shows "pays_enough X c height tx (get_inputs_money_amount tx - get_outs_money_amount tx)"
  using assms
  by (auto simp: check_tx_fee_def Let_def bind_eq_Some_conv case_prod_beta pays_enough_def core_getBlockMajorVersionForHeight_def not_less
      isFusionTransaction_sized_def isFusionTransaction_def split: if_splits)

lemma check_outside_ok:
  assumes "check_outside_checkpoints X tx blobSize tvc height c = Some (True, tvc', c')"
    "\<not> is_in_checkpoint_zone (core_checkpoints c) (getCurrentBlockchainHeight (m_blockchain c))"
  shows "pays_enough X c height tx (get_inputs_money_amount tx - get_outs_money_amount tx)"
  using assms check_tx_fee_ok[of X c tx tvc height]
  by (auto simp: check_outside_checkpoints_def Let_def bind_eq_Some_conv split: if_splits)

lemma checked_signatures_fit: "check_inputs_loop E bc ph ins sigs m = Some (True, m') \<Longrightarrow> signatures_fit ins sigs"
proof (induction ins sigs arbitrary: m rule: signatures_fit.induct)
  case (3 i ins s sigs)
  then show ?case
    by (cases i) (auto simp: bind_eq_Some_conv validateInput_def split: if_splits)
qed simp_all

lemma input_ok_memory [simp]: "input_ok (bc\<lparr>PrivacyMemBC := mem\<rparr>) i = input_ok bc i"
  by (simp add: input_ok_def have_tx_keyimg_as_spent_def checkIfSpent_def check_tx_inputs_keyimages_domain_def getCurrentBlockchainHeight_def split: TransactionInput.split)

text \<open>What the pool takes on the word of the chain: existing, unspent outputs.\<close>

lemma validated_inputs:
  assumes "fst (checkTransactionInputs_max (validator_of E bc) tx BlockInfo_clear)" "chain_reachable C bc"
  shows "\<forall>i\<in>set (tx_inputs tx). input_ok bc i"
proof -
  obtain used where "checkTransactionInputs_used E bc tx BlockInfo_clear = Some (True, used)"
    using assms(1) by (auto simp: validator_of_def split: option.splits prod.splits)
  then obtain m where m: "checkTransactionInputs E bc tx True = Some (True, m)"
    by (auto simp: checkTransactionInputs_used_def bind_eq_Some_conv Let_def split: if_splits)
  obtain hist where h: "built C hist bc" using reachable_built[OF assms(2)] by blast
  have "length (m_blocks bc) < 2 ^ 32" using built_ok[OF h] by (simp add: chain_ok_def)
  from check_inputs_loop_total[OF built_typed[OF h] this checked_signatures_fit[OF m[unfolded checkTransactionInputs_def]],
      where E = E and ph = "snd (getObjectHash (ce_H E) write_TransactionPrefix tx)" and m = "Some 0"] m
  show ?thesis by (auto simp: checkTransactionInputs_def)
qed

lemma money_amounts:
  assumes "check_money_overflow tx"
  shows "unat (get_inputs_money_amount tx) = inputs_total tx" "unat (get_outs_money_amount tx) = outputs_total tx"
  using assms fold_sum_exact[of 0 input_amount "tx_inputs tx"] fold_sum_exact[of 0 out_amount "tx_outputs tx"]
  unfolding check_money_overflow_iff
  by (simp_all add: inputs_total_def outputs_total_def get_inputs_money_amount_def get_outs_money_amount_def)

lemma semantic_amounts:
  assumes "check_tx_semantic E tx"
  shows "outputs_total tx \<le> inputs_total tx" "inputs_total tx < 2 ^ 64"
    "get_inputs_money_amount tx - get_outs_money_amount tx = word_of_nat (inputs_total tx - outputs_total tx)"
proof -
  note m = check_tx_semantic_ok(4,5)[OF assms] and a = money_amounts[OF check_tx_semantic_ok(4)[OF assms]]
  show "outputs_total tx \<le> inputs_total tx" using m(2) a by (simp add: word_le_nat_alt)
  show "inputs_total tx < 2 ^ 64" using m(1) by (simp add: check_money_overflow_iff)
  have "unat (get_inputs_money_amount tx - get_outs_money_amount tx) = inputs_total tx - outputs_total tx"
    using m(2) a by (simp add: unat_sub)
  then show "get_inputs_money_amount tx - get_outs_money_amount tx = word_of_nat (inputs_total tx - outputs_total tx)"
    by (metis of_nat_unat ucast_id)
qed

text \<open>The last step: what enters the pool, and what does not.\<close>

lemma add_new_tx_cases:
  assumes "add_new_tx X tx h blobSize tvc kept c = Some (ok, tvc', c')" "\<not> m_added_to_pool tvc" "0 < blobSize" "distinct_inputs (tx_inputs tx)"
    "chain_reachable C (m_blockchain c)" "pool_reachable (ce_crypto (cx_chain X)) (cx_currency X) b (m_tx_pool (m_blockchain c))"
  shows "\<exists>p. c' = c\<lparr>m_blockchain := (m_blockchain c)\<lparr>m_tx_pool := p\<rparr>\<rparr> \<and> pool_reachable (ce_crypto (cx_chain X)) (cx_currency X) b p
    \<and> (if ok \<and> m_added_to_pool tvc' then \<not> haveTransaction h (m_blockchain c) \<and> \<not> have_tx h (m_tx_pool (m_blockchain c)) \<and> have_tx h p
        \<and> (kept \<or> \<not> pool_haveSpentInputs tx (m_tx_pool (m_blockchain c)) \<and> (\<forall>i\<in>set (tx_inputs tx). input_ok (m_blockchain c) i))
      else p = m_tx_pool (m_blockchain c))"
proof (cases "haveTransaction h (m_blockchain c) \<or> have_tx h (m_tx_pool (m_blockchain c))")
  case True
  then have "tvc' = tvc" "c' = c" using assms(1) by (auto simp: add_new_tx_def Let_def split: if_splits)
  then show ?thesis using assms(2,6) by (intro exI[of _ "m_tx_pool (m_blockchain c)"]) simp
next
  case False
  let ?E = "cx_chain X" and ?bc = "m_blockchain c"
  obtain p where p: "add_tx (ce_crypto ?E) (ce_currency ?E) (validator_of ?E ?bc) (getCurrentBlockchainHeight ?bc) (ce_time ?E) tx h blobSize tvc kept (m_tx_pool ?bc)
      = Some (ok, tvc', p)" "c' = c\<lparr>m_blockchain := ?bc\<lparr>m_tx_pool := p\<rparr>\<rparr>"
    using assms(1) False by (auto simp: add_new_tx_def Let_def bind_eq_Some_conv)
  have r: "pool_reachable (ce_crypto ?E) (ce_currency ?E) b p" by (rule reach_add[OF assms(6,4,3) p(1)])
  show ?thesis
  proof (cases "ok \<and> m_added_to_pool tvc'")
    case True
    obtain used ts ai where n: "fits (new_details (ce_time ?E) used tx h blobSize kept) (m_tx_pool ?bc)"
        "txs_insert (new_details (ce_time ?E) used tx h blobSize kept) (m_transactions (m_tx_pool ?bc)) = (True, ts)"
        "p = entered (new_details (ce_time ?E) used tx h blobSize kept) ts ai (m_tx_pool ?bc)"
        "kept \<or> fst (checkTransactionInputs_max (validator_of ?E ?bc) tx BlockInfo_clear)"
      using add_tx_cases[OF reachable_inv[OF assms(6)] assms(4,3) p(1)] True by blast
    have "have_tx h p" using set_txs_insert[OF n(2)] by (simp add: have_tx_def n(3) entered_def mark_spent_def)
    moreover have "kept \<or> \<not> pool_haveSpentInputs tx (m_tx_pool ?bc) \<and> (\<forall>i\<in>set (tx_inputs tx). input_ok ?bc i)"
      using n(1,4) validated_inputs[OF _ assms(5)] by (auto simp: fits_def)
    ultimately show ?thesis using p(2) r False True by auto
  next
    case f: False
    then have "p = m_tx_pool ?bc" using add_tx_cases[OF reachable_inv[OF assms(6)] assms(4,3) p(1)] by blast
    then show ?thesis using p(2) r f by (intro exI[of _ p]) (simp only: if_False)
  qed
qed

section \<open>Property\<close>

text \<open>
  C11: a transaction that comes in leaves the blocks alone, and the pool stays one that the calls of the node
  can produce. The transaction is in the pool afterwards only if it was known neither to the chain nor to the
  pool, its amounts do not overflow and do not create money, its inputs are distinct and, unless it came with
  a block, refer to existing outputs that neither the chain nor the pool has spent; and, outside the
  checkpoints, only if it pays the minimal fee or is a fusion transaction. Otherwise the pool is unchanged.
\<close>

theorem incoming_transaction_sound:
  assumes "handleIncomingTransaction X tx h blobSize tvc kept height c = Some (ok, tvc', c')" "\<not> m_added_to_pool tvc" "0 < blobSize"
    "chain_reachable (ce_crypto (cx_chain X)) (m_blockchain c)"
    "pool_reachable (ce_crypto (cx_chain X)) (cx_currency X) b (m_tx_pool (m_blockchain c))"
  shows "chain_reachable (ce_crypto (cx_chain X)) (m_blockchain c') \<and> m_blocks (m_blockchain c') = m_blocks (m_blockchain c)
    \<and> pool_reachable (ce_crypto (cx_chain X)) (cx_currency X) b (m_tx_pool (m_blockchain c'))
    \<and> (if ok \<and> m_added_to_pool tvc' then
        \<not> haveTransaction h (m_blockchain c) \<and> \<not> have_tx h (m_tx_pool (m_blockchain c)) \<and> have_tx h (m_tx_pool (m_blockchain c'))
        \<and> outputs_total tx \<le> inputs_total tx \<and> inputs_total tx < 2 ^ 64 \<and> distinct_inputs (tx_inputs tx)
        \<and> (kept \<or> \<not> pool_haveSpentInputs tx (m_tx_pool (m_blockchain c)) \<and> (\<forall>i\<in>set (tx_inputs tx). input_ok (m_blockchain c) i))
        \<and> (isInCheckpointZone (getCurrentBlockchainHeight (m_blockchain c)) (m_blockchain c)
          \<or> is_in_checkpoint_zone (core_checkpoints c) (getCurrentBlockchainHeight (m_blockchain c))
          \<or> pays_enough X c height tx (word_of_nat (inputs_total tx - outputs_total tx)))
      else m_tx_pool (m_blockchain c') = m_tx_pool (m_blockchain c))"
proof -
  let ?bc = "m_blockchain c" and ?C = "ce_crypto (cx_chain X)"
  obtain ok1 tvc1 c1 where h1: "(if \<not> isInCheckpointZone (getCurrentBlockchainHeight ?bc) ?bc then check_outside_checkpoints X tx blobSize tvc height c
      else Some (True, tvc, c)) = Some (ok1, tvc1, c1)"
    "(if \<not> ok1 then Some (False, tvc1, c1) else if \<not> check_tx_semantic (cx_chain X) tx then Some (False, tvc1\<lparr>m_verification_failed := True\<rparr>, c1)
      else add_new_tx X tx h blobSize tvc1 kept c1) = Some (ok, tvc', c')"
    using assms(1) unfolding handleIncomingTransaction_def by (auto simp: bind_eq_Some_conv)
  obtain mem where c1: "c1 = c\<lparr>m_blockchain := ?bc\<lparr>PrivacyMemBC := mem\<rparr>\<rparr>"
    using h1(1) check_outside_state(1)[of X tx blobSize tvc height c ok1 tvc1 c1]
    by (auto split: if_splits intro: that[of "PrivacyMemBC ?bc"])
  have a1: "\<not> m_added_to_pool tvc1" using h1(1) check_outside_state(2)[of X tx blobSize tvc height c ok1 tvc1 c1] assms(2) by (auto split: if_splits)
  have same: "same_chain (?bc\<lparr>PrivacyMemBC := mem, m_tx_pool := p\<rparr>) ?bc" for p by (simp add: same_chain_def same_tables_def)
  have reach: "chain_reachable ?C (?bc\<lparr>PrivacyMemBC := mem, m_tx_pool := p\<rparr>)" for p by (rule chain_aside[OF assms(4) same])
  have reach1: "chain_reachable ?C (m_blockchain c1)" using reach[of "m_tx_pool ?bc"] by (simp add: c1)
  show ?thesis
  proof (cases "ok1 \<and> check_tx_semantic (cx_chain X) tx")
    case True
    then have sem: "check_tx_semantic (cx_chain X) tx" and add: "add_new_tx X tx h blobSize tvc1 kept c1 = Some (ok, tvc', c')" using h1(2) by simp_all
    note d = check_tx_semantic_ok(1)[OF sem] and am = semantic_amounts[OF sem]
    have pool1: "pool_reachable ?C (cx_currency X) b (m_tx_pool (m_blockchain c1))" using assms(5) by (simp add: c1)
    obtain p where p: "c' = c1\<lparr>m_blockchain := (m_blockchain c1)\<lparr>m_tx_pool := p\<rparr>\<rparr>" "pool_reachable ?C (cx_currency X) b p"
      "if ok \<and> m_added_to_pool tvc' then \<not> haveTransaction h (m_blockchain c1) \<and> \<not> have_tx h (m_tx_pool (m_blockchain c1)) \<and> have_tx h p
        \<and> (kept \<or> \<not> pool_haveSpentInputs tx (m_tx_pool (m_blockchain c1)) \<and> (\<forall>i\<in>set (tx_inputs tx). input_ok (m_blockchain c1) i))
      else p = m_tx_pool (m_blockchain c1)"
      using add_new_tx_cases[OF add a1 assms(3) d reach1 pool1] by blast
    have fee: "isInCheckpointZone (getCurrentBlockchainHeight ?bc) ?bc \<or> is_in_checkpoint_zone (core_checkpoints c) (getCurrentBlockchainHeight ?bc)
          \<or> pays_enough X c height tx (word_of_nat (inputs_total tx - outputs_total tx))"
      using h1(1) check_outside_ok[of X tx blobSize tvc height c tvc1 c1] True am(3) by (auto split: if_splits)
    show ?thesis using p reach[of p] d am(1,2) fee by (cases ok; cases "m_added_to_pool tvc'") (simp_all add: c1 haveTransaction_def)
  next
    case False
    then have "c' = c1" "\<not> ok" using h1(2) by (auto split: if_splits)
    then show ?thesis using reach1 assms(5) by (simp add: c1)
  qed
qed

text \<open>A concrete core, below its only checkpoint, and a transaction that came with a block.\<close>

definition sample_core_env :: CoreEnv where
  "sample_core_env = \<lparr>cx_chain = sample_env True, cx_fee_rule = (\<lambda>_ _ _ _ _. 0),
    cx_generateKeyPair = (\<lambda>_. \<lparr>kp_publicKey = replicate 32 5, kp_secretKey = replicate 32 6\<rparr>)\<rparr>"

definition core0 :: core where
  "core0 = \<lparr>m_blockchain = empty_chain\<lparr>m_checkpoints := [(5, NULL_HASH)]\<rparr>, core_checkpoints = [(5, NULL_HASH)]\<rparr>"

definition incoming_tx :: Transaction where
  "incoming_tx = sample_coinbase\<lparr>tx_inputs := [KeyInput 9 [1] (replicate 32 4)], tx_outputs := [], tx_signatures := [[replicate 64 0]]\<rparr>"

lemma incoming0:
  "\<exists>tvc' c'. handleIncomingTransaction sample_core_env incoming_tx (replicate 32 7) 80 sample_tvc True 0 core0 = Some (True, tvc', c') \<and> m_added_to_pool tvc'"
proof -
  have z: "isInCheckpointZone (getCurrentBlockchainHeight (m_blockchain core0)) (m_blockchain core0)"
    by (simp add: isInCheckpointZone_def is_in_checkpoint_zone_def core0_def empty_chain_def getCurrentBlockchainHeight_def)
  have s: "check_tx_semantic (cx_chain sample_core_env) incoming_tx"
    by (simp add: check_tx_semantic_def incoming_tx_def sample_core_env_def sample_env_def check_inputs_types_supported_def check_outs_valid_def
      check_money_overflow_def check_inputs_overflow_def check_outs_overflow_def get_inputs_money_amount_def get_outs_money_amount_def
      check_tx_inputs_keyimages_diff_def checkMultisignatureInputsDiff_def)
  have "checkTransactionInputs_max (validator_of (cx_chain sample_core_env) (m_blockchain core0)) incoming_tx BlockInfo_clear = (False, BlockInfo_clear)"
    by (simp add: validator_of_def checkTransactionInputs_used_def checkTransactionInputs_def incoming_tx_def sample_core_env_def sample_env_def
      core0_def empty_chain_def have_tx_keyimg_as_spent_def checkIfSpent_def check_tx_input_def scanOutputKeysForIndexes_def BlockInfo_clear_def)
  then show ?thesis using z s
    by (simp add: handleIncomingTransaction_def add_new_tx_def haveTransaction_def have_tx_def core0_def empty_chain_def tx_memory_pool_init_def
      add_tx_def sample_tvc_def incoming_tx_def check_inputs_types_supported_def get_inputs_money_amount_def get_outs_money_amount_def
      txs_insert_def ai_add_def Let_def)
qed

theorem incoming_transaction_sound_witness:
  "\<exists>tvc' c'. handleIncomingTransaction sample_core_env incoming_tx (replicate 32 7) 80 sample_tvc True 0 core0 = Some (True, tvc', c')
    \<and> have_tx (replicate 32 7) (m_tx_pool (m_blockchain c')) \<and> inputs_total incoming_tx = 9 \<and> outputs_total incoming_tx \<le> 9"
proof -
  obtain tvc' c' where h: "handleIncomingTransaction sample_core_env incoming_tx (replicate 32 7) 80 sample_tvc True 0 core0 = Some (True, tvc', c')"
    "m_added_to_pool tvc'" using incoming0 by blast
  have "chain_reachable (ce_crypto (cx_chain sample_core_env)) (m_blockchain core0)"
    by (rule chain_start) (use empty_chain_ok(1) in \<open>simp add: starts_empty_def core0_def\<close>)
  moreover have "pool_reachable (ce_crypto (cx_chain sample_core_env)) (cx_currency sample_core_env) False (m_tx_pool (m_blockchain core0))"
    by (simp add: core0_def empty_chain_def reach_init)
  moreover have "inputs_total incoming_tx = 9" by (simp add: inputs_total_def incoming_tx_def)
  ultimately show ?thesis using incoming_transaction_sound[OF h(1)] h by (auto simp: sample_tvc_def)
qed

end
