(* ===== verification/CoreTemplate.thy ===== *)
theory CoreTemplate
  imports CoreTransactions
begin

text \<open>
  The block template that the core (\<open>get_block_template\<close> of \<open>src/src/DynexCNCore/Core.cpp\<close>) makes for
  miners: a header for the tail of the chain, transactions of the pool, and a miner transaction that pays
  exactly the reward for a block of its size. The template passes the checks of \<open>Blockchain.cpp\<close> on a new
  block, but for the proof of work.
\<close>

section \<open>The template\<close>

text \<open>The versions; the major version of the parent block is assigned twice.\<close>

definition template_versions :: "'c Currency_scheme \<Rightarrow> Block \<Rightarrow> Block option" where
  "template_versions cur b =
    (if blk_majorVersion b = BLOCK_MAJOR_VERSION_1
     then Some (b\<lparr>blk_minorVersion := (if upgradeHeight cur BLOCK_MAJOR_VERSION_2 = UNDEF_HEIGHT then BLOCK_MINOR_VERSION_1 else BLOCK_MINOR_VERSION_0)\<rparr>)
     else if blk_majorVersion b = BLOCK_MAJOR_VERSION_2 \<or> blk_majorVersion b = BLOCK_MAJOR_VERSION_3
     then do {
       let b = b\<lparr>blk_minorVersion := (if upgradeHeight cur BLOCK_MAJOR_VERSION_3 = UNDEF_HEIGHT
         then if blk_majorVersion b = BLOCK_MAJOR_VERSION_2 then BLOCK_MINOR_VERSION_1 else BLOCK_MINOR_VERSION_0 else BLOCK_MINOR_VERSION_0)\<rparr>;
       let parent = (blk_parentBlock b)\<lparr>pb_majorVersion := BLOCK_MAJOR_VERSION_1\<rparr>;
       let parent = parent\<lparr>pb_majorVersion := BLOCK_MINOR_VERSION_0, pb_transactionCount := 1\<rparr>;
       ex \<leftarrow> appendMergeMiningTagToExtra (tx_extra (pb_baseTransaction parent)) 0 NULL_HASH;
       Some (b\<lparr>blk_parentBlock := parent\<lparr>pb_baseTransaction := (pb_baseTransaction parent)\<lparr>tx_extra := ex\<rparr>\<rparr>\<rparr>) }
     else if blk_majorVersion b \<ge> BLOCK_MAJOR_VERSION_4
     then Some (b\<lparr>blk_minorVersion := (if upgradeHeight cur BLOCK_MAJOR_VERSION_4 = UNDEF_HEIGHT then BLOCK_MINOR_VERSION_1 else BLOCK_MINOR_VERSION_0)\<rparr>)
     else Some b)"

text \<open>The time of the clock, but not before the median of the last blocks.\<close>

definition template_timestamp :: "'c Currency_scheme \<Rightarrow> u64 \<Rightarrow> u32 \<Rightarrow> u8 \<Rightarrow> 'a Blockchain_scheme \<Rightarrow> u64 option" where
  "template_timestamp cur now height version bc =
    (if ucast height \<ge> timestampCheckWindow cur version
     then do {
       timestamps \<leftarrow> those (map (\<lambda>offset. getBlockTimestamp (word_of_nat offset) bc) [unat (height - ucast (timestampCheckWindow cur version))..<unat height]);
       Some (if now < medianValue timestamps then medianValue timestamps else now) }
     else Some now)"

abbreviation tx_size :: "Transaction \<Rightarrow> u64" where
  "tx_size tx \<equiv> word_of_nat (snd (getObjectBinarySize write_Transaction tx))"

text \<open>What the fee index of the pool asks of the core.\<close>

definition pool_core :: "CoreEnv \<Rightarrow> core \<Rightarrow> PoolCore" where
  "pool_core X c = \<lparr>get_current_blockchain_height = getCurrentBlockchainHeight (m_blockchain c),
    core_check_tx_fee = (\<lambda>tx blobSize height. case check_tx_fee X c tx unread_tvc height of None \<Rightarrow> False | Some (ok, _) \<Rightarrow> ok)\<rparr>"

text \<open>
  The second phase: the reward depends on the size of the block, and the size of the miner transaction on the
  reward, so up to ten times a miner transaction is made for the size so far and padded to fit it. The inner
  \<open>None\<close> is the result false.
\<close>

fun template_loop :: "CoreEnv \<Rightarrow> u32 \<Rightarrow> u64 \<Rightarrow> u64 \<Rightarrow> u64 \<Rightarrow> u64 \<Rightarrow> AccountPublicAddress \<Rightarrow> BinaryArray \<Rightarrow> nat \<Rightarrow> u64 \<Rightarrow> Block \<Rightarrow> Block option option" where
  "template_loop X height median_size generated txs_size fee adr ex_nonce 0 cumulative_size b = Some None"
| "template_loop X height median_size generated txs_size fee adr ex_nonce (Suc tries) cumulative_size b =
    (case constructMinerTx (ce_crypto (cx_chain X)) (cx_generateKeyPair X (Suc tries)) (cx_currency X) (blk_majorVersion b) height median_size
        generated cumulative_size fee adr (blk_baseTransaction b) ex_nonce 14 of
       Inl AssertionFailed \<Rightarrow> None
     | Inl Refused \<Rightarrow> Some None
     | Inr tx \<Rightarrow>
         let coinbase_blob_size = tx_size tx; b1 = b\<lparr>blk_baseTransaction := tx\<rparr> in
         if coinbase_blob_size > cumulative_size - txs_size
         then template_loop X height median_size generated txs_size fee adr ex_nonce tries (txs_size + coinbase_blob_size) b1
         else if coinbase_blob_size < cumulative_size - txs_size
         then let delta = cumulative_size - txs_size - coinbase_blob_size;
                  tx2 = tx\<lparr>tx_extra := tx_extra tx @ replicate (unat delta) 0\<rparr>
           in if cumulative_size \<noteq> txs_size + tx_size tx2
             then if cumulative_size + 1 \<noteq> txs_size + tx_size tx2 then Some None
               else let tx3 = tx2\<lparr>tx_extra := butlast (tx_extra tx2)\<rparr> in
                 if cumulative_size \<noteq> txs_size + tx_size tx3
                 then template_loop X height median_size generated txs_size fee adr ex_nonce tries (cumulative_size + (delta - 1)) (b\<lparr>blk_baseTransaction := tx3\<rparr>)
                 else Some (Some (b\<lparr>blk_baseTransaction := tx3\<rparr>))
             else Some (Some (b\<lparr>blk_baseTransaction := tx2\<rparr>))
         else if cumulative_size \<noteq> txs_size + tx_size tx then Some None
         else Some (Some b1))"

definition get_block_template :: "CoreEnv \<Rightarrow> AccountPublicAddress \<Rightarrow> BinaryArray \<Rightarrow> core \<Rightarrow> ((Block \<times> u64 \<times> u32) option \<times> core) option" where
  "get_block_template X adr ex_nonce c =
    (let bc = m_blockchain c; E = cx_chain X; cur = cx_currency X; height = getCurrentBlockchainHeight bc in
     case getDifficultyForNextBlock cur bc of
       Inl e \<Rightarrow> None
     | Inr diffic \<Rightarrow>
         if diffic = 0 then Some (None, c)
         else case template_versions cur (empty_block\<lparr>blk_majorVersion := getBlockMajorVersionForHeight cur height bc\<rparr>) of
           None \<Rightarrow> Some (None, c)
         | Some b \<Rightarrow> do {
             tail \<leftarrow> getTailId bc;
             timestamp \<leftarrow> template_timestamp cur (ce_time E) height (blk_majorVersion b) bc;
             let b = b\<lparr>blk_previousBlockHash := tail, blk_timestamp := timestamp\<rparr>;
             let median_size = getCurrentCumulativeBlocksizeLimit bc div 2;
             let generated = getCoinsInCirculation bc;
             maxSize \<leftarrow> maxBlockCumulativeSize cur (ucast height);
             (b, txs_size, fee, p) \<leftarrow> fill_block_template cur (validator_of E bc) (pool_core X c) b median_size maxSize (m_tx_pool bc);
             let c = c\<lparr>m_blockchain := bc\<lparr>m_tx_pool := p\<rparr>\<rparr>;
             case constructMinerTx (ce_crypto E) (cx_generateKeyPair X 11) cur (blk_majorVersion b) height median_size generated txs_size fee adr
                 (blk_baseTransaction b) ex_nonce 14 of
               Inl AssertionFailed \<Rightarrow> None
             | Inl Refused \<Rightarrow> Some (None, c)
             | Inr tx \<Rightarrow> do {
                 r \<leftarrow> template_loop X height median_size generated txs_size fee adr ex_nonce 10 (txs_size + tx_size tx) (b\<lparr>blk_baseTransaction := tx\<rparr>);
                 Some (map_option (\<lambda>b. (b, diffic, height)) r, c) } })"

section \<open>The miner transaction\<close>

lemma constructMinerTx_fields:
  assumes "constructMinerTx C txkey cur v h median gen s fee adr tx0 nonce maxOuts = Inr tx"
  obtains reward em where "getBlockReward cur h v median s gen fee = Inr (reward, em)" "tx_inputs tx = [BaseInput h]"
    "tx_signatures tx = tx_signatures tx0" "sum_list (map out_amount (tx_outputs tx)) = reward" "length (tx_outputs tx) \<le> 1"
    "tx_unlockTime tx = ucast h + (if h < UPGRADE_HEIGHT_V4_FIX_1 \<and> h > UPGRADE_HEIGHT_V4 then m_minedMoneyUnlockWindow_v1 cur else m_minedMoneyUnlockWindow cur)"
proof -
  obtain reward em where r: "getBlockReward cur h v median s gen fee = Inr (reward, em)" "tx_inputs tx = [BaseInput h]"
    "tx_signatures tx = tx_signatures tx0" "sum_list (map out_amount (tx_outputs tx)) = reward"
    by (rule constructMinerTx_shape[OF assms]) simp
  have len: "length outs = length as" if "miner_outs C adr (kp_secretKey txkey) no as = Some (outs, total')" for no as outs total'
    using that by (induction as arbitrary: no outs total') (auto simp: bind_eq_Some_conv)
  have "length (merge_outs maxOuts (decompose_amount_into_digits a 0)) \<le> 1" for a
    by (subst merge_outs.simps) (simp add: decompose_amount_into_digits_def)
  then have o: "length (tx_outputs tx) \<le> 1"
    "tx_unlockTime tx = ucast h + (if h < UPGRADE_HEIGHT_V4_FIX_1 \<and> h > UPGRADE_HEIGHT_V4 then m_minedMoneyUnlockWindow_v1 cur else m_minedMoneyUnlockWindow cur)"
    using assms by (auto simp: constructMinerTx_def Let_def split: option.splits sum.splits if_splits prod.splits dest: len)
  show ?thesis by (rule that[OF r o])
qed

lemma one_output: "length outs \<le> 1 \<Longrightarrow> overflow_loop (map out_amount outs) 0"
  by (cases outs) auto

lemma decide_cases:
  "(if a then w else if b then if c then if d then Some None else if e then w' else Some (Some x3) else Some (Some x2)
      else if f then Some None else Some (Some x1)) = Some (Some y)
    \<Longrightarrow> w = Some (Some y) \<or> w' = Some (Some y) \<or> \<not> e \<and> y = x3 \<or> \<not> c \<and> y = x2 \<or> \<not> f \<and> y = x1"
  by (auto split: if_splits)

lemma template_loop_ok:
  assumes "template_loop X height m g txs_size fee adr nonce tries cs b = Some (Some b')"
  shows "\<exists>k tx0 tx ex. constructMinerTx (ce_crypto (cx_chain X)) (cx_generateKeyPair X k) (cx_currency X) (blk_majorVersion b) height m g
      (txs_size + tx_size (blk_baseTransaction b')) fee adr tx0 nonce 14 = Inr tx
    \<and> b' = b\<lparr>blk_baseTransaction := tx\<lparr>tx_extra := ex\<rparr>\<rparr> \<and> tx_signatures tx0 = tx_signatures (blk_baseTransaction b)"
  using assms
proof (induction tries arbitrary: cs b)
  case (Suc tries)
  let ?c = "constructMinerTx (ce_crypto (cx_chain X)) (cx_generateKeyPair X (Suc tries)) (cx_currency X) (blk_majorVersion b) height m g cs fee adr
    (blk_baseTransaction b) nonce 14"
  show ?case
  proof (cases ?c)
    case (Inl e)
    then show ?thesis using Suc.prems by (cases e) auto
  next
    case (Inr tx)
    have sig: "tx_signatures tx = tx_signatures (blk_baseTransaction b)" by (rule constructMinerTx_fields[OF Inr])
    have again: ?thesis if "template_loop X height m g txs_size fee adr nonce tries cs2 (b\<lparr>blk_baseTransaction := t\<rparr>) = Some (Some b')"
      "tx_signatures t = tx_signatures tx" for cs2 t
      using Suc.IH[OF that(1)] that(2) sig by simp
    have fin: ?thesis if "cs = txs_size + tx_size (tx\<lparr>tx_extra := ex\<rparr>)" "b' = b\<lparr>blk_baseTransaction := tx\<lparr>tx_extra := ex\<rparr>\<rparr>" for ex
      using Inr that by (intro exI[of _ "Suc tries"] exI[of _ "blk_baseTransaction b"] exI[of _ tx] exI[of _ ex]) simp
    have same: "tx = tx\<lparr>tx_extra := tx_extra tx\<rparr>" by simp
    define delta where "delta = cs - txs_size - tx_size tx"
    define tx2 where "tx2 = tx\<lparr>tx_extra := tx_extra tx @ replicate (unat delta) 0\<rparr>"
    define tx3 where "tx3 = tx2\<lparr>tx_extra := butlast (tx_extra tx2)\<rparr>"
    have step: "(if tx_size tx > cs - txs_size
         then template_loop X height m g txs_size fee adr nonce tries (txs_size + tx_size tx) (b\<lparr>blk_baseTransaction := tx\<rparr>)
         else if tx_size tx < cs - txs_size
         then if cs \<noteq> txs_size + tx_size tx2
           then if cs + 1 \<noteq> txs_size + tx_size tx2 then Some None
             else if cs \<noteq> txs_size + tx_size tx3 then template_loop X height m g txs_size fee adr nonce tries (cs + (delta - 1)) (b\<lparr>blk_baseTransaction := tx3\<rparr>)
             else Some (Some (b\<lparr>blk_baseTransaction := tx3\<rparr>))
           else Some (Some (b\<lparr>blk_baseTransaction := tx2\<rparr>))
         else if cs \<noteq> txs_size + tx_size tx then Some None else Some (Some (b\<lparr>blk_baseTransaction := tx\<rparr>))) = Some (Some b')"
      using Suc.prems unfolding template_loop.simps Inr sum.case Let_def tx2_def tx3_def delta_def .
    consider cs2 t where "template_loop X height m g txs_size fee adr nonce tries cs2 (b\<lparr>blk_baseTransaction := t\<rparr>) = Some (Some b')" "t = tx \<or> t = tx3"
      | "cs = txs_size + tx_size tx3" "b' = b\<lparr>blk_baseTransaction := tx3\<rparr>" | "cs = txs_size + tx_size tx2" "b' = b\<lparr>blk_baseTransaction := tx2\<rparr>"
      | "cs = txs_size + tx_size tx" "b' = b\<lparr>blk_baseTransaction := tx\<rparr>"
      using decide_cases[OF step] by blast
    then show ?thesis
    proof cases
      case 1
      show ?thesis by (rule again[OF 1(1)]) (use 1(2) in \<open>auto simp: tx3_def tx2_def\<close>)
    next
      case 2
      show ?thesis by (rule fin[of "butlast (tx_extra tx2)"]) (use 2 in \<open>simp_all add: tx3_def tx2_def\<close>)
    next
      case 3
      show ?thesis by (rule fin[of "tx_extra tx2"]) (use 3 in \<open>simp_all add: tx2_def\<close>)
    next
      case 4
      show ?thesis by (rule fin[of "tx_extra tx"]) (use 4 same in simp_all)
    qed
  qed
qed simp

section \<open>The header\<close>

lemma template_versions_ok:
  assumes "template_versions cur b = Some b'"
  shows "blk_majorVersion b' = blk_majorVersion b" "blk_baseTransaction b' = blk_baseTransaction b"
    "blk_majorVersion b' = BLOCK_MAJOR_VERSION_2 \<Longrightarrow> pb_majorVersion (blk_parentBlock b') = 0"
  using assms by (auto simp: template_versions_def appendMergeMiningTagToExtra_def Let_def split: if_splits)

lemma those_nth: "those (map f xs) = Some ys \<Longrightarrow> length ys = length xs \<and> (\<forall>i<length xs. f (xs ! i) = Some (ys ! i))"
proof (induction xs arbitrary: ys)
  case (Cons x xs)
  then obtain y zs where "f x = Some y" "those (map f xs) = Some zs" "ys = y # zs" by (auto split: option.splits)
  with Cons.IH[OF this(2)] show ?case by (auto simp: nth_Cons split: nat.splits)
qed simp

lemma template_timestamps:
  assumes "length (m_blocks bc) < 2 ^ 32" "timestampCheckWindow cur v \<le> ucast (getCurrentBlockchainHeight bc)"
    "those (map (\<lambda>offset. getBlockTimestamp (word_of_nat offset) bc)
      [unat (getCurrentBlockchainHeight bc - ucast (timestampCheckWindow cur v))..<unat (getCurrentBlockchainHeight bc)]) = Some ts"
  shows "ts = last_timestamps cur v bc"
proof -
  let ?n = "length (m_blocks bc)" and ?w = "unat (timestampCheckWindow cur v)"
  have n: "unat (getCurrentBlockchainHeight bc) = ?n" using assms(1) by (simp add: getCurrentBlockchainHeight_def unat_of_nat)
  have w: "?w \<le> ?n" using assms(2) n by (simp add: word_le_nat_alt unat_ucast_up)
  have "unat (ucast (timestampCheckWindow cur v) :: u32) = ?w" using w assms(1) by (simp add: unat_ucast)
  then have d: "unat (getCurrentBlockchainHeight bc - ucast (timestampCheckWindow cur v)) = ?n - ?w"
    using w n by (simp add: unat_sub word_le_nat_alt)
  note t = those_nth[OF assms(3)[unfolded d n]]
  have lt: "last_timestamps cur v bc = map (blk_timestamp \<circ> be_bl) (drop (?n - ?w) (m_blocks bc))"
    by (simp add: last_timestamps_def Let_def)
  show ?thesis
  proof (rule nth_equalityI)
    show len: "length ts = length (last_timestamps cur v bc)" using t w by (simp add: lt)
    fix i assume "i < length ts"
    then have i: "i < ?w" using t w by simp
    then have at: "getBlockTimestamp (word_of_nat (?n - ?w + i)) bc = Some (ts ! i)" using t w by simp
    define k where "k = ?n - ?w + i"
    have k: "k < ?n" using i w by (simp add: k_def)
    then have "unat (word_of_nat k :: u32) = k" unfolding unat_of_nat using assms(1) by simp
    with at k have "ts ! i = blk_timestamp (be_bl (m_blocks bc ! k))"
      unfolding k_def[symmetric] by (auto simp: getBlockTimestamp_def nth_block_def split: if_splits)
    then show "ts ! i = last_timestamps cur v bc ! i" using i w by (simp add: lt k_def)
  qed
qed

lemma template_timestamp_ok:
  assumes "template_timestamp cur now (getCurrentBlockchainHeight bc) v bc = Some t" "length (m_blocks bc) < 2 ^ 32"
    "blk_majorVersion b = v" "blk_timestamp b = t" "now \<le> now + blockFutureTimeLimit cur v"
    "medianValue (last_timestamps cur v bc) \<le> now + blockFutureTimeLimit cur v"
  shows "check_block_timestamp_main cur now bc b"
proof (cases "timestampCheckWindow cur v \<le> ucast (getCurrentBlockchainHeight bc)")
  case True
  let ?m = "medianValue (last_timestamps cur v bc)"
  from assms(1) True template_timestamps[OF assms(2) True] have "t = (if now < ?m then ?m else now)"
    by (auto simp: template_timestamp_def bind_eq_Some_conv split: if_splits)
  then show ?thesis using assms(3-6) by (auto simp: check_block_timestamp_main_def check_block_timestamp_def not_less)
next
  case False
  then have "length (last_timestamps cur v bc) < unat (timestampCheckWindow cur v)"
    using assms(2) by (simp add: last_timestamps_def Let_def word_le_nat_alt unat_ucast_up getCurrentBlockchainHeight_def unat_of_nat)
  moreover have "t = now" using assms(1) False by (simp add: template_timestamp_def)
  ultimately show ?thesis using assms(3-5) by (simp add: check_block_timestamp_main_def check_block_timestamp_def not_less)
qed

section \<open>The reward\<close>

text \<open>The limit for the size of a block is twice this.\<close>

definition effective_median :: "'c Currency_scheme \<Rightarrow> 'a Blockchain_scheme \<Rightarrow> u64" where
  "effective_median cur bc = max (medianValue (get_last_n_blocks_sizes (unat (m_rewardBlocksWindow cur)) bc))
    (blockGrantedFullRewardZoneByBlockVersion cur (getBlockMajorVersionForHeight cur (getCurrentBlockchainHeight bc) bc))"

lemma limit_median: "m_current_block_cumul_sz_limit (update_next_cumulative_size_limit cur bc) = effective_median cur bc * 2"
  by (simp add: update_next_cumulative_size_limit_def effective_median_def Let_def getCurrentBlockchainHeight_def max_def)

lemma half_of_double: "unat (x :: u64) < 2 ^ 63 \<Longrightarrow> x * 2 div 2 = x"
  by (simp add: word_unat_eq_iff unat_div unat_word_ariths)

lemma getBlockReward_max: "getBlockReward cur h v (max m (blockGrantedFullRewardZoneByBlockVersion cur v)) s g fee = getBlockReward cur h v m s g fee"
  by (simp add: getBlockReward_def max.assoc)

lemma validate_template:
  assumes "getBlockReward cur (getCurrentBlockchainHeight bc) (getBlockMajorVersionForHeight cur (getCurrentBlockchainHeight bc) bc) (effective_median cur bc) sz g fee
      = Inr (reward, change)" "sum_list (map out_amount (tx_outputs (blk_baseTransaction b))) = reward"
  shows "validate_miner_transaction cur bc b (getCurrentBlockchainHeight bc) sz g fee = Inr (True, reward, change)"
proof -
  have "fold (\<lambda>out s. s + out_amount out) outs (a :: u64) = a + sum_list (map out_amount outs)" for outs :: "TransactionOutput list" and a
    by (induction outs arbitrary: a) (simp_all add: add.assoc)
  then show ?thesis using assms
    by (simp add: validate_miner_transaction_def Let_def effective_median_def getBlockReward_max)
qed

lemma miner_tx_case: "(case r of Inl AssertionFailed \<Rightarrow> None | Inl Refused \<Rightarrow> Some (None, c) | Inr tx \<Rightarrow> f tx) = Some (Some x, c')
    \<longleftrightarrow> (\<exists>tx. r = Inr tx \<and> f tx = Some (Some x, c'))"
  by (simp split: sum.split currency_error.split)

section \<open>Property\<close>

text \<open>
  C12: on a chain whose size limit is up to date and whose median time is not too far ahead, a block template
  refers to the tail of the chain and passes the checks of the version, the time and the miner transaction;
  its transactions are a part of the pool without conflicts, and its miner transaction pays exactly the
  reward for the size and the fees of the whole block, padding included, so that \<open>validate_miner_transaction\<close> accepts it.
\<close>

theorem block_template_valid:
  assumes t: "get_block_template X adr nonce c = Some (Some (b, diffic, height), c')"
    and n: "length (m_blocks (m_blockchain c)) < 2 ^ 32"
    and limit: "m_current_block_cumul_sz_limit (m_blockchain c) = m_current_block_cumul_sz_limit (update_next_cumulative_size_limit (cx_currency X) (m_blockchain c))"
      "unat (effective_median (cx_currency X) (m_blockchain c)) < 2 ^ 63"
    and now: "ce_time (cx_chain X) \<le> ce_time (cx_chain X) + blockFutureTimeLimit (cx_currency X) (blk_majorVersion b)"
      "medianValue (last_timestamps (cx_currency X) (blk_majorVersion b) (m_blockchain c)) \<le> ce_time (cx_chain X) + blockFutureTimeLimit (cx_currency X) (blk_majorVersion b)"
    and pool: "pool_reachable C (cx_currency X) i (m_tx_pool (m_blockchain c))" "total_size (m_transactions (m_tx_pool (m_blockchain c))) < 2 ^ 64"
  shows "height = getCurrentBlockchainHeight (m_blockchain c) \<and> getDifficultyForNextBlock (cx_currency X) (m_blockchain c) = Inr diffic
    \<and> getTailId (m_blockchain c) = Some (blk_previousBlockHash b) \<and> checkBlockVersion (cx_currency X) (m_blockchain c) b
    \<and> check_block_timestamp_main (cx_currency X) (ce_time (cx_chain X)) (m_blockchain c) b \<and> prevalidate_miner_transaction (cx_currency X) b height
    \<and> (\<exists>sel reward change. blk_transactionHashes b = map td_id sel \<and> subseq sel (m_transactions (m_tx_pool (m_blockchain c))) \<and> conflict_free sel
        \<and> validate_miner_transaction (cx_currency X) (m_blockchain c) b height (word_of_nat (total_size sel) + tx_size (blk_baseTransaction b))
            (getCoinsInCirculation (m_blockchain c)) (sum_list (map td_fee sel)) = Inr (True, reward, change))"
proof -
  define bc where "bc = m_blockchain c"
  define E where "E = cx_chain X"
  define cur where "cur = ce_currency E"
  let ?h = "getCurrentBlockchainHeight bc"
  let ?v = "getBlockMajorVersionForHeight cur ?h bc" and ?g = "getCoinsInCirculation bc" and ?m = "getCurrentCumulativeBlocksizeLimit bc div 2"
  note folds = bc_def[symmetric] E_def[symmetric] cur_def[symmetric]
  have m: "?m = effective_median cur bc" using limit half_of_double limit_median[of cur bc]
    by (simp add: getCurrentCumulativeBlocksizeLimit_def folds)
  obtain b0 tail ts maxSize b1 txs_size fee p tx0 where
    d: "getDifficultyForNextBlock cur bc = Inr diffic" "height = ?h" and
    b0: "template_versions cur (empty_block\<lparr>blk_majorVersion := ?v\<rparr>) = Some b0" and
    tail: "getTailId bc = Some tail" and ts: "template_timestamp cur (ce_time E) ?h (blk_majorVersion b0) bc = Some ts" and
    fill: "fill_block_template cur (validator_of E bc) (pool_core X c) (b0\<lparr>blk_previousBlockHash := tail, blk_timestamp := ts\<rparr>) ?m maxSize (m_tx_pool bc) = Some (b1, txs_size, fee, p)" and
    first: "constructMinerTx (ce_crypto E) (cx_generateKeyPair X 11) cur (blk_majorVersion b1) ?h ?m ?g txs_size fee adr (blk_baseTransaction b1) nonce 14 = Inr tx0" and
    lp: "template_loop X ?h ?m ?g txs_size fee adr nonce 10 (txs_size + tx_size tx0) (b1\<lparr>blk_baseTransaction := tx0\<rparr>) = Some (Some b)"
    using t unfolding get_block_template_def Let_def folds
    by (auto simp: bind_eq_Some_conv miner_tx_case split: sum.split_asm option.split_asm if_split_asm)
  obtain sz' fee' p' sel where sel: "b1 = b0\<lparr>blk_previousBlockHash := tail, blk_timestamp := ts, blk_transactionHashes := map td_id sel\<rparr>"
    "subseq sel (m_transactions (m_tx_pool bc))" "conflict_free sel" "unat txs_size = total_size sel" "fee = sum_list (map td_fee sel)"
    using fill_block_template_ok[OF reachable_inv[OF pool(1)] pool(2) refl, where v = "validator_of E bc" and core = "pool_core X c" and cur = cur
      and bl = "b0\<lparr>blk_previousBlockHash := tail, blk_timestamp := ts\<rparr>" and median_size = ?m and maxCumulativeSize = maxSize] fill
    by (auto simp: folds)
  note vs = template_versions_ok[OF b0]
  obtain k tx1 tx ex where mt: "constructMinerTx (ce_crypto E) (cx_generateKeyPair X k) cur (blk_majorVersion b1) ?h ?m ?g
      (txs_size + tx_size (blk_baseTransaction b)) fee adr tx1 nonce 14 = Inr tx"
    "b = b1\<lparr>blk_baseTransaction := tx\<lparr>tx_extra := ex\<rparr>\<rparr>" "tx_signatures tx1 = tx_signatures tx0"
    using template_loop_ok[OF lp] by (auto simp: folds)
  have sig0: "tx_signatures tx0 = []" by (rule constructMinerTx_fields[OF first]) (simp add: sel(1) vs(2) empty_block_def empty_transaction_def)
  obtain reward em where mf: "getBlockReward cur ?h ?v ?m (txs_size + tx_size (blk_baseTransaction b)) ?g fee = Inr (reward, em)" "tx_inputs tx = [BaseInput ?h]"
    "tx_signatures tx = []" "sum_list (map out_amount (tx_outputs tx)) = reward" "length (tx_outputs tx) \<le> 1"
    "tx_unlockTime tx = ucast ?h + (if ?h < UPGRADE_HEIGHT_V4_FIX_1 \<and> ?h > UPGRADE_HEIGHT_V4 then m_minedMoneyUnlockWindow_v1 cur else m_minedMoneyUnlockWindow cur)"
    by (rule constructMinerTx_fields[OF mt(1)]) (use sel(1) vs(1) mt(3) sig0 in simp)
  have ver: "blk_majorVersion b = ?v" "get_block_height b = ?h" by (simp_all add: mt(2) sel(1) vs(1) get_block_height_def mf(2))
  have "checkBlockVersion cur bc b"
    using vs(1,3) ver by (auto simp: checkBlockVersion_def Let_def mt(2) sel(1))
  moreover have "check_block_timestamp_main cur (ce_time E) bc b"
    by (rule template_timestamp_ok[OF ts]) (use n now in \<open>simp_all add: mt(2) sel(1) folds\<close>)
  moreover have "prevalidate_miner_transaction cur b ?h"
    using mf one_output[OF mf(5)] by (simp add: prevalidate_miner_transaction_def Let_def mt(2) check_outs_overflow_def)
  moreover have "validate_miner_transaction cur bc b ?h (word_of_nat (total_size sel) + tx_size (blk_baseTransaction b)) ?g (sum_list (map td_fee sel)) = Inr (True, reward, em)"
  proof (rule validate_template)
    have "txs_size = word_of_nat (total_size sel)" using sel(4) by (metis of_nat_unat ucast_id)
    then show "getBlockReward cur ?h ?v (effective_median cur bc) (word_of_nat (total_size sel) + tx_size (blk_baseTransaction b)) ?g (sum_list (map td_fee sel))
      = Inr (reward, em)" using mf(1) m sel(5) by simp
    show "sum_list (map out_amount (tx_outputs (blk_baseTransaction b))) = reward" using mf(4) by (simp add: mt(2))
  qed
  moreover have "blk_previousBlockHash b = tail" "blk_transactionHashes b = map td_id sel" by (simp_all add: mt(2) sel(1))
  ultimately show ?thesis using d tail sel(2,3) unfolding folds by blast
qed

text \<open>A chain without blocks and with an empty pool, and the miner transaction of its first template.\<close>

definition template_core :: core where
  "template_core = \<lparr>m_blockchain = empty_chain\<lparr>m_current_block_cumul_sz_limit := 40000\<rparr>, core_checkpoints = []\<rparr>"

definition template_tx :: Transaction where
  "template_tx = \<lparr>tx_version = 1, tx_unlockTime = m_minedMoneyUnlockWindow sample_currency, tx_inputs = [BaseInput 0],
    tx_outputs = [\<lparr>out_amount = 419616699218, out_target = KeyOutput (replicate 32 1)\<rparr>],
    tx_extra = 1 # replicate 32 5 @ 7 # replicate 32 6 @ 5 # replicate 32 1 @ replicate 32 2 @ 6 # getBinaryAmount 419616699218, tx_signatures = []\<rparr>"

lemma template_tx_size: "snd (getObjectBinarySize write_Transaction template_tx) = 187"
  by code_simp

lemma template_reward: "getBlockReward sample_currency 0 1 20000 0 0 0 = Inr (419616699218, 419616699218)"
  "getBlockReward sample_currency 0 1 20000 187 0 0 = Inr (419616699218, 419616699218)"
  by (simp_all add: getBlockReward_def blockGrantedFullRewardZoneByBlockVersion_def sample_currency_simps assert_some_def getPenalizedAmount_def)

lemma template_miner_tx:
  assumes "getBlockReward sample_currency 0 1 20000 s 0 0 = Inr (419616699218, 419616699218)" "tx_signatures t0 = []"
  shows "constructMinerTx (ce_crypto (cx_chain sample_core_env)) (cx_generateKeyPair sample_core_env i) sample_currency 1 0 20000 0 s 0 sample_address t0 [] 14 = Inr template_tx"
  using assms by (cases t0) (simp add: constructMinerTx_def sample_core_env_def sample_env_def chain_crypto_def sample_crypto_def sample_address_def keep_def
    addTransactionPublicKeyToExtra_def decompose_amount_into_digits_def merge_outs.simps addTxkeyToExtra_def addToAddressToExtra_def addAmountToExtra_def
    template_tx_def getBinaryAmount_def)

lemma template_chain:
  "getCurrentBlockchainHeight (m_blockchain template_core) = 0" "getCoinsInCirculation (m_blockchain template_core) = 0"
  "getCurrentCumulativeBlocksizeLimit (m_blockchain template_core) = 40000" "getTailId (m_blockchain template_core) = Some NULL_HASH"
  "m_tx_pool (m_blockchain template_core) = tx_memory_pool_init False" "m_blocks (m_blockchain template_core) = []"
  "getBlockMajorVersionForHeight sample_currency 0 (m_blockchain template_core) = 1"
  "effective_median sample_currency (m_blockchain template_core) = 20000"
  by (simp_all add: template_core_def empty_chain_def getCurrentBlockchainHeight_def getCoinsInCirculation_def getCurrentCumulativeBlocksizeLimit_def getTailId_def
    getBlockMajorVersionForHeight_def get_last_n_blocks_sizes_def medianValue_def effective_median_def blockGrantedFullRewardZoneByBlockVersion_def sample_currency_simps)

lemma template_difficulty: "getDifficultyForNextBlock sample_currency (m_blockchain template_core) = Inr 1"
  by code_simp

lemma template_header:
  "template_versions sample_currency (empty_block\<lparr>blk_majorVersion := 1\<rparr>) = Some (empty_block\<lparr>blk_majorVersion := 1\<rparr>)"
  "template_timestamp sample_currency 1000 0 1 (m_blockchain template_core) = Some 1000"
  "\<exists>m. maxBlockCumulativeSize sample_currency 0 = Some m"
  "fill_block_template sample_currency v core bl med m (tx_memory_pool_init False) = Some (bl\<lparr>blk_transactionHashes := []\<rparr>, 0, 0, tx_memory_pool_init False)"
  by (simp add: template_versions_def upgrade_heights empty_block_def)
    (simp_all add: template_timestamp_def timestampCheckWindow_def maxBlockCumulativeSize_def sample_currency_simps fill_block_template_def tx_memory_pool_init_def BlockTemplate_init_def)

lemma template_loop_sample:
  assumes "blk_majorVersion b = 1" "tx_signatures (blk_baseTransaction b) = []"
  shows "template_loop sample_core_env 0 20000 0 0 0 sample_address [] (Suc n) 187 b = Some (Some (b\<lparr>blk_baseTransaction := template_tx\<rparr>))"
  using assms template_miner_tx[OF template_reward(2) assms(2)] by (simp add: sample_core_env_def sample_env_def template_tx_size)

theorem block_template_valid_witness:
  "\<exists>b diffic c'. get_block_template sample_core_env sample_address [] template_core = Some (Some (b, diffic, 0), c')
    \<and> blk_previousBlockHash b = NULL_HASH \<and> prevalidate_miner_transaction sample_currency b 0"
proof -
  have cur: "cx_currency sample_core_env = sample_currency" by (simp add: sample_core_env_def sample_env_def)
  let ?b = "empty_block\<lparr>blk_majorVersion := 1, blk_previousBlockHash := NULL_HASH, blk_timestamp := 1000, blk_transactionHashes := [], blk_baseTransaction := template_tx\<rparr>"
  have now: "ce_time (cx_chain sample_core_env) = 1000" by (simp add: sample_core_env_def sample_env_def)
  obtain c' where t: "get_block_template sample_core_env sample_address [] template_core = Some (Some (?b, 1, 0), c')"
  proof -
    obtain m where m: "maxBlockCumulativeSize sample_currency 0 = Some m" using template_header(3) by blast
    have first: "constructMinerTx (ce_crypto (cx_chain sample_core_env)) (cx_generateKeyPair sample_core_env 11) sample_currency 1 0 20000 0 0 0 sample_address
      empty_transaction [] 14 = Inr template_tx" by (rule template_miner_tx[OF template_reward(1)]) (simp add: empty_transaction_def)
    have lp: "template_loop sample_core_env 0 20000 0 0 0 sample_address [] 10 187 ?b = Some (Some ?b)"
      using template_loop_sample[of ?b 9] by (simp add: template_tx_def)
    have b0: "blk_baseTransaction empty_block = empty_transaction" by (simp add: empty_block_def)
    show ?thesis by (rule that[of "template_core\<lparr>m_blockchain := (m_blockchain template_core)\<lparr>m_tx_pool := tx_memory_pool_init False\<rparr>\<rparr>"])
      (simp add: get_block_template_def Let_def cur now template_difficulty template_chain template_header m first lp template_tx_size b0)
  qed
  have "blockFutureTimeLimit sample_currency 1 = 7200" by (simp add: blockFutureTimeLimit_def sample_currency_simps word_le_nat_alt)
  moreover have "medianValue (last_timestamps sample_currency 1 (m_blockchain template_core)) = 0"
    by (simp add: last_timestamps_def template_chain medianValue_def)
  moreover have "m_transactions (tx_memory_pool_init False) = []" by (simp add: tx_memory_pool_init_def)
  ultimately have "get_block_template sample_core_env sample_address [] template_core = Some (Some (?b, 1, 0), c')
    \<and> blk_previousBlockHash ?b = NULL_HASH \<and> prevalidate_miner_transaction sample_currency ?b 0"
    using block_template_valid[OF t, where C = chain_crypto and i = False] limit_median[of sample_currency "m_blockchain template_core"] template_chain t
    by (simp add: cur now reach_init getCurrentCumulativeBlocksizeLimit_def total_size_def)
  then show ?thesis by blast
qed

end
