(* ===== verification/Spec2Isabelle.thy ===== *)
theory Spec2Isabelle
  imports ChainCache CoreTemplate
begin

text \<open>
  Verification library of the Dynex node and of the libraries it is built from.
\<close>

end
